(* ===== verification/Prelude.thy ===== *)
theory Prelude
  imports "HOL-Library.AList" "HOL-Library.Word" "HOL-Library.Sublist"
begin

text \<open>
  Shared vocabulary of the runbaypty development: the machine types, Go's \<open>copy\<close>
  on slices, Go's \<open>map\<close> as an association list with distinct keys, and the generic
  lemmas and \<open>named_theorems\<close> collections that the component theories use.
\<close>

section \<open>Types and collections\<close>

type_synonym byte = "8 word"
type_synonym u16 = "16 word"
type_synonym u32 = "32 word"
type_synonym u64 = "64 word"

named_theorems go_slice \<open>facts about Go slices, used by the ring, the codec and the log\<close>
named_theorems go_map_simps \<open>facts about Go maps as association lists\<close>
named_theorems inv_defs \<open>definitions of the component invariants\<close>

section \<open>Machine integers\<close>

text \<open>\<open>of_nat_diff\<close> would push subtraction through the word conversions.\<close>

declare of_nat_diff [simp del]

lemma unat_u64 [simp]: "n < 2 ^ 64 \<Longrightarrow> unat (of_nat n :: u64) = n"
  by (simp add: unat_of_nat take_bit_nat_eq_self)

lemma unat_u32 [simp]: "n < 2 ^ 32 \<Longrightarrow> unat (of_nat n :: u32) = n"
  by (simp add: unat_of_nat take_bit_nat_eq_self)

lemma unat_u16 [simp]: "n < 2 ^ 16 \<Longrightarrow> unat (of_nat n :: u16) = n"
  by (simp add: unat_of_nat take_bit_nat_eq_self)

lemma u64_bound [simp]: "unat (x :: u64) < 2 ^ 64"
  using unsigned_less[of x, where ?'a = nat] by simp

lemma bit_byteD: "bit (w :: byte) n \<Longrightarrow> n < 8"
  using bit_imp_le_length[of w n] by simp

lemma bit_byte_ge [simp]: "8 \<le> n \<Longrightarrow> \<not> bit (w :: byte) n"
  using bit_byteD[of w n] by auto

lemma mod_below_twice: "(a::nat) < 2 * c \<Longrightarrow> a mod c = (if a < c then a else a - c)"
  by (simp add: le_mod_geq)

text \<open>\<open>int64\<close> arithmetic on \<open>int\<close>, with its wrap-around.\<close>

definition wrap_i64 :: "int \<Rightarrow> int" where
  "wrap_i64 i = sint (word_of_int i :: u64)"

lemma wrap_i64_id: "- (2 ^ 63) \<le> i \<Longrightarrow> i < 2 ^ 63 \<Longrightarrow> wrap_i64 i = i"
  by (simp add: wrap_i64_def signed_of_int signed_take_bit_int_eq_self)

lemma wrap_i64_range [simp]: "- (2 ^ 63) \<le> wrap_i64 i" "wrap_i64 i < 2 ^ 63"
  using signed_take_bit_int_greater_eq_minus_exp[of 63 i] signed_take_bit_int_less_exp[of 63 i]
  by (simp_all add: wrap_i64_def signed_of_int)

lemma wrap_i64_add [simp]: "wrap_i64 (wrap_i64 a + b) = wrap_i64 (a + b)"
  by (simp add: wrap_i64_def)

section \<open>Decimal text\<close>

text \<open>\<open>strconv.FormatUint\<close> and \<open>strconv.FormatInt\<close> in base 10.\<close>

fun nat_string :: "nat \<Rightarrow> string" where
  "nat_string n =
     (if n < 10 then [char_of (48 + n)] else nat_string (n div 10) @ [char_of (48 + n mod 10)])"

declare nat_string.simps [simp del]

definition int_string :: "int \<Rightarrow> string" where
  "int_string i = (if i < 0 then CHR ''-'' # nat_string (nat (- i)) else nat_string (nat i))"

definition u64_string :: "u64 \<Rightarrow> string" where
  "u64_string w = nat_string (unat w)"

fun parse_digits :: "nat \<Rightarrow> string \<Rightarrow> nat option" where
  "parse_digits acc [] = Some acc"
| "parse_digits acc (c # cs) =
     (if (48 :: nat) \<le> of_char c \<and> of_char c \<le> (57 :: nat) then parse_digits (10 * acc + (of_char c - 48)) cs else None)"

lemma parse_digits_append:
  "parse_digits acc (xs @ ys) = Option.bind (parse_digits acc xs) (\<lambda>a. parse_digits a ys)"
  by (induction xs arbitrary: acc) auto

lemma parse_nat_string: "parse_digits acc (nat_string n) = Some (acc * 10 ^ length (nat_string n) + n)"
proof (induction n rule: nat_string.induct)
  case (1 n)
  show ?case
  proof (cases "n < 10")
    case True
    then show ?thesis by (subst (1 2) nat_string.simps) simp
  next
    case False
    then have "n = 10 * (n div 10) + n mod 10" "n mod 10 < 10" by simp_all
    with False "1.IH"[OF False] show ?thesis
      by (subst (1 2) nat_string.simps) (simp add: parse_digits_append algebra_simps)
  qed
qed

lemma nat_string_digits: "c \<in> set (nat_string n) \<Longrightarrow> (48 :: nat) \<le> of_char c \<and> of_char c \<le> (57 :: nat)"
  by (induction n rule: nat_string.induct) (subst (asm) (2) nat_string.simps, auto split: if_splits)

text \<open>\<open>strconv.ParseInt(s, 10, 64)\<close>: an optional sign, digits, and the \<open>int64\<close> range.\<close>

definition parse_int64 :: "string \<Rightarrow> int option" where
  "parse_int64 s =
     (let neg = (take 1 s = ''-''); ds = (if neg \<or> take 1 s = ''+'' then drop 1 s else s)
      in if ds = [] then None
         else (case parse_digits 0 ds of
             None \<Rightarrow> None
           | Some n \<Rightarrow>
               (let i = (if neg then - int n else int n)
                in if - (2 ^ 63) \<le> i \<and> i < 2 ^ 63 then Some i else None)))"

lemma nat_string_nonempty [simp]: "nat_string n \<noteq> []"
  by (subst nat_string.simps) simp

lemma nat_string_hd: "nat_string n = c # cs \<Longrightarrow> c \<noteq> CHR ''-'' \<and> c \<noteq> CHR ''+''"
  using nat_string_digits[of c n] by auto

lemma parse_int_string [simp]:
  "- (2 ^ 63) \<le> i \<Longrightarrow> i < 2 ^ 63 \<Longrightarrow> parse_int64 (int_string i) = Some i"
  using parse_nat_string[of 0 "nat i"] parse_nat_string[of 0 "nat (- i)"]
  by (cases "nat_string (nat i)") (auto simp: parse_int64_def int_string_def Let_def dest: nat_string_hd)

section \<open>Go slices\<close>

text \<open>
  \<open>copy(dst[off:], src)\<close>: the builtin copies the minimum of the two lengths and
  leaves the rest of \<open>dst\<close> alone.
\<close>

definition copied :: "'a list \<Rightarrow> nat \<Rightarrow> 'a list \<Rightarrow> nat" where
  "copied dst off src = min (length dst - off) (length src)"

definition copy_into :: "'a list \<Rightarrow> nat \<Rightarrow> 'a list \<Rightarrow> 'a list" where
  "copy_into dst off src =
     take off dst @ take (copied dst off src) src @ drop (off + copied dst off src) dst"

text \<open>\<open>s[lo:hi]\<close> for bounds inside the slice.\<close>

definition sub_slice :: "nat \<Rightarrow> nat \<Rightarrow> 'a list \<Rightarrow> 'a list" where
  "sub_slice lo hi xs = take (hi - lo) (drop lo xs)"

lemma length_copy_into [simp, go_slice]:
  "off \<le> length dst \<Longrightarrow> length (copy_into dst off src) = length dst"
  by (auto simp: copy_into_def copied_def)

lemma nth_copy_into [go_slice]:
  assumes "off \<le> length dst" "i < length dst"
  shows "copy_into dst off src ! i =
    (if off \<le> i \<and> i < off + length src then src ! (i - off) else dst ! i)"
  using assms by (auto simp: copy_into_def copied_def nth_append min_def)

lemma copy_into_full [simp, go_slice]:
  "length src = length dst \<Longrightarrow> copy_into dst 0 src = src"
  by (simp add: copy_into_def copied_def)

lemma length_sub_slice [simp, go_slice]: "hi \<le> length xs \<Longrightarrow> length (sub_slice lo hi xs) = hi - lo"
  by (simp add: sub_slice_def)

lemma nth_sub_slice [go_slice]:
  "i < hi - lo \<Longrightarrow> lo \<le> hi \<Longrightarrow> hi \<le> length xs \<Longrightarrow> sub_slice lo hi xs ! i = xs ! (lo + i)"
  by (simp add: sub_slice_def)

lemma length_ge_3: "3 \<le> length xs \<longleftrightarrow> (\<exists>a b c ys. xs = a # b # c # ys)"
  by (auto simp: numeral_3_eq_3 Suc_le_length_iff)

lemma length_eq_4: "length xs = 4 \<longleftrightarrow> (\<exists>a b c d. xs = [a, b, c, d])"
  by (auto simp: numeral_eq_Suc length_Suc_conv)

section \<open>Go maps\<close>

text \<open>
  A Go \<open>map[K]V\<close> is an association list with distinct keys; \<open>len(m)\<close> is its length, and
  ranging over it follows the list, which stands for the unspecified iteration order.
\<close>

type_synonym ('k, 'v) gomap = "('k \<times> 'v) list"

definition mget :: "('k, 'v) gomap \<Rightarrow> 'k \<Rightarrow> 'v option" where
  "mget m k = map_of m k"

definition mput :: "'k \<Rightarrow> 'v \<Rightarrow> ('k, 'v) gomap \<Rightarrow> ('k, 'v) gomap" where
  "mput k v m = AList.update k v m"

definition mdel :: "'k \<Rightarrow> ('k, 'v) gomap \<Rightarrow> ('k, 'v) gomap" where
  "mdel k m = AList.delete k m"

definition mwf :: "('k, 'v) gomap \<Rightarrow> bool" where
  "mwf m \<longleftrightarrow> distinct (map fst m)"

lemma mget_Nil [simp]: "mget [] k = None"
  by (simp add: mget_def)

lemma mwf_Nil [simp]: "mwf []"
  by (simp add: mwf_def)

lemma mget_mput [simp]: "mget (mput k v m) j = (if j = k then Some v else mget m j)"
  by (simp add: mget_def mput_def update_conv')

lemma mget_mdel [simp]: "mget (mdel k m) j = (if j = k then None else mget m j)"
  by (simp add: mget_def mdel_def delete_conv')

lemma mwf_mput [simp]: "mwf m \<Longrightarrow> mwf (mput k v m)"
  by (simp add: mwf_def mput_def distinct_update)

lemma mwf_mdel [simp]: "mwf m \<Longrightarrow> mwf (mdel k m)"
  by (simp add: mwf_def mdel_def distinct_delete)

lemma mget_SomeD: "mget m k = Some v \<Longrightarrow> (k, v) \<in> set m"
  by (simp add: mget_def map_of_SomeD)

lemma mget_iff_mem: "mwf m \<Longrightarrow> mget m k = Some v \<longleftrightarrow> (k, v) \<in> set m"
  by (simp add: mget_def mwf_def)

lemma mget_None_iff: "mget m k = None \<longleftrightarrow> k \<notin> fst ` set m"
  by (simp add: mget_def map_of_eq_None_iff)

lemma length_mput: "length (mput k v m) = (if mget m k = None then Suc (length m) else length m)"
  unfolding mput_def mget_def by (induction m) auto

lemma fst_set_map_of: "fst ` set m = dom (map_of m)"
  by (rule dom_map_of_conv_image_fst [symmetric])

lemma fst_set_mdel: "fst ` set (mdel k m) = fst ` set m - {k}"
  by (auto simp: fst_set_map_of mdel_def delete_conv')

lemma fst_set_mput: "fst ` set (mput k v m) = insert k (fst ` set m)"
  by (simp add: fst_set_map_of mput_def update_conv' del: fun_upd_apply)

lemma length_mwf: "mwf m \<Longrightarrow> length m = card (fst ` set m)"
  by (metis distinct_card length_map list.set_map mwf_def)

lemma length_mdel:
  "mwf m \<Longrightarrow> length (mdel k m) = (if mget m k = None then length m else length m - 1)"
  by (simp add: length_mwf fst_set_mdel mget_None_iff card_Diff_singleton_if)

lemma set_mput: "mwf m \<Longrightarrow> x \<in> set (mput k v m) \<Longrightarrow> x = (k, v) \<or> (x \<in> set m \<and> fst x \<noteq> k)"
  using mget_iff_mem[of "mput k v m" "fst x" "snd x"] mget_iff_mem[of m "fst x" "snd x"]
  by (cases x) (auto split: if_splits)

lemma set_mdel: "mwf m \<Longrightarrow> x \<in> set (mdel k m) \<Longrightarrow> x \<in> set m"
  using mget_iff_mem[of "mdel k m" "fst x" "snd x"] mget_iff_mem[of m "fst x" "snd x"]
  by (cases x) (auto split: if_splits)

end
