(* ===== verification/Ring.thy ===== *)
theory Ring
  imports Prelude
begin

text \<open>
  The scrollback ring of \<open>pkg/host/ring.go\<close>: a circular byte buffer on an absolute
  64-bit sequence axis. \<open>ring_rep r h\<close> relates a ring to the history \<open>h\<close> of every
  byte ever written to it; the interface \<open>seq_store\<close> is what the output pumps, the
  watches, the log stitch and the handover rely on.
\<close>

section \<open>The ring buffer as the code has it\<close>

record ring =
  r_buf :: "byte list"
  r_end :: u64
  r_filled :: nat
  r_next :: nat

text \<open>\<open>NewRing\<close>: \<open>None\<close> is the panic on a non-positive capacity.\<close>

definition new_ring :: "int \<Rightarrow> ring option" where
  "new_ring capBytes =
     (if capBytes \<le> 0 then None
      else Some \<lparr>r_buf = replicate (nat capBytes) 0, r_end = 0, r_filled = 0, r_next = 0\<rparr>)"

definition ring_write :: "ring \<Rightarrow> byte list \<Rightarrow> ring" where
  "ring_write r p =
     (if length p = 0 then r
      else
        let cap = length (r_buf r);
            r1 = r\<lparr>r_end := r_end r + of_nat (length p)\<rparr>
        in if length p \<ge> cap
           then r1\<lparr>r_buf := copy_into (r_buf r) 0 (drop (length p - cap) p),
                   r_next := 0, r_filled := cap\<rparr>
           else
             let n = copied (r_buf r) (r_next r) p;
                 b1 = copy_into (r_buf r) (r_next r) p;
                 b2 = (if n < length p then copy_into b1 0 (drop n p) else b1);
                 f = r_filled r + length p
             in r1\<lparr>r_buf := b2,
                   r_next := (r_next r + length p) mod cap,
                   r_filled := (if f > cap then cap else f)\<rparr>)"

definition ring_last_seq :: "ring \<Rightarrow> u64" where
  "ring_last_seq r = r_end r"

definition ring_len :: "ring \<Rightarrow> nat" where
  "ring_len r = r_filled r"

definition ring_cap_bytes :: "ring \<Rightarrow> nat" where
  "ring_cap_bytes r = length (r_buf r)"

text \<open>\<open>replayLocked\<close>: the missed suffix, the sequence of its first byte, and whether the
  request predates the oldest retained byte. Go's \<open>%\<close> agrees with \<open>mod\<close> here because
  the dividend is never negative (\<open>count \<le> 2 * len(buf)\<close>).\<close>

definition ring_bytes :: "ring \<Rightarrow> nat \<Rightarrow> byte list" where
  "ring_bytes r count =
     (let cap = length (r_buf r);
          start = nat ((int (r_next r) - int count + int cap * 2) mod int cap);
          first = sub_slice start (min (start + count) cap) (r_buf r);
          data0 = replicate count 0;
          n = copied data0 0 first;
          data1 = copy_into data0 0 first
      in if n < count then copy_into data1 n (sub_slice 0 (count - n) (r_buf r)) else data1)"

definition replay_locked :: "ring \<Rightarrow> u64 \<Rightarrow> byte list \<times> u64 \<times> bool" where
  "replay_locked r since =
     (if since \<ge> r_end r then ([], since, False)
      else
        let oldest = r_end r - of_nat (r_filled r);
            truncated = (since < oldest);
            fromSeq = (if truncated then oldest else since);
            count = unat (r_end r - fromSeq)
        in (ring_bytes r count, fromSeq, truncated))"

definition ring_replay_from :: "ring \<Rightarrow> u64 \<Rightarrow> byte list \<times> u64 \<times> bool" where
  "ring_replay_from r since = replay_locked r since"

definition ring_snapshot :: "ring \<Rightarrow> byte list \<times> u64" where
  "ring_snapshot r = (fst (replay_locked r (r_end r - of_nat (r_filled r))), r_end r)"

definition ring_from_snapshot :: "int \<Rightarrow> byte list \<Rightarrow> u64 \<Rightarrow> ring option" where
  "ring_from_snapshot capBytes data endSeq =
     map_option (\<lambda>r. (ring_write r data)\<lparr>r_end := endSeq\<rparr>) (new_ring capBytes)"

section \<open>The abstract interface: a store of the newest bytes of a history\<close>

definition replay_spec :: "nat \<Rightarrow> byte list \<Rightarrow> u64 \<Rightarrow> byte list \<times> u64 \<times> bool" where
  "replay_spec kept h since =
     (if length h \<le> unat since then ([], since, False)
      else let from = max (unat since) (length h - kept)
           in (drop from h, of_nat from, unat since < length h - kept))"

locale seq_store =
  fixes rep :: "'s \<Rightarrow> byte list \<Rightarrow> bool"
    and append :: "'s \<Rightarrow> byte list \<Rightarrow> 's"
    and replay :: "'s \<Rightarrow> u64 \<Rightarrow> byte list \<times> u64 \<times> bool"
    and last_seq :: "'s \<Rightarrow> u64"
    and kept :: "'s \<Rightarrow> nat"
  assumes rep_write: "rep s h \<Longrightarrow> length h + length p < 2 ^ 64 \<Longrightarrow> rep (append s p) (h @ p)"
    and rep_last: "rep s h \<Longrightarrow> last_seq s = of_nat (length h)"
    and rep_kept: "rep s h \<Longrightarrow> kept s \<le> length h \<and> length h < 2 ^ 64"
    and rep_replay: "rep s h \<Longrightarrow> replay s since = replay_spec (kept s) h since"
begin

lemma unat_last: "rep s h \<Longrightarrow> unat (last_seq s) = length h"
  using rep_kept[of s h] by (simp add: rep_last)

lemma replay_data:
  assumes "rep s h" "replay s since = (data, from, tr)"
  shows "data = (if length h \<le> unat since then [] else drop (max (unat since) (length h - kept s)) h)"
    and "unat from =
      (if length h \<le> unat since then unat since else max (unat since) (length h - kept s))"
    and "tr \<longleftrightarrow> unat since < length h - kept s"
  using assms rep_kept[OF assms(1)]
  by (auto simp: rep_replay[OF assms(1)] replay_spec_def Let_def
      split: if_splits)

lemma replay_resumes:
  assumes "rep s h" "replay s since = (data, from, False)" "unat since \<le> length h"
  shows "take (unat since) h @ data = h" and "from = since"
  using replay_data[OF assms(1,2)] assms(3)
  by (auto simp: max_def word_unat_eq_iff split: if_splits)

lemma replay_suffix:
  assumes "rep s h" "replay s since = (data, from, tr)"
  shows "data = drop (unat from) h"
  using replay_data[OF assms] by (auto split: if_splits)

lemma replay_end:
  assumes "rep s h" "replay s since = (data, from, tr)" "unat since \<le> length h"
  shows "unat from + length data = length h" and "unat since \<le> unat from"
  using replay_data[OF assms(1,2)] assms(3) rep_kept[OF assms(1)] by (auto split: if_splits)

lemma replay_truncated_iff:
  assumes "rep s h" "replay s since = (data, from, tr)" "unat since \<le> length h"
  shows "tr \<longleftrightarrow> unat since < unat from"
  using replay_data[OF assms(1,2)] assms(3) rep_kept[OF assms(1)] by (auto split: if_splits)

lemma replay_empty_iff:
  assumes "rep s h" "replay s since = (data, from, tr)" "unat since \<le> length h" "0 < kept s"
  shows "data = [] \<longleftrightarrow> unat since = length h"
  using replay_data[OF assms(1,2)] assms(3,4) rep_kept[OF assms(1)] by (auto split: if_splits)

end

section \<open>The ring implements the interface\<close>

definition ring_rep :: "ring \<Rightarrow> byte list \<Rightarrow> bool" where
  "ring_rep r h \<longleftrightarrow>
     0 < length (r_buf r) \<and> r_next r < length (r_buf r) \<and> r_filled r \<le> length (r_buf r) \<and>
     r_filled r \<le> length h \<and> length h < 2 ^ 64 \<and> r_end r = of_nat (length h) \<and>
     (\<forall>d. 1 \<le> d \<and> d \<le> r_filled r \<longrightarrow>
        r_buf r ! ((r_next r + length (r_buf r) - d) mod length (r_buf r)) = h ! (length h - d))"

lemma ring_rep_new: "new_ring c = Some r \<Longrightarrow> ring_rep r []"
  by (auto simp: new_ring_def ring_rep_def split: if_splits)

lemma ring_rep_write_big:
  assumes r: "ring_rep r h" and l: "length h + length p < 2 ^ 64"
    and big: "length (r_buf r) \<le> length p"
  shows "ring_rep (ring_write r p) (h @ p)"
proof -
  let ?cap = "length (r_buf r)"
  have "0 < ?cap" using r by (simp add: ring_rep_def)
  with big have w: "ring_write r p =
      r\<lparr>r_buf := drop (length p - ?cap) p, r_end := r_end r + of_nat (length p), r_filled := ?cap, r_next := 0\<rparr>"
    by (auto simp: ring_write_def Let_def)
  show ?thesis
    using r l big by (auto simp: w ring_rep_def nth_append)
qed

text \<open>Where the bytes of a small write land.\<close>

lemma wrapped_write_nth:
  assumes "nx < length b" "length p < length b" "i < length b"
  defines "b1 \<equiv> copy_into b nx p"
  defines "b2 \<equiv> (if copied b nx p < length p then copy_into b1 0 (drop (copied b nx p) p) else b1)"
  shows "b2 ! i =
    (if nx \<le> i \<and> i < nx + length p then p ! (i - nx)
     else if i + length b < nx + length p then p ! (i + length b - nx) else b ! i)"
proof (cases "copied b nx p < length p")
  case True
  then have c: "copied b nx p = length b - nx" and "length b < nx + length p"
    using assms(1) by (auto simp: copied_def)
  then show ?thesis
    using True assms(1-3) by (auto simp: b1_def b2_def nth_copy_into add.commute)
next
  case False
  then have "nx + length p \<le> length b"
    using assms(1) by (auto simp: copied_def)
  then show ?thesis
    using False assms(1-3) by (auto simp: b1_def b2_def nth_copy_into)
qed

lemma ring_write_small:
  assumes "0 < length p" "length p < length (r_buf r)"
  shows "ring_write r p =
    r\<lparr>r_buf := (if copied (r_buf r) (r_next r) p < length p
                then copy_into (copy_into (r_buf r) (r_next r) p) 0 (drop (copied (r_buf r) (r_next r) p) p)
                else copy_into (r_buf r) (r_next r) p),
      r_end := r_end r + of_nat (length p),
      r_filled := min (length (r_buf r)) (r_filled r + length p),
      r_next := (r_next r + length p) mod length (r_buf r)\<rparr>"
  using assms by (auto simp: ring_write_def Let_def min_def)

lemma ring_rep_write_small:
  assumes r: "ring_rep r h" and l: "length h + length p < 2 ^ 64"
    and p: "0 < length p" "length p < length (r_buf r)"
  shows "ring_rep (ring_write r p) (h @ p)"
proof -
  let ?b = "r_buf r" and ?nx = "r_next r" and ?m = "length p" and ?w = "ring_write r p"
  let ?cap = "length ?b" and ?f = "min (length (r_buf r)) (r_filled r + length p)"
  have nx: "?nx < ?cap" using r by (simp add: ring_rep_def)
  have cap: "length (r_buf ?w) = ?cap" and f: "r_filled ?w = ?f"
    and nx': "r_next ?w = (if ?nx + ?m < ?cap then ?nx + ?m else ?nx + ?m - ?cap)"
    using p nx by (simp_all add: ring_write_small mod_below_twice)
  have b: "r_buf ?w ! i = (if ?nx \<le> i \<and> i < ?nx + ?m then p ! (i - ?nx)
      else if i + ?cap < ?nx + ?m then p ! (i + ?cap - ?nx) else ?b ! i)" if "i < ?cap" for i
    using wrapped_write_nth[OF nx p(2) that] p by (simp add: ring_write_small)
  have "r_buf ?w ! ((r_next ?w + ?cap - d) mod ?cap) = (h @ p) ! (length (h @ p) - d)"
    if d: "1 \<le> d" "d \<le> ?f" for d
  proof (cases "d \<le> ?m")
    case True
    let ?i = "if ?nx + (?m - d) < ?cap then ?nx + (?m - d) else ?nx + (?m - d) - ?cap"
    have "(r_next ?w + ?cap - d) mod ?cap = ?i"
      using True d nx p by (auto simp: nx' mod_below_twice)
    then show ?thesis
      using True d nx p b[of ?i] by (auto simp: nth_append)
  next
    case False
    let ?e = "d - ?m"
    let ?i = "if ?e \<le> ?nx then ?nx - ?e else ?nx + ?cap - ?e"
    have e: "1 \<le> ?e" "?e \<le> r_filled r" "?e + ?m \<le> ?cap" using False d by auto
    have i: "(r_next ?w + ?cap - d) mod ?cap = ?i"
      using False d nx p e by (auto simp: nx' mod_below_twice)
    have "(?nx + ?cap - ?e) mod ?cap = ?i"
      using e nx p by (auto simp: mod_below_twice)
    then have "?b ! ?i = h ! (length h - ?e)"
      using r e by (auto simp: ring_rep_def)
    moreover have "r_buf ?w ! ?i = ?b ! ?i"
      using b[of ?i] e nx p by auto
    ultimately show ?thesis
      using False d e r by (auto simp: i nth_append ring_rep_def)
  qed
  moreover have "r_next ?w < ?cap" and "r_end ?w = of_nat (length (h @ p))"
    using nx p r by (auto simp: nx' ring_write_small ring_rep_def)
  ultimately show ?thesis
    using r l nx by (auto simp: ring_rep_def cap f)
qed

lemma ring_rep_write:
  assumes "ring_rep r h" "length h + length p < 2 ^ 64"
  shows "ring_rep (ring_write r p) (h @ p)"
proof (cases "p = []")
  case True
  then show ?thesis using assms by (simp add: ring_write_def)
next
  case False
  then show ?thesis
    using assms ring_rep_write_big ring_rep_write_small by (cases "length (r_buf r) \<le> length p") auto
qed

lemma ring_bytes_eq:
  assumes r: "ring_rep r h" and c: "count \<le> r_filled r"
  shows "ring_bytes r count = drop (length h - count) h"
proof (rule nth_equalityI)
  define cap where "cap = length (r_buf r)"
  define start where "start = nat ((int (r_next r) - int count + int cap * 2) mod int cap)"
  define first where "first = sub_slice start (min (start + count) cap) (r_buf r)"
  define d1 where "d1 = copy_into (replicate count 0) 0 first"
  have data: "ring_bytes r count =
    (if copied (replicate count (0::byte)) 0 first < count
     then copy_into d1 (copied (replicate count (0::byte)) 0 first)
            (sub_slice 0 (count - copied (replicate count (0::byte)) 0 first) (r_buf r))
     else d1)"
    by (simp add: ring_bytes_def Let_def cap_def start_def first_def d1_def)
  have nx: "r_next r < cap" and f: "r_filled r \<le> cap" "count \<le> length h" "count \<le> cap"
    using r c by (auto simp: ring_rep_def cap_def)
  let ?s = "if count \<le> r_next r then r_next r - count else r_next r + cap - count"
  have "(int (r_next r) - int count + int cap * 2) mod int cap =
        int ((r_next r + cap * 2 - count) mod cap)"
    using f by (simp add: zmod_int of_nat_diff algebra_simps)
  also have "(r_next r + cap * 2 - count) mod cap = (r_next r + cap - count) mod cap"
  proof -
    have "r_next r + cap * 2 - count = (r_next r + cap - count) + cap"
      using f by simp
    then show ?thesis by (metis mod_add_self2)
  qed
  finally have start: "start = ?s"
    using f nx c by (auto simp: start_def mod_below_twice)
  have sc: "start \<le> cap" "start < cap \<or> count = 0" using start nx c by auto
  have lf: "length first = min count (cap - start)"
    using sc by (auto simp: first_def cap_def min_def)
  show "length (ring_bytes r count) = length (drop (length h - count) h)"
    using f by (auto simp: data d1_def copied_def)
  fix i assume "i < length (ring_bytes r count)"
  then have i: "i < count" by (auto simp: data d1_def copied_def split: if_splits)
  have src: "ring_bytes r count ! i = r_buf r ! (if start + i < cap then start + i else start + i - cap)"
    using i lf sc c f by (auto simp: data d1_def copied_def nth_copy_into first_def nth_sub_slice cap_def add.commute)
  have "(r_next r + cap - (count - i)) mod cap = (if start + i < cap then start + i else start + i - cap)"
    using i nx f c by (auto simp: start mod_below_twice)
  moreover have "r_buf r ! ((r_next r + cap - d) mod cap) = h ! (length h - d)"
    if "1 \<le> d" "d \<le> r_filled r" for d
    using r that by (simp add: ring_rep_def cap_def)
  from this[of "count - i"] i c
  have "r_buf r ! ((r_next r + cap - (count - i)) mod cap) = h ! (length h - (count - i))"
    by linarith
  ultimately show "ring_bytes r count ! i = drop (length h - count) h ! i"
    using src i f by simp
qed

lemma ring_oldest:
  assumes "ring_rep r h"
  shows "unat (r_end r - of_nat (r_filled r)) = length h - r_filled r"
proof -
  have h: "r_end r = of_nat (length h)" "r_filled r \<le> length h" "length h < 2 ^ 64"
    using assms by (auto simp: ring_rep_def)
  have "r_end r - of_nat (r_filled r) = of_nat (length h - r_filled r)"
    unfolding h(1) using h(2) by (rule of_nat_diff [symmetric])
  then show ?thesis using h(3) by simp
qed

lemma ring_rep_replay:
  assumes r: "ring_rep r h"
  shows "ring_replay_from r since = replay_spec (r_filled r) h since"
proof (cases "length h \<le> unat since")
  case True
  then have "r_end r \<le> since"
    using r by (simp add: ring_rep_def word_le_nat_alt)
  then show ?thesis using True by (simp add: ring_replay_from_def replay_locked_def replay_spec_def)
next
  case False
  let ?old = "r_end r - of_nat (r_filled r)"
  let ?from = "if since < ?old then ?old else since"
  let ?n = "max (unat since) (length h - r_filled r)"
  have h: "length h < 2 ^ 64" "r_end r = of_nat (length h)" "r_filled r \<le> length h"
    using r by (auto simp: ring_rep_def)
  have e: "\<not> r_end r \<le> since" using False h by (simp add: word_le_nat_alt)
  have tr: "since < ?old \<longleftrightarrow> unat since < length h - r_filled r"
    using ring_oldest[OF r] by (simp add: word_less_nat_alt)
  have frm: "?from = of_nat ?n"
    using ring_oldest[OF r] h(1) tr by (auto simp: word_unat_eq_iff max_def)
  have n: "?n < length h \<or> r_filled r = 0" "?n \<le> length h" using False by auto
  have cnt: "unat (r_end r - ?from) = length h - ?n"
    unfolding frm using h n by (simp flip: of_nat_diff)
  have "ring_bytes r (length h - ?n) = drop ?n h"
    using ring_bytes_eq[OF r, of "length h - ?n"] n by simp
  then show ?thesis
    using e False tr frm cnt
    by (simp only: ring_replay_from_def replay_locked_def replay_spec_def Let_def if_False)
qed

lemma ring_rep_bounds: "ring_rep r h \<Longrightarrow> ring_len r \<le> length h \<and> length h < 2 ^ 64"
  by (simp add: ring_rep_def ring_len_def)

lemma ring_rep_last: "ring_rep r h \<Longrightarrow> ring_last_seq r = of_nat (length h)"
  by (simp add: ring_rep_def ring_last_seq_def)

interpretation ring_store: seq_store ring_rep ring_write ring_replay_from ring_last_seq ring_len
  by unfold_locales
    (use ring_rep_bounds in \<open>auto simp: ring_rep_write ring_rep_last ring_rep_replay[folded ring_len_def]\<close>)

section \<open>Capacity and retention\<close>

lemma ring_write_cap [simp]: "r_next r \<le> length (r_buf r) \<Longrightarrow>
    length (r_buf (ring_write r p)) = length (r_buf r)"
  by (simp add: ring_write_def Let_def)

lemma ring_write_filled: "r_filled r \<le> length (r_buf r) \<Longrightarrow>
    r_filled (ring_write r p) = min (length (r_buf r)) (r_filled r + length p)"
  by (auto simp: ring_write_def Let_def)

lemma ring_rep_cap: "ring_rep r h \<Longrightarrow> length (r_buf (ring_write r p)) = length (r_buf r)"
  by (simp add: ring_rep_def)

lemma ring_rep_filled: "ring_rep r h \<Longrightarrow> r_filled r \<le> length (r_buf r)"
  by (simp add: ring_rep_def)

lemma ring_writes_rep:
  assumes "ring_rep r h" "length h + length (concat ps) < 2 ^ 64"
  shows "ring_rep (foldl ring_write r ps) (h @ concat ps) \<and>
    length (r_buf (foldl ring_write r ps)) = length (r_buf r) \<and>
    r_filled (foldl ring_write r ps) = min (length (r_buf r)) (r_filled r + length (concat ps))"
  using assms
proof (induction ps arbitrary: r h)
  case Nil
  then show ?case by (auto simp: ring_rep_def)
next
  case (Cons p ps)
  have "ring_rep (ring_write r p) (h @ p)"
    using Cons.prems by (intro ring_rep_write) auto
  from Cons.IH[OF this] Cons.prems show ?case
    using ring_rep_cap[OF Cons.prems(1), of p] ring_rep_filled[OF Cons.prems(1)]
    by (auto simp: ring_write_filled add.assoc)
qed

text \<open>C1. Zero-gap replay: after any sequence of writes to a new ring, a replay from a
  sequence number returns exactly the part of the stream written since that number which the
  newest \<open>cap\<close> bytes still hold, the sequence number of its first byte, and a truncation
  flag that is set exactly when the number predates the oldest retained byte.\<close>

theorem ring_zero_gap:
  assumes "new_ring cap = Some r0" "length (concat ps) < 2 ^ 64"
  shows "ring_replay_from (foldl ring_write r0 ps) since =
    replay_spec (min (nat cap) (length (concat ps))) (concat ps) since"
proof -
  have f: "r_filled r0 = 0" "length (r_buf r0) = nat cap"
    using assms(1) by (auto simp: new_ring_def split: if_splits)
  have "ring_rep (foldl ring_write r0 ps) (concat ps)"
    and "r_filled (foldl ring_write r0 ps) = min (nat cap) (length (concat ps))"
    using ring_writes_rep[OF ring_rep_new[OF assms(1)], of ps] assms(2) f by auto
  then show ?thesis by (simp only: ring_rep_replay)
qed

theorem ring_zero_gap_witness:
  "ring_replay_from (foldl ring_write
      \<lparr>r_buf = replicate 4 0, r_end = 0, r_filled = 0, r_next = 0\<rparr> [[1, 2, 3], [4, 5, 6]]) 1
   = ([3, 4, 5, 6], 2, True)"
proof -
  have "new_ring 4 = Some \<lparr>r_buf = replicate 4 0, r_end = 0, r_filled = 0, r_next = 0\<rparr>"
    by (simp add: new_ring_def)
  from ring_zero_gap[OF this, of "[[1, 2, 3], [4, 5, 6]]" 1] show ?thesis
    by (simp add: replay_spec_def Let_def)
qed

section \<open>Snapshot and restore\<close>

lemma ring_snapshot_eq:
  assumes "ring_rep r h"
  shows "ring_snapshot r = (drop (length h - r_filled r) h, of_nat (length h))"
  using ring_rep_replay[OF assms, of "r_end r - of_nat (r_filled r)"] ring_oldest[OF assms] assms
  by (auto simp: ring_snapshot_def ring_replay_from_def replay_spec_def Let_def ring_rep_def)

lemma ring_rep_restore:
  assumes "new_ring cap = Some r0" "suffix data h" "length h < 2 ^ 64"
  shows "ring_rep ((ring_write r0 data)\<lparr>r_end := of_nat (length h)\<rparr>) h"
proof -
  obtain pre where h: "h = pre @ data" using assms(2) by (auto simp: suffix_def)
  have "ring_rep (ring_write r0 data) ([] @ data)"
    using ring_rep_new[OF assms(1)] assms(3) h by (intro ring_rep_write) auto
  then show ?thesis
    using assms(3) by (auto simp: ring_rep_def h nth_append)
qed

text \<open>Handover of a ring: a ring rebuilt from a snapshot, with the same capacity, answers
  every replay request exactly as the original ring does, so the sequence axis continues
  across a daemon upgrade.\<close>

theorem ring_snapshot_roundtrip:
  assumes "ring_rep r h" "ring_snapshot r = (data, endSeq)"
  shows "\<exists>r'. ring_from_snapshot (int (ring_cap_bytes r)) data endSeq = Some r' \<and>
    ring_rep r' h \<and> ring_last_seq r' = ring_last_seq r \<and>
    (\<forall>since. ring_replay_from r' since = ring_replay_from r since)"
proof -
  let ?c = "int (ring_cap_bytes r)"
  have d: "data = drop (length h - r_filled r) h" and e: "endSeq = of_nat (length h)"
    using ring_snapshot_eq[OF assms(1)] assms(2) by auto
  have c: "0 < ?c" and h: "length h < 2 ^ 64" and f: "r_filled r \<le> length (r_buf r)" "r_filled r \<le> length h"
    using assms(1) by (auto simp: ring_rep_def ring_cap_bytes_def)
  then obtain r0 where r0: "new_ring ?c = Some r0" and r0': "r_filled r0 = 0" "length (r_buf r0) = ring_cap_bytes r"
    by (simp add: new_ring_def)
  let ?r = "(ring_write r0 data)\<lparr>r_end := endSeq\<rparr>"
  have rep: "ring_rep ?r h"
    using ring_rep_restore[OF r0 _ h] by (simp add: d e suffix_drop)
  moreover have "r_filled ?r = r_filled r"
    using r0' f by (simp add: ring_write_filled d ring_cap_bytes_def)
  ultimately show ?thesis
    using assms(1) by (auto simp: ring_from_snapshot_def r0 ring_rep_replay ring_rep_last)
qed

theorem ring_snapshot_roundtrip_witness:
  "\<exists>r'. ring_from_snapshot 2 [2, 3] 3 = Some r' \<and> ring_replay_from r' 1 = ([2, 3], 1, False)"
proof -
  let ?r = "\<lparr>r_buf = [3, 2], r_end = 3, r_filled = 2, r_next = 1\<rparr>"
  have rep: "ring_rep ?r [1, 2, 3]"
  proof -
    have "(\<forall>d. Suc 0 \<le> d \<and> d \<le> 2 \<longrightarrow> P d) \<longleftrightarrow> P 1 \<and> P 2" for P :: "nat \<Rightarrow> bool"
      by (auto simp: le_Suc_eq numeral_2_eq_2)
    then show ?thesis by (simp add: ring_rep_def)
  qed
  have "ring_snapshot ?r = ([2, 3], 3)"
    using ring_snapshot_eq[OF rep] by simp
  from ring_snapshot_roundtrip[OF rep this] show ?thesis
    using ring_rep_replay[OF rep] by (auto simp: ring_cap_bytes_def replay_spec_def Let_def)
qed

end
