(* ===== verification/Frame.thy ===== *)
theory Frame
  imports Prelude
begin

text \<open>
  The frame-type registry of \<open>pkg/proto/frame.go\<close>: the wire values, their names, the
  size limits and the small number formatter behind \<open>String\<close>.
\<close>

section \<open>Frame types\<close>

type_synonym frame_type = byte

abbreviation TypeHello :: frame_type where "TypeHello \<equiv> 1"
abbreviation TypeHelloAck :: frame_type where "TypeHelloAck \<equiv> 2"
abbreviation TypeError :: frame_type where "TypeError \<equiv> 3"
abbreviation TypeSpawn :: frame_type where "TypeSpawn \<equiv> 10"
abbreviation TypeSpawnOK :: frame_type where "TypeSpawnOK \<equiv> 11"
abbreviation TypeInput :: frame_type where "TypeInput \<equiv> 12"
abbreviation TypeInputEOF :: frame_type where "TypeInputEOF \<equiv> 13"
abbreviation TypeOutput :: frame_type where "TypeOutput \<equiv> 14"
abbreviation TypeResize :: frame_type where "TypeResize \<equiv> 15"
abbreviation TypeKill :: frame_type where "TypeKill \<equiv> 16"
abbreviation TypeList :: frame_type where "TypeList \<equiv> 17"
abbreviation TypeListOK :: frame_type where "TypeListOK \<equiv> 18"
abbreviation TypeInfo :: frame_type where "TypeInfo \<equiv> 19"
abbreviation TypeInfoOK :: frame_type where "TypeInfoOK \<equiv> 20"
abbreviation TypeAttach :: frame_type where "TypeAttach \<equiv> 21"
abbreviation TypeAttachOK :: frame_type where "TypeAttachOK \<equiv> 22"
abbreviation TypeDetach :: frame_type where "TypeDetach \<equiv> 23"
abbreviation TypeRename :: frame_type where "TypeRename \<equiv> 24"
abbreviation TypeSetMeta :: frame_type where "TypeSetMeta \<equiv> 25"
abbreviation TypeTakeWrite :: frame_type where "TypeTakeWrite \<equiv> 26"
abbreviation TypeReleaseWrite :: frame_type where "TypeReleaseWrite \<equiv> 27"
abbreviation TypeSubEvents :: frame_type where "TypeSubEvents \<equiv> 28"
abbreviation TypeOK :: frame_type where "TypeOK \<equiv> 29"
abbreviation TypeEvent :: frame_type where "TypeEvent \<equiv> 30"
abbreviation TypeExit :: frame_type where "TypeExit \<equiv> 31"
abbreviation TypeCommandStarted :: frame_type where "TypeCommandStarted \<equiv> 40"
abbreviation TypeCommandFinished :: frame_type where "TypeCommandFinished \<equiv> 41"
abbreviation TypeWatch :: frame_type where "TypeWatch \<equiv> 42"
abbreviation TypeWatchEvent :: frame_type where "TypeWatchEvent \<equiv> 43"
abbreviation TypeReplayCommand :: frame_type where "TypeReplayCommand \<equiv> 44"
abbreviation TypeReplayCommandOK :: frame_type where "TypeReplayCommandOK \<equiv> 45"
abbreviation TypeHandoverReq :: frame_type where "TypeHandoverReq \<equiv> 46"
abbreviation TypeWatchOK :: frame_type where "TypeWatchOK \<equiv> 47"
abbreviation TypeSetMetaJSON :: frame_type where "TypeSetMetaJSON \<equiv> 48"

definition known_types :: "(frame_type, string) gomap" where
  "known_types =
     [(TypeHello, ''HELLO''),
      (TypeHelloAck, ''HELLO_ACK''),
      (TypeError, ''ERROR''),
      (TypeSpawn, ''SPAWN''),
      (TypeSpawnOK, ''SPAWN_OK''),
      (TypeInput, ''INPUT''),
      (TypeInputEOF, ''INPUT_EOF''),
      (TypeOutput, ''OUTPUT''),
      (TypeResize, ''RESIZE''),
      (TypeKill, ''KILL''),
      (TypeList, ''LIST''),
      (TypeListOK, ''LIST_OK''),
      (TypeInfo, ''INFO''),
      (TypeInfoOK, ''INFO_OK''),
      (TypeAttach, ''ATTACH''),
      (TypeAttachOK, ''ATTACH_OK''),
      (TypeDetach, ''DETACH''),
      (TypeRename, ''RENAME''),
      (TypeSetMeta, ''SET_META''),
      (TypeTakeWrite, ''TAKE_WRITE''),
      (TypeReleaseWrite, ''RELEASE_WRITE''),
      (TypeSubEvents, ''SUBSCRIBE_EVENTS''),
      (TypeOK, ''OK''),
      (TypeEvent, ''EVENT''),
      (TypeExit, ''EXIT''),
      (TypeCommandStarted, ''COMMAND_STARTED''),
      (TypeCommandFinished, ''COMMAND_FINISHED''),
      (TypeWatch, ''WATCH''),
      (TypeWatchEvent, ''WATCH_EVENT''),
      (TypeReplayCommand, ''REPLAY_COMMAND''),
      (TypeReplayCommandOK, ''REPLAY_COMMAND_OK''),
      (TypeHandoverReq, ''HANDOVER_REQ''),
      (TypeWatchOK, ''WATCH_OK''),
      (TypeSetMetaJSON, ''SET_META_JSON'')]"

definition is_known :: "frame_type \<Rightarrow> bool" where
  "is_known t \<longleftrightarrow> mget known_types t \<noteq> None"

section \<open>Limits\<close>

definition MaxFrameLen :: nat where
  "MaxFrameLen = 2 ^ 20"

definition MaxHeaderLen :: nat where
  "MaxHeaderLen = 2 ^ 16 - 1"

definition frameOverhead :: nat where
  "frameOverhead = 3"

section \<open>itoa and String\<close>

text \<open>
  \<open>itoa\<close> fills a 20-byte array from the back: \<open>itoa_loop i v acc\<close> is the loop with \<open>i\<close>
  free cells left and \<open>acc\<close> the digits written so far; writing past the front is the
  panic \<open>None\<close>.
\<close>

definition digit_char :: "nat \<Rightarrow> char" where
  "digit_char d = char_of (48 + d)"

function itoa_loop :: "nat \<Rightarrow> nat \<Rightarrow> string \<Rightarrow> string option" where
  "itoa_loop i v acc =
     (if v > 0 then
        (if i = 0 then None
         else itoa_loop (i - 1) (v div 10) (digit_char (v mod 10) # acc))
      else Some acc)"
  by pat_completeness auto
termination
  by (relation "measure (\<lambda>(i, v, acc). v)") auto

declare itoa_loop.simps [simp del]

definition itoa :: "u64 \<Rightarrow> string option" where
  "itoa v = (if v = 0 then Some ''0'' else itoa_loop 20 (unat v) [])"

definition frame_type_string :: "frame_type \<Rightarrow> string option" where
  "frame_type_string t =
     (case mget known_types t of
        Some n \<Rightarrow> Some n
      | None \<Rightarrow> map_option (\<lambda>s. ''UNKNOWN('' @ s @ '')'') (itoa (ucast t)))"

text \<open>Reading a decimal string back.\<close>

definition dec_value :: "string \<Rightarrow> nat" where
  "dec_value s = foldl (\<lambda>n c. 10 * n + (of_char c - 48)) 0 s"

lemma of_char_digit [simp]: "d < 10 \<Longrightarrow> of_char (digit_char d) = (48 + d :: nat)"
  by (simp add: digit_char_def)

lemma foldl_digits: "foldl (\<lambda>n c. 10 * n + f c) (a :: nat) s = a * 10 ^ length s + foldl (\<lambda>n c. 10 * n + f c) 0 s"
proof (induction s arbitrary: a)
  case (Cons c s)
  show ?case using Cons[of "10 * a + f c"] Cons[of "f c"] by (simp add: algebra_simps)
qed simp

lemma dec_value_Cons [simp]:
  "dec_value (c # s) = (of_char c - 48) * 10 ^ length s + dec_value s"
  using foldl_digits[of "\<lambda>c. of_char c - 48" "of_char c - 48" s] by (simp add: dec_value_def)

lemma dec_value_Nil [simp]: "dec_value [] = 0"
  by (simp add: dec_value_def)

lemma itoa_loop_value:
  "v < 10 ^ i \<Longrightarrow>
   \<exists>s. itoa_loop i v acc = Some s \<and> dec_value s = v * 10 ^ length acc + dec_value acc \<and>
       length s \<le> i + length acc"
proof (induction i v acc rule: itoa_loop.induct)
  case (1 i v acc)
  show ?case
  proof (cases "v = 0")
    case True
    then show ?thesis by (simp add: itoa_loop.simps)
  next
    case False
    with "1.prems" obtain k where k: "i = Suc k" by (cases i) auto
    let ?d = "digit_char (v mod 10)"
    have "v div 10 < 10 ^ k" using "1.prems" k by (simp add: less_mult_imp_div_less mult.commute)
    from "1.IH"[OF _ _ this[folded diff_Suc_1[of k, folded k]]] False k
    obtain s where s: "itoa_loop k (v div 10) (?d # acc) = Some s"
      "dec_value s = v div 10 * 10 ^ length (?d # acc) + dec_value (?d # acc)"
      "length s \<le> k + length (?d # acc)"
      by auto
    have "v div 10 * (10 * 10 ^ length acc) + v mod 10 * 10 ^ length acc = v * 10 ^ length acc"
      by (metis div_mult_mod_eq distrib_right mult.assoc)
    moreover have "itoa_loop i v acc = Some s"
      using s(1) False k by (subst itoa_loop.simps) simp
    ultimately show ?thesis
      using s(2,3) k by (simp add: add.assoc[symmetric])
  qed
qed

text \<open>\<open>itoa\<close> never runs out of its 20 digits, and the string it returns is the
  decimal representation of its argument, for every 64-bit value.\<close>

theorem itoa_correct:
  "\<exists>s. itoa v = Some s \<and> length s \<le> 20 \<and> dec_value s = unat v"
proof (cases "v = 0")
  case True
  then show ?thesis by (simp add: itoa_def)
next
  case False
  have "unat v < 10 ^ 20" using u64_bound[of v] by simp
  from itoa_loop_value[OF this, of "[]"] show ?thesis using False by (auto simp: itoa_def)
qed

text \<open>The registry assigns every value once and every name once: no two frame types
  share a wire value, and no two share a name.\<close>

theorem frame_types_distinct:
  "distinct (map fst known_types) \<and> distinct (map snd known_types)"
  by (simp add: known_types_def)

end
