(* ===== verification/Errcodes.thy ===== *)
theory Errcodes
  imports Prelude
begin

text \<open>
  The error-code registry and the error envelope of \<open>pkg/errcodes\<close>: the closed set of
  stable codes, Go error values with their wrap chains, and the code an ERROR frame carries.
\<close>

section \<open>The registry\<close>

datatype code =
    ProtocolMismatch | BadFrame | FrameTooLarge | HandshakeFirst | BadToken | ReadOnlyScope
  | SessionNotFound | SessionExited | NameTaken | SpawnFailed | InvalidName | RingGone
  | NotAttached | NoWriteLock | ReadOnlyAttach | LogDisabled | LimitExceeded | SubscriberSlow
  | DaemonUnreachable | DaemonStopping | LockHeld | VersionMismatch | InvalidID | InvalidInput
  | MetaTooLarge | MetaConflict | ReservedMetaKey | NotFound | Internal | NotImplemented
  | Unsupported

definition code_string :: "code \<Rightarrow> string" where
  "code_string c = (case c of
      ProtocolMismatch \<Rightarrow> ''E_PROTOCOL_MISMATCH''
    | BadFrame \<Rightarrow> ''E_BAD_FRAME''
    | FrameTooLarge \<Rightarrow> ''E_FRAME_TOO_LARGE''
    | HandshakeFirst \<Rightarrow> ''E_HANDSHAKE_FIRST''
    | BadToken \<Rightarrow> ''E_BAD_TOKEN''
    | ReadOnlyScope \<Rightarrow> ''E_READ_ONLY_SCOPE''
    | SessionNotFound \<Rightarrow> ''E_SESSION_NOT_FOUND''
    | SessionExited \<Rightarrow> ''E_SESSION_EXITED''
    | NameTaken \<Rightarrow> ''E_NAME_TAKEN''
    | SpawnFailed \<Rightarrow> ''E_SPAWN_FAILED''
    | InvalidName \<Rightarrow> ''E_INVALID_NAME''
    | RingGone \<Rightarrow> ''E_RING_GONE''
    | NotAttached \<Rightarrow> ''E_NOT_ATTACHED''
    | NoWriteLock \<Rightarrow> ''E_NO_WRITE_LOCK''
    | ReadOnlyAttach \<Rightarrow> ''E_READ_ONLY_ATTACH''
    | LogDisabled \<Rightarrow> ''E_LOG_DISABLED''
    | LimitExceeded \<Rightarrow> ''E_LIMIT_EXCEEDED''
    | SubscriberSlow \<Rightarrow> ''E_SUBSCRIBER_SLOW''
    | DaemonUnreachable \<Rightarrow> ''E_DAEMON_UNREACHABLE''
    | DaemonStopping \<Rightarrow> ''E_DAEMON_STOPPING''
    | LockHeld \<Rightarrow> ''E_LOCK_HELD''
    | VersionMismatch \<Rightarrow> ''E_VERSION_MISMATCH''
    | InvalidID \<Rightarrow> ''E_INVALID_ID''
    | InvalidInput \<Rightarrow> ''E_INVALID_INPUT''
    | MetaTooLarge \<Rightarrow> ''E_META_TOO_LARGE''
    | MetaConflict \<Rightarrow> ''E_META_CONFLICT''
    | ReservedMetaKey \<Rightarrow> ''E_RESERVED_META_KEY''
    | NotFound \<Rightarrow> ''E_NOT_FOUND''
    | Internal \<Rightarrow> ''E_INTERNAL''
    | NotImplemented \<Rightarrow> ''E_NOT_IMPLEMENTED''
    | Unsupported \<Rightarrow> ''E_UNSUPPORTED'')"

definition all_codes :: "code list" where
  "all_codes =
     [ProtocolMismatch, BadFrame, FrameTooLarge, HandshakeFirst, BadToken, ReadOnlyScope,
      SessionNotFound, SessionExited, NameTaken, SpawnFailed, InvalidName, RingGone, NotAttached,
      NoWriteLock, ReadOnlyAttach, LogDisabled, LimitExceeded, SubscriberSlow, DaemonUnreachable,
      DaemonStopping, LockHeld, VersionMismatch, InvalidID, InvalidInput, MetaTooLarge,
      MetaConflict, ReservedMetaKey, NotFound, Internal, NotImplemented, Unsupported]"

definition code_description :: "code \<Rightarrow> string" where
  "code_description c = (case c of
      ProtocolMismatch \<Rightarrow>
        ''client and daemon protocol major versions differ; upgrade one side''
    | BadFrame \<Rightarrow>
        ''frame failed to decode (malformed header or truncated payload)''
    | FrameTooLarge \<Rightarrow>
        ''frame exceeds the maximum allowed size''
    | HandshakeFirst \<Rightarrow>
        ''a control message arrived before HELLO completed''
    | BadToken \<Rightarrow>
        ''WS auth token missing or invalid''
    | ReadOnlyScope \<Rightarrow>
        ''token scope is read-only; control operations are refused''
    | SessionNotFound \<Rightarrow>
        ''no live or retained session with that id or name''
    | SessionExited \<Rightarrow>
        ''session process has exited; only replay and INFO are available''
    | NameTaken \<Rightarrow>
        ''another session already uses that name''
    | SpawnFailed \<Rightarrow>
        ''PTY spawn failed (command not found, permission, or resource error)''
    | InvalidName \<Rightarrow>
        ''session name contains disallowed characters or is too long''
    | RingGone \<Rightarrow>
        ''requested sinceSeq predates the ring buffer; replay is truncated''
    | NotAttached \<Rightarrow>
        ''operation requires an active ATTACH on this session''
    | NoWriteLock \<Rightarrow>
        ''INPUT requires the write lock; TAKE-WRITE first''
    | ReadOnlyAttach \<Rightarrow>
        ''this attach is read-only and can never take the write lock''
    | LogDisabled \<Rightarrow>
        ''session was spawned without a durable log''
    | LimitExceeded \<Rightarrow>
        ''daemon limit reached (max sessions or ring memory cap)''
    | SubscriberSlow \<Rightarrow>
        ''subscriber stalled beyond the deadline and was disconnected''
    | DaemonUnreachable \<Rightarrow>
        ''cannot connect to the daemon socket; is runbaypty daemon running?''
    | DaemonStopping \<Rightarrow>
        ''daemon is shutting down and refuses new work''
    | LockHeld \<Rightarrow>
        ''another runbaypty daemon already owns this socket path''
    | VersionMismatch \<Rightarrow>
        ''client and daemon binary versions differ; restart the daemon to update''
    | InvalidID \<Rightarrow>
        ''id failed format validation (expected <prefix>_<32-hex-uuidv7>)''
    | InvalidInput \<Rightarrow>
        ''input value failed validation''
    | MetaTooLarge \<Rightarrow>
        ''merged meta document exceeds the maximum allowed size''
    | MetaConflict \<Rightarrow>
        ''meta if-version check failed; another writer updated it first''
    | ReservedMetaKey \<Rightarrow>
        ''meta key uses the daemon-reserved rpty. namespace''
    | NotFound \<Rightarrow>
        ''requested entity does not exist''
    | Internal \<Rightarrow>
        ''internal error; please file a bug report''
    | NotImplemented \<Rightarrow>
        ''feature not yet implemented''
    | Unsupported \<Rightarrow>
        ''operation not supported by this transport or platform'')"

lemma all_codes_complete: "set all_codes = UNIV" and all_codes_distinct: "distinct all_codes"
proof -
  have "c \<in> set all_codes" for c by (cases c) (simp_all add: all_codes_def)
  then show "set all_codes = UNIV" by blast
  show "distinct all_codes" by (simp add: all_codes_def)
qed

lemma code_string_inject [simp]: "code_string c = code_string d \<longleftrightarrow> c = d"
proof -
  have "distinct (map code_string all_codes)" by code_simp
  then have "inj code_string" by (simp add: distinct_map all_codes_complete)
  then show ?thesis by (simp add: inj_eq)
qed

section \<open>Error values\<close>

text \<open>
  \<open>CLI\<close> is a \<open>*CLIError\<close> with its fields Code, Message, Hint, DocURL and Wrapped;
  \<open>GoErr\<close> an error of another type with no cause; \<open>Wrapf\<close> the result of
  \<open>fmt.Errorf("prefix: %w", err)\<close>.
\<close>

datatype goerr =
    CLI code string string string "goerr option"
  | GoErr string
  | Wrapf string goerr

definition doc_url_base :: string where
  "doc_url_base = ''https://github.com/thesatellite-ai/runbaypty/blob/main/docs/errors.md#''"

definition new_error :: "code \<Rightarrow> string \<Rightarrow> goerr" where
  "new_error c msg = CLI c msg [] (doc_url_base @ code_string c) None"

fun with_hint :: "goerr \<Rightarrow> string \<Rightarrow> goerr" where
  "with_hint (CLI c m h d w) hint = CLI c m hint d w"
| "with_hint e hint = e"

fun with_cause :: "goerr \<Rightarrow> goerr \<Rightarrow> goerr" where
  "with_cause (CLI c m h d w) cause = CLI c m h d (Some cause)"
| "with_cause e cause = e"

fun with_doc_url :: "goerr \<Rightarrow> string \<Rightarrow> goerr" where
  "with_doc_url (CLI c m h d w) url = CLI c m h url w"
| "with_doc_url e url = e"

fun error_string :: "goerr \<Rightarrow> string" where
  "error_string (CLI c m h d (Some w)) = ''['' @ code_string c @ ''] '' @ m @ '': '' @ error_string w"
| "error_string (CLI c m h d None) = ''['' @ code_string c @ ''] '' @ m"
| "error_string (GoErr s) = s"
| "error_string (Wrapf p e) = p @ '': '' @ error_string e"

fun unwrap :: "goerr \<Rightarrow> goerr option" where
  "unwrap (CLI c m h d w) = w"
| "unwrap (GoErr s) = None"
| "unwrap (Wrapf p e) = Some e"

text \<open>\<open>(*CLIError).Is\<close>: equality of codes, false for any other kind of target.\<close>

fun cli_is :: "goerr \<Rightarrow> goerr \<Rightarrow> bool" where
  "cli_is (CLI c m h d w) (CLI c' m' h' d' w') \<longleftrightarrow> c = c'"
| "cli_is e e' \<longleftrightarrow> False"

text \<open>\<open>errors.As(err, &cli)\<close>: the first \<open>*CLIError\<close> of the wrap chain.\<close>

fun as_cli :: "goerr \<Rightarrow> goerr option" where
  "as_cli (CLI c m h d w) = Some (CLI c m h d w)"
| "as_cli (GoErr s) = None"
| "as_cli (Wrapf p e) = as_cli e"

definition is_code :: "goerr \<Rightarrow> code \<Rightarrow> bool" where
  "is_code err code = (case as_cli err of Some (CLI c m h d w) \<Rightarrow> c = code | _ \<Rightarrow> False)"

record json_error =
  je_code :: code
  je_message :: string
  je_hint :: string
  je_doc_url :: string

fun as_json :: "goerr \<Rightarrow> json_error option" where
  "as_json (CLI c m h d w) =
     Some \<lparr>je_code = c, je_message = m, je_hint = h, je_doc_url = d\<rparr>"
| "as_json _ = None"

fun plain_error :: "goerr \<Rightarrow> string" where
  "plain_error (CLI c m h d w) =
     ''['' @ code_string c @ ''] '' @ m
     @ (case w of Some e \<Rightarrow> CHR 10 # ''  Cause: '' @ error_string e | None \<Rightarrow> [])
     @ (if h \<noteq> [] then CHR 10 # ''  Hint: '' @ h else [])
     @ (if d \<noteq> [] then CHR 10 # ''  More: '' @ d else [])"
| "plain_error e = error_string e"

section \<open>Errors of the component models\<close>

text \<open>
  The component theories keep of an error what the protocol shows of it: its code, or, for an
  error without one, the name of the step that failed. \<open>err_of\<close> is that abstraction of a
  Go error value, and \<open>wire_code\<close> the code \<open>conn.sendErr\<close> puts on the wire.
\<close>

datatype err = Coded code | OtherErr string

fun err_of :: "goerr \<Rightarrow> err" where
  "err_of e = (case as_cli e of Some (CLI c m h d w) \<Rightarrow> Coded c | _ \<Rightarrow> OtherErr (error_string e))"

definition wire_code :: "err \<Rightarrow> code" where
  "wire_code e = (case e of Coded c \<Rightarrow> c | OtherErr s \<Rightarrow> Internal)"

lemma as_cli_CLI: "as_cli e = Some x \<Longrightarrow> \<exists>c m h d w. x = CLI c m h d w"
  by (induction e) auto

lemma is_code_err_of: "is_code e c \<longleftrightarrow> err_of e = Coded c"
  by (auto simp: is_code_def split: option.splits goerr.splits)

text \<open>Every code is listed once in the registry, and no two codes share a wire string,
  so a client that matches on the string identifies the code.\<close>

theorem registry_complete:
  "distinct (map code_string all_codes) \<and> (\<forall>c. c \<in> set all_codes)"
  using all_codes_complete all_codes_distinct
  by (auto simp: distinct_map inj_on_def)

text \<open>\<open>IsCode\<close> looks at the outermost \<open>CLIError\<close> of a chain only: a coded cause of a
  coded error is not found, and plain wrappers are looked through.\<close>

theorem is_code_outermost:
  "(is_code (with_cause (new_error c m) cause) code \<longleftrightarrow> c = code) \<and>
   (is_code (Wrapf p e) code \<longleftrightarrow> is_code e code)"
  by (simp_all add: is_code_def new_error_def)

end
