(* ===== verification/Messages.thy ===== *)
theory Messages
  imports Frame Errcodes
begin

text \<open>
  The closed enums and the message structs of \<open>pkg/proto/messages.go\<close>. A JSON document
  that rides in a message (\<open>json.RawMessage\<close>) is its text; an optional field is an
  \<open>option\<close>. \<open>client_msg\<close> and \<open>server_msg\<close> are the frames of either direction with
  their headers decoded.
\<close>

section \<open>Enums\<close>

definition ProtocolVersion :: int where
  "ProtocolVersion = 1"

datatype session_state = StateStarting | StateRunning | StateExited

definition session_state_string :: "session_state \<Rightarrow> string" where
  "session_state_string s =
     (case s of StateStarting \<Rightarrow> ''starting'' | StateRunning \<Rightarrow> ''running'' | StateExited \<Rightarrow> ''exited'')"

definition session_state_values :: "session_state list" where
  "session_state_values = [StateStarting, StateRunning, StateExited]"

datatype event_type =
    EventCreated | EventExited | EventResized | EventAttached | EventDetached | EventRenamed
  | EventMetaChanged | EventActivity | EventSilence | EventBell | EventDaemonStopping
  | EventCommandStarted | EventCommandFinished

definition event_type_string :: "event_type \<Rightarrow> string" where
  "event_type_string t = (case t of
      EventCreated \<Rightarrow> ''created'' | EventExited \<Rightarrow> ''exited'' | EventResized \<Rightarrow> ''resized''
    | EventAttached \<Rightarrow> ''attached'' | EventDetached \<Rightarrow> ''detached'' | EventRenamed \<Rightarrow> ''renamed''
    | EventMetaChanged \<Rightarrow> ''meta-changed'' | EventActivity \<Rightarrow> ''activity''
    | EventSilence \<Rightarrow> ''silence'' | EventBell \<Rightarrow> ''bell'' | EventDaemonStopping \<Rightarrow> ''daemon-stopping''
    | EventCommandStarted \<Rightarrow> ''command-started'' | EventCommandFinished \<Rightarrow> ''command-finished'')"

definition event_type_values :: "event_type list" where
  "event_type_values =
     [EventCreated, EventExited, EventResized, EventAttached, EventDetached,
      EventRenamed, EventMetaChanged, EventActivity, EventSilence, EventBell,
      EventDaemonStopping, EventCommandStarted, EventCommandFinished]"

text \<open>Event data keys: the constants of the source, by their wire names.\<close>

abbreviation "DataKeyExitCode \<equiv> ''exit_code''"
abbreviation "DataKeySignal \<equiv> ''signal''"
abbreviation "DataKeyQuietMs \<equiv> ''quiet_ms''"
abbreviation "DataKeyStartSeq \<equiv> ''start_seq''"
abbreviation "DataKeyEndSeq \<equiv> ''end_seq''"
abbreviation "DataKeyClient \<equiv> ''client''"
abbreviation "DataKeyName \<equiv> ''name''"
abbreviation "DataKeyCmd \<equiv> ''cmd''"
abbreviation "DataKeyCols \<equiv> ''cols''"
abbreviation "DataKeyRows \<equiv> ''rows''"
abbreviation "DataKeyLogBroken \<equiv> ''log_broken''"
abbreviation "DataKeyMetaKeys \<equiv> ''meta_keys''"
abbreviation "DataKeyMetaVersion \<equiv> ''meta_version''"

definition data_key_values :: "string list" where
  "data_key_values =
     [DataKeyExitCode, DataKeySignal, DataKeyQuietMs, DataKeyStartSeq,
      DataKeyEndSeq, DataKeyClient, DataKeyName, DataKeyCmd, DataKeyCols,
      DataKeyRows, DataKeyLogBroken, DataKeyMetaKeys, DataKeyMetaVersion]"

abbreviation "SignalTERM \<equiv> ''TERM''"
abbreviation "SignalKILL \<equiv> ''KILL''"
abbreviation "SignalINT \<equiv> ''INT''"
abbreviation "SignalHUP \<equiv> ''HUP''"

definition signal_values :: "string list" where
  "signal_values = [SignalTERM, SignalKILL, SignalINT, SignalHUP]"

abbreviation "MetaModeMerge \<equiv> ''merge''"
abbreviation "MetaModeReplace \<equiv> ''replace''"
abbreviation "MetaModeIncr \<equiv> ''incr''"

definition meta_mode_values :: "string list" where
  "meta_mode_values = [MetaModeMerge, MetaModeReplace, MetaModeIncr]"

section \<open>Handshake\<close>

record hello =
  he_req_id :: string
  he_protocol_version :: int
  he_token :: string
  he_client_name :: string

record hello_ack =
  ha_req_id :: string
  ha_protocol_version :: int
  ha_daemon_version :: string
  ha_client_id :: string

text \<open>The message text of an error is not modelled; its code is.\<close>

record error_msg =
  em_req_id :: string
  em_code :: code

section \<open>Session control\<close>

record spawn =
  sp_req_id :: string
  sp_cmd :: string
  sp_args :: "string list"
  sp_cwd :: string
  sp_env :: "string list"
  sp_cols :: u16
  sp_rows :: u16
  sp_name :: string
  sp_meta :: "(string, string) gomap"
  sp_annotations :: string
  sp_ring_bytes :: int
  sp_log_path :: string
  sp_linger :: "bool option"

record spawn_ok =
  so_req_id :: string
  so_session_id :: string
  so_pid :: int

record input_header =
  in_req_id :: string
  in_session_id :: string

record input_eof =
  ie_req_id :: string
  ie_session_id :: string

record output_header =
  oh_session_id :: string
  oh_seq :: u64

record resize =
  rz_req_id :: string
  rz_session_id :: string
  rz_cols :: u16
  rz_rows :: u16

record kill =
  ki_req_id :: string
  ki_session_id :: string
  ki_signal :: string

record list_req =
  li_req_id :: string

record session_info =
  si_id :: string
  si_name :: string
  si_state :: session_state
  si_pid :: int
  si_cmd :: string
  si_args :: "string list"
  si_cwd :: string
  si_cols :: u16
  si_rows :: u16
  si_started_at_ms :: int
  si_exit_code :: "int option"
  si_exited_at_ms :: "int option"
  si_last_seq :: u64
  si_bytes_out :: u64
  si_bytes_in :: u64
  si_subscribers :: int
  si_write_lock_holder :: string
  si_meta :: "(string, string) gomap"
  si_annotations :: string
  si_meta_version :: u64
  si_log_path :: string
  si_fg_pid :: int
  si_fg_comm :: string

record list_ok =
  lo_req_id :: string
  lo_sessions :: "session_info list"

record info_req =
  if_req_id :: string
  if_session_id :: string

record info_ok =
  io_req_id :: string
  io_session :: session_info

record attach =
  at_req_id :: string
  at_session_id :: string
  at_since_seq :: "u64 option"
  at_read_only :: bool

record attach_ok =
  ao_req_id :: string
  ao_session_id :: string
  ao_last_seq :: u64
  ao_truncated :: bool

record detach =
  de_req_id :: string
  de_session_id :: string

record rename_req =
  rn_req_id :: string
  rn_session_id :: string
  rn_name :: string

record set_meta =
  sm_req_id :: string
  sm_session_id :: string
  sm_meta :: "(string, string) gomap"

record set_meta_json =
  sj_req_id :: string
  sj_session_id :: string
  sj_mode :: string
  sj_if_version :: "u64 option"
  sj_patch :: string

record take_write =
  tw_req_id :: string
  tw_session_id :: string

record release_write =
  rw_req_id :: string
  rw_session_id :: string

record subscribe_events =
  se_req_id :: string
  se_session_id :: string

record ok_msg =
  ok_req_id :: string

record replay_command =
  rc_req_id :: string
  rc_session_id :: string

record replay_command_ok =
  ro_req_id :: string
  ro_session_id :: string
  ro_start_seq :: u64
  ro_end_seq :: u64
  ro_truncated :: bool

record handover_req =
  hr_req_id :: string
  hr_reply_path :: string

record watch =
  wa_req_id :: string
  wa_session_id :: string
  wa_pattern :: string

record watch_ok =
  wo_req_id :: string
  wo_watch_id :: string

record watch_event =
  we_watch_id :: string
  we_session_id :: string
  we_seq :: u64
  we_match :: string

section \<open>Server pushes\<close>

record event =
  ev_type :: event_type
  ev_session_id :: string
  ev_at_ms :: int
  ev_data :: "(string, string) gomap"

record exit_msg =
  ex_session_id :: string
  ex_exit_code :: int
  ex_signal :: string

section \<open>Frames with decoded headers\<close>

datatype client_msg =
    CHello hello | CSpawn spawn | CInput input_header "byte list" | CInputEOF input_eof
  | CResize resize | CKill kill | CList list_req | CInfo info_req | CAttach attach
  | CDetach detach | CRename rename_req | CSetMeta set_meta | CSetMetaJSON set_meta_json
  | CTakeWrite take_write | CReleaseWrite release_write | CSubEvents subscribe_events
  | CReplayCommand replay_command | CHandoverReq handover_req | CWatch watch

datatype server_msg =
    SHelloAck hello_ack | SError error_msg | SSpawnOK spawn_ok | SOutput output_header "byte list"
  | SListOK list_ok | SInfoOK info_ok | SAttachOK attach_ok | SOK ok_msg | SEvent event
  | SExit exit_msg | SWatchOK watch_ok | SWatchEvent watch_event
  | SReplayCommandOK replay_command_ok "byte list"

definition client_type :: "client_msg \<Rightarrow> frame_type" where
  "client_type m = (case m of
      CHello _ \<Rightarrow> TypeHello | CSpawn _ \<Rightarrow> TypeSpawn | CInput _ _ \<Rightarrow> TypeInput
    | CInputEOF _ \<Rightarrow> TypeInputEOF | CResize _ \<Rightarrow> TypeResize | CKill _ \<Rightarrow> TypeKill
    | CList _ \<Rightarrow> TypeList | CInfo _ \<Rightarrow> TypeInfo | CAttach _ \<Rightarrow> TypeAttach
    | CDetach _ \<Rightarrow> TypeDetach | CRename _ \<Rightarrow> TypeRename | CSetMeta _ \<Rightarrow> TypeSetMeta
    | CSetMetaJSON _ \<Rightarrow> TypeSetMetaJSON | CTakeWrite _ \<Rightarrow> TypeTakeWrite
    | CReleaseWrite _ \<Rightarrow> TypeReleaseWrite | CSubEvents _ \<Rightarrow> TypeSubEvents
    | CReplayCommand _ \<Rightarrow> TypeReplayCommand | CHandoverReq _ \<Rightarrow> TypeHandoverReq
    | CWatch _ \<Rightarrow> TypeWatch)"

definition client_req_id :: "client_msg \<Rightarrow> string" where
  "client_req_id m = (case m of
      CHello h \<Rightarrow> he_req_id h | CSpawn s \<Rightarrow> sp_req_id s | CInput i _ \<Rightarrow> in_req_id i
    | CInputEOF i \<Rightarrow> ie_req_id i | CResize r \<Rightarrow> rz_req_id r | CKill k \<Rightarrow> ki_req_id k
    | CList l \<Rightarrow> li_req_id l | CInfo i \<Rightarrow> if_req_id i | CAttach a \<Rightarrow> at_req_id a
    | CDetach d \<Rightarrow> de_req_id d | CRename r \<Rightarrow> rn_req_id r | CSetMeta s \<Rightarrow> sm_req_id s
    | CSetMetaJSON s \<Rightarrow> sj_req_id s | CTakeWrite t \<Rightarrow> tw_req_id t
    | CReleaseWrite r \<Rightarrow> rw_req_id r | CSubEvents s \<Rightarrow> se_req_id s
    | CReplayCommand r \<Rightarrow> rc_req_id r | CHandoverReq h \<Rightarrow> hr_req_id h | CWatch w \<Rightarrow> wa_req_id w)"

section \<open>The enums are closed and their wire names distinct\<close>

text \<open>The canonical lists enumerate the closed wire enums completely: every session state
  and every event type occurs in its list, and no two values of an enum share a wire name.\<close>

theorem wire_enums_closed:
  "(\<forall>s. s \<in> set session_state_values) \<and> distinct (map session_state_string session_state_values) \<and>
   (\<forall>t. t \<in> set event_type_values) \<and> distinct (map event_type_string event_type_values) \<and>
   distinct data_key_values \<and> distinct signal_values"
proof (intro conjI allI)
  show "s \<in> set session_state_values" for s
    by (cases s) (simp_all add: session_state_values_def)
  show "t \<in> set event_type_values" for t
    by (cases t) (simp_all add: event_type_values_def)
qed (simp_all add: session_state_values_def session_state_string_def event_type_values_def
      event_type_string_def data_key_values_def signal_values_def)

end
