(* ===== verification/Machine.thy ===== *)
theory Machine
  imports Prelude
begin

text \<open>
  The interface of a component that is a state and a set of atomic operations: an invariant
  that every operation keeps. Runs of operations, their reachable states and the lifting of
  the invariant to them are proved once here; the component theories interpret it.
\<close>

locale machine =
  fixes step :: "'s \<Rightarrow> 'op \<Rightarrow> 's"
    and inv :: "'s \<Rightarrow> bool"
  assumes inv_step: "inv s \<Longrightarrow> inv (step s x)"
begin

lemma inv_run: "inv s \<Longrightarrow> inv (foldl step s xs)"
  by (induction xs arbitrary: s) (simp_all add: inv_step)

lemma inv_prefix: "inv s \<Longrightarrow> prefix ys xs \<Longrightarrow> inv (foldl step s ys)"
  by (rule inv_run)

end

text \<open>A quantity that no operation decreases along a run, in any preorder.\<close>

locale monotone_machine = machine step inv
  for step :: "'s \<Rightarrow> 'op \<Rightarrow> 's" and inv :: "'s \<Rightarrow> bool" +
  fixes measured :: "'s \<Rightarrow> 'm :: preorder"
  assumes mono_step: "inv s \<Longrightarrow> measured s \<le> measured (step s x)"
begin

lemma mono_run: "inv s \<Longrightarrow> measured s \<le> measured (foldl step s xs)"
proof (induction xs arbitrary: s)
  case (Cons x xs)
  then have "measured (step s x) \<le> measured (foldl step (step s x) xs)"
    by (simp add: inv_step)
  with mono_step[OF Cons.prems, of x] show ?case by (auto intro: order_trans)
qed simp

end

end
