(* ===== verification/Events.thy ===== *)
theory Events
  imports Messages Machine
begin

text \<open>
  The event bus of \<open>pkg/host/events.go\<close>. A subscriber's channel is a bounded queue:
  \<open>Emit\<close> never blocks, it counts a drop instead. Each operation runs under the bus mutex
  and is one step.
\<close>

section \<open>The bus\<close>

definition eventBufSize :: nat where
  "eventBufSize = 256"

record event_sub =
  es_queue :: "event list"
  es_filter :: string
  es_dropped :: u64

record event_bus =
  eb_next_id :: nat
  eb_subs :: "(nat, event_sub) gomap"

definition new_event_bus :: event_bus where
  "new_event_bus = \<lparr>eb_next_id = 0, eb_subs = []\<rparr>"

definition bus_subscribe :: "event_bus \<Rightarrow> string \<Rightarrow> nat \<times> event_bus" where
  "bus_subscribe b filt =
     (let n = Suc (eb_next_id b);
          sub = \<lparr>es_queue = [], es_filter = filt, es_dropped = 0\<rparr>
      in (n, b\<lparr>eb_next_id := n, eb_subs := mput n sub (eb_subs b)\<rparr>))"

definition bus_unsubscribe :: "event_bus \<Rightarrow> nat \<Rightarrow> event_bus" where
  "bus_unsubscribe b i =
     (case mget (eb_subs b) i of
        Some sub \<Rightarrow> b\<lparr>eb_subs := mdel i (eb_subs b)\<rparr>
      | None \<Rightarrow> b)"

definition bus_dropped :: "event_bus \<Rightarrow> nat \<Rightarrow> u64" where
  "bus_dropped b i = (case mget (eb_subs b) i of Some sub \<Rightarrow> es_dropped sub | None \<Rightarrow> 0)"

definition deliver_event :: "event \<Rightarrow> event_sub \<Rightarrow> event_sub" where
  "deliver_event ev sub =
     (if es_filter sub \<noteq> [] \<and> es_filter sub \<noteq> ev_session_id ev then sub
      else if length (es_queue sub) < eventBufSize
      then sub\<lparr>es_queue := es_queue sub @ [ev]\<rparr>
      else sub\<lparr>es_dropped := es_dropped sub + 1\<rparr>)"

definition bus_emit :: "event_bus \<Rightarrow> event \<Rightarrow> event_bus" where
  "bus_emit b ev = b\<lparr>eb_subs := map (\<lambda>(i, sub). (i, deliver_event ev sub)) (eb_subs b)\<rparr>"

text \<open>\<open>EmitSession\<close> stamps the event with the current time.\<close>

definition session_event :: "event_type \<Rightarrow> string \<Rightarrow> int \<Rightarrow> (string, string) gomap \<Rightarrow> event" where
  "session_event t sid nowMs data =
     \<lparr>ev_type = t, ev_session_id = sid, ev_at_ms = nowMs, ev_data = data\<rparr>"

definition bus_emit_session ::
  "event_bus \<Rightarrow> int \<Rightarrow> event_type \<Rightarrow> string \<Rightarrow> (string, string) gomap \<Rightarrow> event_bus" where
  "bus_emit_session b nowMs t sid data = bus_emit b (session_event t sid nowMs data)"

definition exited_data :: "int \<Rightarrow> string \<Rightarrow> (string, string) gomap" where
  "exited_data exitCode sig =
     (let data = [(DataKeyExitCode, int_string exitCode)]
      in if sig \<noteq> [] then mput DataKeySignal sig data else data)"

definition bus_emit_exited :: "event_bus \<Rightarrow> int \<Rightarrow> string \<Rightarrow> int \<Rightarrow> string \<Rightarrow> event_bus" where
  "bus_emit_exited b nowMs sid exitCode sig =
     bus_emit_session b nowMs EventExited sid (exited_data exitCode sig)"

text \<open>The receiving side of a subscriber's channel: \<open>None\<close> when there is nothing to take.\<close>

definition bus_receive :: "event_bus \<Rightarrow> nat \<Rightarrow> event option \<times> event_bus" where
  "bus_receive b i =
     (case mget (eb_subs b) i of
        Some sub \<Rightarrow>
          (case es_queue sub of
             [] \<Rightarrow> (None, b)
           | ev # q \<Rightarrow> (Some ev, b\<lparr>eb_subs := mput i (sub\<lparr>es_queue := q\<rparr>) (eb_subs b)\<rparr>))
      | None \<Rightarrow> (None, b))"

section \<open>Invariant and behaviour\<close>

definition bus_wf :: "event_bus \<Rightarrow> bool" where
  "bus_wf b \<longleftrightarrow> mwf (eb_subs b) \<and>
     (\<forall>(i, sub) \<in> set (eb_subs b). i \<le> eb_next_id b \<and> length (es_queue sub) \<le> eventBufSize)"

lemma mget_map_vals: "mget (map (\<lambda>(i, x). (i, f x)) m) j = map_option f (mget m j)"
  unfolding mget_def by (induction m) auto

lemma mget_emit: "mget (eb_subs (bus_emit b ev)) j = map_option (deliver_event ev) (mget (eb_subs b) j)"
  by (simp add: bus_emit_def mget_map_vals)

lemma bus_wf_new [simp]: "bus_wf new_event_bus"
  by (simp add: bus_wf_def new_event_bus_def)

lemma bus_wf_subscribe: "bus_wf b \<Longrightarrow> bus_wf (snd (bus_subscribe b filt))"
  by (auto simp: bus_wf_def bus_subscribe_def Let_def dest!: set_mput)

lemma bus_wf_unsubscribe: "bus_wf b \<Longrightarrow> bus_wf (bus_unsubscribe b i)"
  by (auto simp: bus_wf_def bus_unsubscribe_def split: option.splits dest: set_mdel)

lemma deliver_event_bound:
  "length (es_queue sub) \<le> eventBufSize \<Longrightarrow> length (es_queue (deliver_event ev sub)) \<le> eventBufSize"
  by (auto simp: deliver_event_def)

lemma bus_wf_emit: "bus_wf b \<Longrightarrow> bus_wf (bus_emit b ev)"
  by (auto simp: bus_wf_def bus_emit_def mwf_def comp_def case_prod_beta intro!: deliver_event_bound)

lemma bus_wf_receive: "bus_wf b \<Longrightarrow> bus_wf (snd (bus_receive b i))"
  by (auto simp: bus_wf_def bus_receive_def split: option.splits list.splits
      dest!: set_mput dest: mget_SomeD) (fastforce dest: mget_SomeD)+

lemma bus_fresh: "bus_wf b \<Longrightarrow> mget (eb_subs b) (Suc (eb_next_id b)) = None"
  by (fastforce simp: bus_wf_def mget_None_iff)

text \<open>\<open>Emit\<close> never blocks and never loses what was queued: for every subscriber that the
  event matches it either appends the event or, when 256 events are waiting, leaves the queue
  as it is and counts one drop. The event that is lost is the newest one.\<close>

theorem emit_nonblocking:
  assumes "mget (eb_subs b) i = Some sub" "es_filter sub = [] \<or> es_filter sub = ev_session_id ev"
  shows "\<exists>sub'. mget (eb_subs (bus_emit b ev)) i = Some sub' \<and>
    (if length (es_queue sub) < eventBufSize
     then es_queue sub' = es_queue sub @ [ev] \<and> es_dropped sub' = es_dropped sub
     else es_queue sub' = es_queue sub \<and> es_dropped sub' = es_dropped sub + 1)"
  using assms by (auto simp: mget_emit deliver_event_def)

theorem emit_nonblocking_witness:
  "\<exists>sub'. mget (eb_subs (bus_emit (snd (bus_subscribe new_event_bus ''s''))
      (session_event EventBell ''s'' 7 []))) 1 = Some sub' \<and>
     es_queue sub' = [session_event EventBell ''s'' 7 []]"
proof -
  let ?b = "snd (bus_subscribe new_event_bus ''s'')"
  let ?sub = "\<lparr>es_queue = [], es_filter = ''s'', es_dropped = 0\<rparr>"
  have "mget (eb_subs ?b) 1 = Some ?sub"
    by (simp add: bus_subscribe_def new_event_bus_def Let_def)
  from emit_nonblocking[OF this, of "session_event EventBell ''s'' 7 []"] show ?thesis
    by (auto simp: session_event_def eventBufSize_def)
qed

text \<open>The operations of the bus as a machine.\<close>

datatype bus_op = BSubscribe string | BUnsubscribe nat | BEmit event | BReceive nat

fun bus_step :: "event_bus \<Rightarrow> bus_op \<Rightarrow> event_bus" where
  "bus_step b (BSubscribe f) = snd (bus_subscribe b f)"
| "bus_step b (BUnsubscribe i) = bus_unsubscribe b i"
| "bus_step b (BEmit ev) = bus_emit b ev"
| "bus_step b (BReceive i) = snd (bus_receive b i)"

lemma bus_next_mono: "eb_next_id b \<le> eb_next_id (bus_step b x)"
  by (cases x) (auto simp: bus_subscribe_def bus_unsubscribe_def bus_emit_def bus_receive_def Let_def
      split: option.splits list.splits)

interpretation bus: monotone_machine bus_step bus_wf eb_next_id
proof unfold_locales
  show "bus_wf (bus_step b x)" if "bus_wf b" for b x
    using that by (cases x) (simp_all add: bus_wf_subscribe bus_wf_unsubscribe bus_wf_emit bus_wf_receive)
qed (rule bus_next_mono)

text \<open>From a new bus, any interleaving of subscribes, unsubscribes, emits and receives
  keeps every channel within its 256 slots and the subscriber ids distinct, and the id the
  next subscribe returns is larger than every id in use.\<close>

theorem bus_invariant:
  "mwf (eb_subs (foldl bus_step new_event_bus ops)) \<and>
   (case mget (eb_subs (foldl bus_step new_event_bus ops)) i of
      Some sub \<Rightarrow> length (es_queue sub) \<le> 256 \<and> i < fst (bus_subscribe (foldl bus_step new_event_bus ops) filt)
    | None \<Rightarrow> True)"
  using bus.inv_run[OF bus_wf_new, of ops]
  by (auto simp: bus_wf_def eventBufSize_def bus_subscribe_def Let_def less_Suc_eq_le split: option.splits
      dest!: mget_SomeD)

end
