(* ===== verification/Monitor.thy ===== *)
theory Monitor
  imports Events
begin

text \<open>
  The per-session monitor of \<open>pkg/host/monitor.go\<close>: the activity edge, the silence event,
  bells, and the OSC 133 command marks. Times and durations are nanoseconds. \<open>Feed\<close> and
  \<open>Tick\<close> return the events they emit, in order; \<open>monitor_publish\<close> sends them to the bus.
\<close>

section \<open>State\<close>

datatype osc_state = OscGround | OscEsc | OscInOSC | OscInOSCEsc

record monitor =
  mo_session_id :: string
  mo_silence_after :: int
  mo_last_output :: int
  mo_silence_emitted :: bool
  mo_started :: bool
  mo_osc :: osc_state
  mo_osc_buf :: "byte list"
  mo_stream_pos :: u64
  mo_cmd_start_seq :: u64
  mo_cmd_running :: bool
  mo_last_cmd_start :: u64
  mo_last_cmd_end :: u64

type_synonym mon_event = "event_type \<times> (string, string) gomap"

definition DefaultSilenceAfter :: int where
  "DefaultSilenceAfter = 5 * 1000000000"

definition oscCaptureMax :: nat where
  "oscCaptureMax = 64"

definition new_monitor :: "string \<Rightarrow> int \<Rightarrow> monitor" where
  "new_monitor sid silenceAfter =
     \<lparr>mo_session_id = sid,
      mo_silence_after = (if silenceAfter \<le> 0 then DefaultSilenceAfter else silenceAfter),
      mo_last_output = 0, mo_silence_emitted = False, mo_started = False,
      mo_osc = OscGround, mo_osc_buf = [], mo_stream_pos = 0,
      mo_cmd_start_seq = 0, mo_cmd_running = False, mo_last_cmd_start = 0, mo_last_cmd_end = 0\<rparr>"

definition set_stream_pos :: "monitor \<Rightarrow> u64 \<Rightarrow> int \<Rightarrow> monitor" where
  "set_stream_pos m pos now = m\<lparr>mo_stream_pos := pos, mo_last_output := now, mo_started := True\<rparr>"

section \<open>Operations\<close>

text \<open>\<open>Duration.Milliseconds\<close> of a non-negative duration.\<close>

definition quiet_data :: "int \<Rightarrow> (string, string) gomap" where
  "quiet_data quiet = [(DataKeyQuietMs, int_string (quiet div 1000000))]"

definition osc133_prefix :: "byte list" where
  "osc133_prefix = [0x31, 0x33, 0x33, 0x3b]"

definition bytes_string :: "byte list \<Rightarrow> string" where
  "bytes_string bs = map (\<lambda>b. char_of (unat b)) bs"

text \<open>
  The exit code of a \<open>D\<close> mark: the field between the first and the second semicolon of the
  payload's rest, empty when there is no semicolon.
\<close>

definition mark_exit_code :: "byte list \<Rightarrow> byte list" where
  "mark_exit_code rest =
     (case dropWhile (\<lambda>b. b \<noteq> 0x3b) rest of [] \<Rightarrow> [] | _ # flds \<Rightarrow> takeWhile (\<lambda>b. b \<noteq> 0x3b) flds)"

definition finish_osc :: "monitor \<Rightarrow> u64 \<Rightarrow> monitor \<times> mon_event list" where
  "finish_osc m endSeq =
     (let payload = mo_osc_buf m; m = m\<lparr>mo_osc_buf := []\<rparr>
      in if take 4 payload \<noteq> osc133_prefix then (m, [])
         else (case drop 4 payload of
             [] \<Rightarrow> (m, [])
           | kind # flds \<Rightarrow>
               if kind = 0x43 then
                 (m\<lparr>mo_cmd_start_seq := endSeq, mo_cmd_running := True\<rparr>,
                  [(EventCommandStarted, [(DataKeyStartSeq, u64_string endSeq)])])
               else if kind = 0x44 then
                 (let exitCode = mark_exit_code (kind # flds);
                      data = [(DataKeyStartSeq, u64_string (mo_cmd_start_seq m)), (DataKeyEndSeq, u64_string endSeq)]
                  in (m\<lparr>mo_cmd_running := False, mo_last_cmd_start := mo_cmd_start_seq m,
                        mo_last_cmd_end := endSeq\<rparr>,
                      [(EventCommandFinished,
                        if exitCode \<noteq> [] then mput DataKeyExitCode (bytes_string exitCode) data else data)]))
               else (m, [])))"

text \<open>One byte of the scan; \<open>endSeq\<close> is the stream position just after it.\<close>

definition scan_byte :: "monitor \<Rightarrow> u64 \<Rightarrow> byte \<Rightarrow> monitor \<times> mon_event list" where
  "scan_byte m endSeq b =
     (case mo_osc m of
        OscGround \<Rightarrow>
          if b = 0x1b then (m\<lparr>mo_osc := OscEsc\<rparr>, [])
          else if b = 0x07 then (m, [(EventBell, [])])
          else (m, [])
      | OscEsc \<Rightarrow>
          if b = 0x5d then (m\<lparr>mo_osc := OscInOSC, mo_osc_buf := []\<rparr>, [])
          else (m\<lparr>mo_osc := OscGround\<rparr>, [])
      | OscInOSC \<Rightarrow>
          if b = 0x07 then finish_osc (m\<lparr>mo_osc := OscGround\<rparr>) endSeq
          else if b = 0x1b then (m\<lparr>mo_osc := OscInOSCEsc\<rparr>, [])
          else if length (mo_osc_buf m) < oscCaptureMax then (m\<lparr>mo_osc_buf := mo_osc_buf m @ [b]\<rparr>, [])
          else (m, [])
      | OscInOSCEsc \<Rightarrow>
          if b = 0x5c then finish_osc (m\<lparr>mo_osc := OscGround\<rparr>) endSeq
          else (m\<lparr>mo_osc := OscInOSC\<rparr>, []))"

text \<open>The \<open>for i, b := range p\<close> loop, from index \<open>i\<close>.\<close>

fun scan_bytes :: "monitor \<Rightarrow> nat \<Rightarrow> byte list \<Rightarrow> monitor \<times> mon_event list" where
  "scan_bytes m i [] = (m, [])"
| "scan_bytes m i (b # bs) =
     (let (m1, e1) = scan_byte m (mo_stream_pos m + of_nat i + 1) b;
          (m2, e2) = scan_bytes m1 (Suc i) bs
      in (m2, e1 @ e2))"

definition feed_activity :: "monitor \<Rightarrow> int \<Rightarrow> mon_event list" where
  "feed_activity m now =
     (if mo_started m \<and> mo_silence_after m \<le> now - mo_last_output m
      then [(EventActivity, quiet_data (now - mo_last_output m))] else [])"

definition feed :: "monitor \<Rightarrow> byte list \<Rightarrow> int \<Rightarrow> monitor \<times> mon_event list" where
  "feed m p now =
     (let activity = feed_activity m now;
          m1 = m\<lparr>mo_started := True, mo_last_output := now, mo_silence_emitted := False\<rparr>;
          (m2, scanned) = scan_bytes m1 0 p
      in (m2\<lparr>mo_stream_pos := mo_stream_pos m2 + of_nat (length p)\<rparr>, activity @ scanned))"

definition tick :: "monitor \<Rightarrow> int \<Rightarrow> monitor \<times> mon_event list" where
  "tick m now =
     (if \<not> mo_started m \<or> mo_silence_emitted m then (m, [])
      else (let quiet = now - mo_last_output m
        in if mo_silence_after m \<le> quiet
           then (m\<lparr>mo_silence_emitted := True\<rparr>, [(EventSilence, quiet_data quiet)])
           else (m, [])))"

definition last_command :: "monitor \<Rightarrow> u64 \<times> u64 \<times> bool" where
  "last_command m = (mo_last_cmd_start m, mo_last_cmd_end m, mo_last_cmd_end m \<noteq> 0)"

definition monitor_publish :: "event_bus \<Rightarrow> int \<Rightarrow> monitor \<Rightarrow> mon_event list \<Rightarrow> event_bus" where
  "monitor_publish b nowMs m evs =
     foldl (\<lambda>b (t, data). bus_emit_session b nowMs t (mo_session_id m) data) b evs"

text \<open>A sequence of chunks read from the PTY, each with its time.\<close>

fun feeds :: "monitor \<Rightarrow> (byte list \<times> int) list \<Rightarrow> monitor \<times> mon_event list" where
  "feeds m [] = (m, [])"
| "feeds m ((p, now) # cs) =
     (let (m1, e1) = feed m p now; (m2, e2) = feeds m1 cs in (m2, e1 @ e2))"

fun ticks :: "monitor \<Rightarrow> int list \<Rightarrow> monitor \<times> mon_event list" where
  "ticks m [] = (m, [])"
| "ticks m (t # ts) = (let (m1, e1) = tick m t; (m2, e2) = ticks m1 ts in (m2, e1 @ e2))"

section \<open>The scan does not depend on how the stream is cut\<close>

text \<open>
  The part of the state that the scan reads and writes, and the scan over it. The timing
  fields never influence it.
\<close>

definition scan_view :: "monitor \<Rightarrow> osc_state \<times> byte list \<times> u64 \<times> bool \<times> u64 \<times> u64" where
  "scan_view m = (mo_osc m, mo_osc_buf m, mo_cmd_start_seq m, mo_cmd_running m,
     mo_last_cmd_start m, mo_last_cmd_end m)"

definition timing_view :: "monitor \<Rightarrow> string \<times> int \<times> int \<times> bool \<times> bool" where
  "timing_view m = (mo_session_id m, mo_silence_after m, mo_last_output m, mo_silence_emitted m, mo_started m)"

lemma monitor_eqI:
  "scan_view m = scan_view m' \<Longrightarrow> timing_view m = timing_view m' \<Longrightarrow>
   mo_stream_pos m = mo_stream_pos m' \<Longrightarrow> m = (m' :: monitor)"
  by (simp add: scan_view_def timing_view_def)

lemma finish_osc_frame:
  "timing_view (fst (finish_osc m e)) = timing_view m \<and> mo_stream_pos (fst (finish_osc m e)) = mo_stream_pos m"
  by (auto simp: finish_osc_def timing_view_def Let_def split: list.split)

lemma scan_byte_frame [simp]:
  "timing_view (fst (scan_byte m e b)) = timing_view m"
  "mo_stream_pos (fst (scan_byte m e b)) = mo_stream_pos m"
  using finish_osc_frame[of "m\<lparr>mo_osc := OscGround\<rparr>" e]
  by (auto simp: scan_byte_def timing_view_def split: osc_state.split)

lemma scan_bytes_frame [simp]:
  "timing_view (fst (scan_bytes m i bs)) = timing_view m"
  "mo_stream_pos (fst (scan_bytes m i bs)) = mo_stream_pos m"
  by (induction bs arbitrary: m i) (simp_all add: split_beta Let_def)

lemma finish_osc_view:
  "scan_view m = scan_view m' \<Longrightarrow>
   scan_view (fst (finish_osc m e)) = scan_view (fst (finish_osc m' e)) \<and>
   snd (finish_osc m e) = snd (finish_osc m' e)"
  by (auto simp: finish_osc_def scan_view_def Let_def split: list.split)

lemma scan_byte_view:
  assumes "scan_view m = scan_view m'"
  shows "scan_view (fst (scan_byte m e b)) = scan_view (fst (scan_byte m' e b)) \<and>
    snd (scan_byte m e b) = snd (scan_byte m' e b)"
proof -
  have "scan_view (m\<lparr>mo_osc := OscGround\<rparr>) = scan_view (m'\<lparr>mo_osc := OscGround\<rparr>)"
    using assms by (simp add: scan_view_def)
  from finish_osc_view[OF this, of e] assms show ?thesis
    by (auto simp: scan_byte_def scan_view_def split: osc_state.split)
qed

lemma scan_bytes_view:
  assumes "scan_view m = scan_view m'" "mo_stream_pos m + of_nat i = mo_stream_pos m' + of_nat i'"
  shows "scan_view (fst (scan_bytes m i bs)) = scan_view (fst (scan_bytes m' i' bs)) \<and>
    snd (scan_bytes m i bs) = snd (scan_bytes m' i' bs)"
  using assms
proof (induction bs arbitrary: m m' i i')
  case (Cons b bs)
  let ?e = "mo_stream_pos m + of_nat i + 1" and ?e' = "mo_stream_pos m' + of_nat i' + 1"
  have e: "?e = ?e'" using Cons.prems(2) by simp
  from scan_byte_view[OF Cons.prems(1), of ?e b]
  have 1: "scan_view (fst (scan_byte m ?e b)) = scan_view (fst (scan_byte m' ?e' b))"
      "snd (scan_byte m ?e b) = snd (scan_byte m' ?e' b)"
    by (simp_all only: e)
  have "mo_stream_pos (fst (scan_byte m ?e b)) + of_nat (Suc i) =
      mo_stream_pos (fst (scan_byte m' ?e' b)) + of_nat (Suc i')"
    using Cons.prems(2) by (simp add: algebra_simps)
  from Cons.IH[OF 1(1) this] 1(2) show ?case by (simp add: split_beta Let_def)
qed simp

lemma scan_bytes_append:
  "scan_bytes m i (xs @ ys) =
     (let (m1, e1) = scan_bytes m i xs; (m2, e2) = scan_bytes m1 (i + length xs) ys in (m2, e1 @ e2))"
  by (induction xs arbitrary: m i) (simp_all add: split_beta Let_def)

text \<open>What \<open>Feed\<close> does, as equations on the two views.\<close>

lemma feed_view:
  "scan_view (fst (feed m p now)) = scan_view (fst (scan_bytes m 0 p))"
  "snd (feed m p now) = feed_activity m now @ snd (scan_bytes m 0 p)"
  "mo_stream_pos (fst (feed m p now)) = mo_stream_pos m + of_nat (length p)"
  "timing_view (fst (feed m p now)) = (mo_session_id m, mo_silence_after m, now, False, True)"
proof -
  let ?m = "m\<lparr>mo_started := True, mo_last_output := now, mo_silence_emitted := False\<rparr>"
  have "scan_view ?m = scan_view m" by (simp add: scan_view_def)
  moreover have "mo_stream_pos ?m + of_nat 0 = mo_stream_pos m + of_nat 0" by simp
  ultimately have 1: "scan_view (fst (scan_bytes ?m 0 p)) = scan_view (fst (scan_bytes m 0 p)) \<and>
      snd (scan_bytes ?m 0 p) = snd (scan_bytes m 0 p)" by (rule scan_bytes_view)
  have 2: "timing_view (fst (scan_bytes ?m 0 p)) = (mo_session_id m, mo_silence_after m, now, False, True)"
    by (simp only: scan_bytes_frame) (simp add: timing_view_def)
  show "scan_view (fst (feed m p now)) = scan_view (fst (scan_bytes m 0 p))"
    using 1 by (simp add: feed_def Let_def split_beta scan_view_def)
  show "snd (feed m p now) = feed_activity m now @ snd (scan_bytes m 0 p)"
    using 1 by (simp add: feed_def Let_def split_beta)
  show "mo_stream_pos (fst (feed m p now)) = mo_stream_pos m + of_nat (length p)"
    by (simp add: feed_def Let_def split_beta)
  show "timing_view (fst (feed m p now)) = (mo_session_id m, mo_silence_after m, now, False, True)"
    using 2 by (simp add: feed_def Let_def split_beta timing_view_def)
qed

lemma feed_timing [simp]:
  "mo_silence_after (fst (feed m p now)) = mo_silence_after m"
  "mo_last_output (fst (feed m p now)) = now"
  "mo_started (fst (feed m p now))"
  "\<not> mo_silence_emitted (fst (feed m p now))"
  "mo_session_id (fst (feed m p now)) = mo_session_id m"
  using feed_view(4)[of m p now] by (simp_all add: timing_view_def)

lemma scan_bytes_resume:
  assumes "scan_view m1 = scan_view (fst (scan_bytes m 0 p))"
    "mo_stream_pos m1 = mo_stream_pos m + of_nat (length p)"
  shows "scan_view (fst (scan_bytes m1 0 q)) = scan_view (fst (scan_bytes m 0 (p @ q))) \<and>
    snd (scan_bytes m 0 (p @ q)) = snd (scan_bytes m 0 p) @ snd (scan_bytes m1 0 q)"
proof -
  have "mo_stream_pos m1 + of_nat 0 = mo_stream_pos (fst (scan_bytes m 0 p)) + of_nat (0 + length p)"
    using assms(2) by simp
  from scan_bytes_view[OF assms(1) this, of q] show ?thesis
    by (simp add: scan_bytes_append Let_def split_beta)
qed

text \<open>C34. Sequences split across reads do not confuse the scanner: feeding a chunk in two
  pieces at the same time leaves the monitor in the same state and emits the same events in
  the same order as feeding it whole, wherever it is cut.\<close>

theorem feed_split:
  assumes "0 < mo_silence_after m"
  shows "feed m (p @ q) now =
    (let (m1, e1) = feed m p now; (m2, e2) = feed m1 q now in (m2, e1 @ e2))"
proof -
  let ?m1 = "fst (feed m p now)"
  note resume = scan_bytes_resume[OF feed_view(1, 3), of m p now q]
  have "feed_activity ?m1 now = []" using assms by (simp add: feed_activity_def)
  then have "snd (feed m (p @ q) now) = snd (feed m p now) @ snd (feed ?m1 q now)"
    using resume by (simp add: feed_view(2))
  moreover have "fst (feed m (p @ q) now) = fst (feed ?m1 q now)"
    using resume by (intro monitor_eqI) (simp_all add: feed_view(1, 3, 4) add.assoc)
  ultimately show ?thesis by (simp add: Let_def split_beta prod_eq_iff)
qed

theorem feed_split_witness:
  "feed (new_monitor ''s'' 1) ([0x1b, 0x5d] @ [0x07, 0x07]) 3 =
    (let (m1, e1) = feed (new_monitor ''s'' 1) [0x1b, 0x5d] 3; (m2, e2) = feed m1 [0x07, 0x07] 3 in (m2, e1 @ e2))
   \<and> snd (feed (new_monitor ''s'' 1) ([0x1b, 0x5d] @ [0x07, 0x07]) 3) = [(EventBell, [])]"
proof -
  have "0 < mo_silence_after (new_monitor ''s'' 1)" by (simp add: new_monitor_def)
  from feed_split[OF this] show ?thesis
    by (simp add: feed_def scan_byte_def finish_osc_def feed_activity_def new_monitor_def osc133_prefix_def)
qed

section \<open>Command windows\<close>

lemma feeds_scan:
  "scan_view (fst (feeds m cs)) = scan_view (fst (scan_bytes m 0 (concat (map fst cs)))) \<and>
   mo_stream_pos (fst (feeds m cs)) = mo_stream_pos m + of_nat (length (concat (map fst cs)))"
proof (induction cs arbitrary: m)
  case (Cons c cs)
  obtain p now where c: "c = (p, now)" by (cases c)
  let ?m1 = "fst (feed m p now)"
  note resume = scan_bytes_resume[OF feed_view(1, 3), of m p now "concat (map fst cs)"]
  show ?case
    using Cons.IH[of ?m1] resume
    by (simp add: c Let_def split_beta feed_view(3) add.assoc)
qed simp

lemma scan_text:
  assumes "0x1b \<notin> set out" "mo_osc m = OscGround"
  shows "fst (scan_bytes m i out) = m"
  using assms by (induction out arbitrary: i) (auto simp: scan_byte_def Let_def split_beta)

lemma scan_payload:
  assumes "0x1b \<notin> set p" "0x07 \<notin> set p" "mo_osc m = OscInOSC" "length (mo_osc_buf m) + length p \<le> oscCaptureMax"
  shows "scan_bytes m i p = (m\<lparr>mo_osc_buf := mo_osc_buf m @ p\<rparr>, [])"
  using assms by (induction p arbitrary: i m) (auto simp: scan_byte_def Let_def split_beta)

definition osc :: "byte list \<Rightarrow> byte list" where
  "osc payload = [0x1b, 0x5d] @ payload @ [0x07]"

lemma scan_osc:
  assumes "0x1b \<notin> set p" "0x07 \<notin> set p" "mo_osc m = OscGround" "length p \<le> oscCaptureMax"
  shows "scan_bytes m i (osc p) =
    finish_osc (m\<lparr>mo_osc_buf := p\<rparr>) (mo_stream_pos m + of_nat (i + length (osc p)))"
proof -
  have s: "scan_bytes (m\<lparr>mo_osc := OscInOSC, mo_osc_buf := []\<rparr>) j p =
      (m\<lparr>mo_osc := OscInOSC, mo_osc_buf := p\<rparr>, [])" for j
    using scan_payload[of p "m\<lparr>mo_osc := OscInOSC, mo_osc_buf := []\<rparr>" j] assms by simp
  have "m\<lparr>mo_osc_buf := p, mo_osc := OscGround\<rparr> = m\<lparr>mo_osc_buf := p\<rparr>"
    using assms(3) by (cases m) simp
  then have r: "finish_osc (m\<lparr>mo_osc_buf := p, mo_osc := OscGround\<rparr>) x = finish_osc (m\<lparr>mo_osc_buf := p\<rparr>) x" for x
    by simp
  show ?thesis
    using assms(3)
    by (simp add: r s osc_def scan_bytes_append scan_byte_def Let_def split_beta algebra_simps)
qed

text \<open>The command mark \<open>OSC 133 ; C\<close> and the command-finished mark with its exit code.\<close>

definition osc133_c :: "byte list" where
  "osc133_c = osc (osc133_prefix @ [0x43])"

definition osc133_d :: "byte list \<Rightarrow> byte list" where
  "osc133_d exitCode = osc (osc133_prefix @ [0x44, 0x3b] @ exitCode)"

definition exit_code_ok :: "byte list \<Rightarrow> bool" where
  "exit_code_ok c \<longleftrightarrow> c \<noteq> [] \<and> 0x1b \<notin> set c \<and> 0x07 \<notin> set c \<and> 0x3b \<notin> set c \<and> length c \<le> 58"

lemma scan_osc133_c:
  assumes "mo_osc m = OscGround"
    and "e = mo_stream_pos m + of_nat (i + length osc133_c)"
  shows "scan_bytes m i osc133_c =
    (m\<lparr>mo_osc_buf := [], mo_cmd_start_seq := e, mo_cmd_running := True\<rparr>,
     [(EventCommandStarted, [(DataKeyStartSeq, u64_string e)])])"
  unfolding assms(2) osc133_c_def
  by (subst scan_osc) (use assms(1) in \<open>simp_all add: osc133_prefix_def oscCaptureMax_def finish_osc_def Let_def\<close>)

lemma scan_osc133_d:
  assumes "mo_osc m = OscGround" "exit_code_ok c"
    and "e = mo_stream_pos m + of_nat (i + length (osc133_d c))"
  shows "scan_bytes m i (osc133_d c) =
    (m\<lparr>mo_osc_buf := [], mo_cmd_running := False, mo_last_cmd_start := mo_cmd_start_seq m, mo_last_cmd_end := e\<rparr>,
     [(EventCommandFinished, [(DataKeyStartSeq, u64_string (mo_cmd_start_seq m)),
        (DataKeyEndSeq, u64_string e), (DataKeyExitCode, bytes_string c)])])"
proof -
  have tw: "takeWhile (\<lambda>b. b \<noteq> 0x3b) c = c"
    using assms(2) by (auto simp: exit_code_ok_def takeWhile_eq_all_conv)
  show ?thesis
    unfolding assms(3) osc133_d_def
    by (subst scan_osc) (use assms(1,2) in
      \<open>simp_all add: osc133_prefix_def oscCaptureMax_def finish_osc_def Let_def exit_code_ok_def
        mark_exit_code_def mput_def tw\<close>)
qed

text \<open>C33. Shell integration gives exact command windows: when a shell writes the OSC 133 C
  mark, any output without an escape byte, and the D mark, however the PTY reads cut that
  stream into chunks, \<open>LastCommand\<close> is the window that starts just after the C mark and
  ends just after the D mark, on the sequence axis of the ring.\<close>

theorem command_window:
  assumes "mo_osc m = OscGround" "0x1b \<notin> set out" "exit_code_ok code"
    and "concat (map fst cs) = osc133_c @ out @ osc133_d code"
    and "mo_stream_pos m + of_nat (length osc133_c + length out + length (osc133_d code)) \<noteq> 0"
  shows "last_command (fst (feeds m cs)) =
    (mo_stream_pos m + of_nat (length osc133_c),
     mo_stream_pos m + of_nat (length osc133_c + length out + length (osc133_d code)), True)"
proof -
  let ?n = "m\<lparr>mo_osc_buf := [], mo_cmd_start_seq := mo_stream_pos m + of_nat (length osc133_c),
      mo_cmd_running := True\<rparr>"
  have ground: "mo_osc ?n = OscGround" using assms(1) by simp
  have "scan_view (fst (feeds m cs)) = scan_view (fst (scan_bytes m 0 (osc133_c @ out @ osc133_d code)))"
    using feeds_scan[of m cs] assms(4) by simp
  then show ?thesis
    using assms(1,5) ground scan_text[OF assms(2) ground] scan_osc133_d[OF ground assms(3) refl]
    by (simp add: scan_bytes_append scan_osc133_c[OF assms(1) refl] Let_def split_beta last_command_def scan_view_def add.assoc)
qed

theorem command_window_witness:
  "last_command (fst (feeds (new_monitor ''s'' 1) [(osc133_c @ [0x68, 0x69], 5), (osc133_d [0x30], 9)])) = (8, 20, True)"
proof -
  have ok: "exit_code_ok [0x30]" by (simp add: exit_code_ok_def)
  have c: "length osc133_c = 8" and d: "length (osc133_d [0x30]) = 10"
    by (simp_all add: osc133_c_def osc133_d_def osc_def osc133_prefix_def)
  have g: "mo_osc (new_monitor ''s'' 1) = OscGround" "mo_stream_pos (new_monitor ''s'' 1) = 0"
    by (simp_all add: new_monitor_def)
  from command_window[OF g(1) _ ok, of "[0x68, 0x69]" "[(osc133_c @ [0x68, 0x69], 5), (osc133_d [0x30], 9)]"]
  show ?thesis by (simp add: c d g(2))
qed

section \<open>Silence and bounds\<close>

lemma ticks_emitted: "mo_silence_emitted m \<Longrightarrow> ticks m ts = (m, [])"
  by (induction ts) (simp_all add: tick_def)

text \<open>Silence is an edge: over any run of ticks without output the event is emitted at
  most once, and it is emitted exactly when the monitor has seen output, has not reported this
  quiet period yet, and some tick comes at least \<open>silenceAfter\<close> after the last output.\<close>

theorem silence_once:
  "length (snd (ticks m ts)) =
     (if mo_started m \<and> \<not> mo_silence_emitted m \<and> (\<exists>t\<in>set ts. mo_silence_after m \<le> t - mo_last_output m)
      then 1 else 0) \<and>
   (\<forall>e\<in>set (snd (ticks m ts)). fst e = EventSilence)"
proof (induction ts)
  case (Cons t ts)
  show ?case
  proof (cases "mo_started m \<and> \<not> mo_silence_emitted m \<and> mo_silence_after m \<le> t - mo_last_output m")
    case True
    then show ?thesis by (simp add: tick_def Let_def ticks_emitted)
  next
    case False
    then have "tick m t = (m, [])" by (auto simp: tick_def Let_def)
    with False Cons.IH show ?thesis by (auto simp: Let_def split_beta)
  qed
qed simp

datatype mon_op = MFeed "byte list" int | MTick int | MSetStreamPos u64 int

fun mon_step :: "monitor \<Rightarrow> mon_op \<Rightarrow> monitor" where
  "mon_step m (MFeed p now) = fst (feed m p now)"
| "mon_step m (MTick now) = fst (tick m now)"
| "mon_step m (MSetStreamPos pos now) = set_stream_pos m pos now"

definition mon_wf :: "monitor \<Rightarrow> bool" where
  "mon_wf m \<longleftrightarrow> length (mo_osc_buf m) \<le> oscCaptureMax \<and> 0 < mo_silence_after m \<and>
     (mo_silence_emitted m \<longrightarrow> mo_started m)"

lemma scan_byte_buf:
  "length (mo_osc_buf m) \<le> oscCaptureMax \<Longrightarrow> length (mo_osc_buf (fst (scan_byte m e b))) \<le> oscCaptureMax"
  by (auto simp: scan_byte_def finish_osc_def Let_def oscCaptureMax_def split: osc_state.split list.split)

lemma scan_bytes_buf:
  "length (mo_osc_buf m) \<le> oscCaptureMax \<Longrightarrow> length (mo_osc_buf (fst (scan_bytes m i bs))) \<le> oscCaptureMax"
  by (induction bs arbitrary: m i) (simp_all add: Let_def split_beta scan_byte_buf)

interpretation monitor: machine mon_step mon_wf
proof unfold_locales
  show "mon_wf (mon_step m x)" if "mon_wf m" for m x
    using that scan_bytes_buf[of m 0] feed_view(1)[of m]
    by (cases x) (auto simp: mon_wf_def tick_def set_stream_pos_def Let_def scan_view_def)
qed

lemma mon_wf_new: "mon_wf (new_monitor sid after)"
  by (simp add: mon_wf_def new_monitor_def DefaultSilenceAfter_def)

text \<open>However a session's output and the ticker interleave, the monitor buffers at most
  64 bytes of an escape sequence, keeps a positive quiet threshold, and never marks a quiet
  period as reported before the first output.\<close>

theorem monitor_bounded:
  "length (mo_osc_buf (foldl mon_step (new_monitor sid after) ops)) \<le> 64 \<and>
   0 < mo_silence_after (foldl mon_step (new_monitor sid after) ops) \<and>
   (mo_silence_emitted (foldl mon_step (new_monitor sid after) ops) \<longrightarrow>
    mo_started (foldl mon_step (new_monitor sid after) ops))"
  using monitor.inv_run[OF mon_wf_new, of sid after ops]
  unfolding mon_wf_def oscCaptureMax_def .

end
