(* ===== verification/Wire.thy ===== *)
theory Wire
  imports Prelude
begin

text \<open>
  Self-delimiting codecs: the interface that the frame codec, the takeover blobs and the
  records of the durable log share, with the facts about streams of items proved once.
\<close>

section \<open>Reading a stream item by item\<close>

text \<open>
  A reader loop that decodes items until one does not decode; the remaining bytes are what
  it could not use. The fuel bounds the number of items; a decoded item consumes at least one
  byte, so the number of bytes is enough (\<open>self_delimiting.parse_all_enough\<close>).
\<close>

fun parse_all :: "nat \<Rightarrow> ('b list \<Rightarrow> ('a \<times> 'b list) option) \<Rightarrow> 'b list \<Rightarrow> 'a list \<times> 'b list" where
  "parse_all 0 dec bs = ([], bs)"
| "parse_all (Suc n) dec bs =
     (case dec bs of
        None \<Rightarrow> ([], bs)
      | Some (x, rest) \<Rightarrow> (case parse_all n dec rest of (xs, r) \<Rightarrow> (x # xs, r)))"

locale self_delimiting =
  fixes enc :: "'a \<Rightarrow> 'b list"
    and dec :: "'b list \<Rightarrow> ('a \<times> 'b list) option"
    and ok :: "'a \<Rightarrow> bool"
  assumes dec_enc: "ok x \<Longrightarrow> dec (enc x @ rest) = Some (x, rest)"
    and enc_nonempty: "ok x \<Longrightarrow> enc x \<noteq> []"
    and dec_torn: "ok x \<Longrightarrow> strict_prefix p (enc x) \<Longrightarrow> dec p = None"
begin

abbreviation stream :: "'a list \<Rightarrow> 'b list" where
  "stream xs \<equiv> concat (map enc xs)"

lemma dec_Nil: "ok x \<Longrightarrow> dec [] = None"
  using dec_torn[of x "[]"] enc_nonempty[of x] by (cases "enc x") auto

lemma length_stream: "list_all ok xs \<Longrightarrow> length xs \<le> length (stream xs)"
proof (induction xs)
  case (Cons x xs)
  then show ?case using enc_nonempty[of x] by (cases "enc x") auto
qed simp

lemma parse_stream:
  "list_all ok xs \<Longrightarrow> parse_all (length xs + n) dec (stream xs @ rest) =
     (case parse_all n dec rest of (ys, r) \<Rightarrow> (xs @ ys, r))"
  by (induction xs) (auto simp: dec_enc split: prod.splits)

lemma enc_prefix_free: "ok x \<Longrightarrow> ok y \<Longrightarrow> prefix (enc x) (enc y) \<Longrightarrow> x = y"
proof -
  assume "ok x" "ok y" "prefix (enc x) (enc y)"
  then obtain r where "enc y = enc x @ r" by (auto simp: prefix_def)
  then show "x = y"
    using dec_enc[OF \<open>ok x\<close>, of r] dec_enc[OF \<open>ok y\<close>, of "[]"] by simp
qed

text \<open>Torn streams: cutting the bytes anywhere loses whole items at the end only.\<close>

lemma torn_stream:
  assumes "list_all ok xs" "prefix p (stream xs)"
  shows "\<exists>k \<le> length xs. \<exists>q. p = stream (take k xs) @ q \<and>
    (k < length xs \<longrightarrow> strict_prefix q (enc (xs ! k))) \<and> (k = length xs \<longrightarrow> q = [])"
  using assms
proof (induction xs arbitrary: p)
  case Nil
  then show ?case by simp
next
  case (Cons x xs)
  show ?case
  proof (cases "prefix (enc x) p")
    case True
    then obtain p' where p: "p = enc x @ p'" by (auto simp: prefix_def)
    with Cons.prems have "prefix p' (stream xs)" by simp
    from Cons.IH[OF _ this] Cons.prems obtain k q where
      "k \<le> length xs" "p' = stream (take k xs) @ q"
      "k < length xs \<longrightarrow> strict_prefix q (enc (xs ! k))" "k = length xs \<longrightarrow> q = []"
      by auto
    then show ?thesis by (intro exI[of _ "Suc k"]) (auto simp: p)
  next
    case False
    have "prefix p (enc x)" using Cons.prems(2) False prefix_same_cases[of p "stream (x # xs)" "enc x"] by auto
    with False have "strict_prefix p (enc x)" by (auto simp: strict_prefix_def)
    then show ?thesis by (intro exI[of _ 0]) auto
  qed
qed

lemma parse_torn:
  assumes "list_all ok xs" "prefix p (stream xs)" "length p \<le> n" "dec [] = None"
  shows "\<exists>k \<le> length xs. fst (parse_all n dec p) = take k xs \<and>
    (p = stream xs \<longrightarrow> k = length xs)"
proof -
  obtain k q where k: "k \<le> length xs" "p = stream (take k xs) @ q"
      "k < length xs \<longrightarrow> strict_prefix q (enc (xs ! k))" "k = length xs \<longrightarrow> q = []"
    using torn_stream[OF assms(1,2)] by blast
  have ok: "list_all ok (take k xs)" using assms(1) by (auto simp: list_all_iff dest: in_set_takeD)
  have q: "dec q = None"
    using k assms(1,4) dec_torn[of "xs ! k" q] by (cases "k = length xs") (auto simp: list_all_length)
  have "length (take k xs) \<le> n" using length_stream[OF ok] k(2) assms(3) by simp
  then obtain m where "n = length (take k xs) + m" using le_Suc_ex by blast
  moreover have "parse_all m dec q = ([], q)" using q by (cases m) auto
  ultimately have "parse_all n dec p = (take k xs, q)"
    using parse_stream[OF ok, of m q] k(2) by simp
  moreover have "k = length xs" if "p = stream xs"
  proof (rule ccontr)
    assume "k \<noteq> length xs"
    then have "k < length xs" using k(1) by simp
    then have "stream xs = stream (take k xs) @ enc (xs ! k) @ stream (drop (Suc k) xs)"
      by (metis (no_types, lifting) append_take_drop_id concat.simps(2) concat_append
          id_take_nth_drop list.simps(9) map_append)
    then have "q = enc (xs ! k) @ stream (drop (Suc k) xs)" using that k(2) by simp
    then show False using k(3) \<open>k < length xs\<close> by (auto simp: strict_prefix_def prefix_def)
  qed
  ultimately show ?thesis using k(1) by auto
qed

lemma parse_all_enough:
  assumes "list_all ok xs" "length (stream xs) \<le> n" "dec [] = None"
  shows "parse_all n dec (stream xs) = (xs, [])"
proof -
  have "length xs \<le> n" using length_stream[OF assms(1)] assms(2) by simp
  then obtain m where "n = length xs + m" using le_Suc_ex by blast
  moreover have "parse_all m dec [] = ([], [])" using assms(3) by (cases m) auto
  ultimately show ?thesis using parse_stream[OF assms(1), of m "[]"] by simp
qed

end

end
