(* ===== verification/SesLog.thy ===== *)
theory SesLog
  imports Wire Errcodes
begin

unbundle bit_operations_syntax

text \<open>
  The durable session log of \<open>pkg/host/seslog.go\<close>: its varints and records, the writer over
  Go's \<open>bufio.Writer\<close> and a file system that may accept any part of a write, and the reader.
  Times are Unix milliseconds as \<open>int64\<close>.
\<close>

section \<open>Varints\<close>

text \<open>\<open>binary.AppendUvarint\<close> and \<open>binary.ReadUvarint\<close> (at most ten bytes).\<close>

function put_uvarint :: "u64 \<Rightarrow> byte list" where
  "put_uvarint x =
     (if x < 0x80 then [ucast x] else (ucast x OR 0x80) # put_uvarint (drop_bit 7 x))"
  by auto

lemma unat_drop_bit: "unat (drop_bit n (x :: 'a :: len word)) = unat x div 2 ^ n"
  unfolding unat_drop_bit_eq by (rule drop_bit_eq_div)

termination put_uvarint
proof (relation "measure unat")
  fix x :: u64
  assume "\<not> x < 0x80"
  then have "0 < unat x" by (auto simp: word_less_nat_alt)
  then show "(drop_bit 7 x, x) \<in> measure unat" by (simp add: unat_drop_bit)
qed simp

declare put_uvarint.simps [simp del]

fun uvarint_loop :: "nat \<Rightarrow> u64 \<Rightarrow> byte list \<Rightarrow> (u64 \<times> byte list) option" where
  "uvarint_loop i x [] = None"
| "uvarint_loop i x (b # bs) =
     (if 10 \<le> i then None
      else if b < 0x80
      then (if i = 9 \<and> 1 < b then None else Some (x OR push_bit (7 * i) (ucast b), bs))
      else uvarint_loop (Suc i) (x OR push_bit (7 * i) (ucast (b AND 0x7f))) bs)"

definition get_uvarint :: "byte list \<Rightarrow> (u64 \<times> byte list) option" where
  "get_uvarint bs = uvarint_loop 0 0 bs"

lemma uvarint_loop_shorter: "uvarint_loop i x bs = Some (y, r) \<Longrightarrow> length r < length bs"
  by (induction i x bs rule: uvarint_loop.induct) (auto split: if_splits)

lemma get_uvarint_shorter: "get_uvarint bs = Some (y, r) \<Longrightarrow> length r < length bs"
  by (auto simp: get_uvarint_def dest: uvarint_loop_shorter)

lemma bit_80 [simp]: "bit (0x80 :: 'a :: len word) n \<longleftrightarrow> n = 7 \<and> n < LENGTH('a)"
proof -
  have "bit (push_bit 7 1 :: 'a word) n \<longleftrightarrow> n = 7 \<and> n < LENGTH('a)"
    by (auto simp only: bit_push_bit_iff bit_1_iff) auto
  then show ?thesis by simp
qed

lemma bit_int_128: "bit (128 :: int) n \<longleftrightarrow> n = 7"
proof -
  have "bit (push_bit 7 1 :: int) n \<longleftrightarrow> n = 7" by (auto simp only: bit_push_bit_iff bit_1_iff) auto
  then show ?thesis by simp
qed

lemma num7f: "(0x7f :: byte) = mask 7" by (simp add: mask_eq_exp_minus_1)

lemma low7: "ucast ((ucast (x :: u64) OR 0x80 :: byte) AND 0x7f) = take_bit 7 x"
  unfolding num7f by (rule bit_word_eqI) (auto simp: bit_simps bit_int_128)

lemma lt_80_bit: "(w :: byte) < 0x80 \<Longrightarrow> \<not> bit w 7"
proof -
  assume "w < 0x80"
  then have "unat (drop_bit 7 w) = 0" by (simp only: unat_drop_bit) (simp add: word_less_nat_alt)
  then have "drop_bit 7 w = 0" by (simp only: unat_eq_0)
  then show ?thesis by (simp add: bit_iff_odd_drop_bit)
qed

lemma cont_bit [simp]: "\<not> (ucast (x :: u64) OR 0x80 :: byte) < 0x80"
  using lt_80_bit[of "ucast x OR 0x80"] by (auto simp: bit_simps)

lemma split7: "take_bit 7 x OR push_bit 7 (drop_bit 7 x) = (x :: u64)"
proof (rule bit_word_eqI)
  fix n :: nat
  have "n < 7 \<or> 7 + (n - 7) = n" by arith
  then show "bit (take_bit 7 x OR push_bit 7 (drop_bit 7 x)) n = bit x n" if "n < LENGTH(64)"
    using that by (auto simp: bit_simps)
qed

lemma small_ucast:
  assumes "(x :: u64) < 0x80"
  shows "ucast (ucast x :: byte) = x" "(ucast x :: byte) < 0x80"
proof -
  have u: "unat (ucast x :: byte) = unat x"
    using assms by (simp add: word_less_nat_alt unsigned_ucast_eq unsigned_take_bit_eq take_bit_nat_eq_self)
  from assms u show "(ucast x :: byte) < 0x80" by (simp add: word_less_nat_alt)
  have "unat (ucast (ucast x :: byte) :: u64) = unat x"
    using assms u by (simp add: word_less_nat_alt unsigned_ucast_eq unsigned_take_bit_eq take_bit_nat_eq_self)
  then show "ucast (ucast x :: byte) = x" by (simp add: word_unat_eq_iff)
qed

text \<open>The loop on an encoded value, from the group of seven bits at \<open>i\<close> on.\<close>

lemma uvarint_accumulate:
  "(a OR push_bit (7 * i) (take_bit 7 y)) OR push_bit (7 * Suc i) (drop_bit 7 y) =
   a OR push_bit (7 * i) (y :: u64)"
proof -
  have "push_bit (7 * Suc i) (drop_bit 7 y) = push_bit (7 * i) (push_bit 7 (drop_bit 7 y))"
    by (simp add: push_bit_push_bit add.commute)
  then show ?thesis
    by (simp only: or.assoc push_bit_or [symmetric] split7)
qed

lemma uvarint_loop_put:
  assumes "i \<le> 9" "unat y < 2 ^ (64 - 7 * i)"
  shows "uvarint_loop i a (put_uvarint y @ rest) = Some (a OR push_bit (7 * i) y, rest)"
  using assms
proof (induction y arbitrary: i a rule: put_uvarint.induct)
  case (1 y)
  show ?case
  proof (cases "y < 0x80")
    case True
    have "\<not> (1 :: byte) < ucast y" if "i = 9"
    proof -
      have "unat y = 0 \<or> unat y = 1" using "1.prems"(2) that by simp linarith
      then have "y = 0 \<or> y = 1" by (simp add: word_unat_eq_iff)
      then show ?thesis by auto
    qed
    with True "1.prems"(1) show ?thesis
      by (subst put_uvarint.simps) (auto simp: small_ucast)
  next
    case False
    have "\<not> i = 9"
      using "1.prems"(2) False by (auto simp: word_less_nat_alt)
    then have i: "Suc i \<le> 9" using "1.prems"(1) by simp
    have "(2::nat) ^ (64 - 7 * i) = 2 ^ (64 - 7 * Suc i) * 2 ^ 7"
      unfolding power_add[symmetric] using i by (intro arg_cong[of _ _ "(^) 2"]) simp
    then have "unat (drop_bit 7 y) < 2 ^ (64 - 7 * Suc i)"
      using "1.prems"(2) by (simp only: unat_drop_bit less_mult_imp_div_less)
    from "1.IH"[OF False i this] show ?thesis
      using False i by (subst put_uvarint.simps) (simp del: mult_Suc_right add: low7 uvarint_accumulate)
  qed
qed

lemma get_put_uvarint [simp]: "get_uvarint (put_uvarint x @ rest) = Some (x, rest)"
  using uvarint_loop_put[of 0 x 0 rest] u64_bound[of x] by (simp add: get_uvarint_def)

lemma put_uvarint_nonempty [simp]: "put_uvarint x \<noteq> []"
  by (subst put_uvarint.simps) simp

lemma uvarint_loop_cont: "(\<forall>b\<in>set bs. \<not> b < 0x80) \<Longrightarrow> uvarint_loop i x bs = None"
  by (induction i x bs rule: uvarint_loop.induct) auto

lemma put_uvarint_torn:
  "strict_prefix p (put_uvarint x) \<Longrightarrow> \<forall>b\<in>set p. \<not> b < 0x80"
proof (induction x arbitrary: p rule: put_uvarint.induct)
  case (1 x)
  show ?case
  proof (cases "p = [] \<or> x < 0x80")
    case True
    with "1.prems" show ?thesis
      by (subst (asm) put_uvarint.simps) (auto simp: strict_prefix_def prefix_Cons split: if_splits)
  next
    case False
    then obtain b q where p: "p = b # q" by (cases p) auto
    from "1.prems" False have "b = ucast x OR 0x80" "strict_prefix q (put_uvarint (drop_bit 7 x))"
      by (subst (asm) put_uvarint.simps, simp add: p)+
    with "1.IH"[of q] False show ?thesis by (simp add: p)
  qed
qed

lemma get_uvarint_torn: "strict_prefix p (put_uvarint x) \<Longrightarrow> get_uvarint p = None"
  unfolding get_uvarint_def by (rule uvarint_loop_cont) (rule put_uvarint_torn)

section \<open>The file and the buffered writer\<close>

text \<open>
  \<open>os.File.Write\<close> is the environment: \<open>osw disk data\<close> is the number of bytes of \<open>data\<close> that
  it accepts when \<open>disk\<close> is the content; fewer than all is an error. \<open>bufio.Writer\<close> keeps a
  64 KiB buffer, writes large data directly when the buffer is empty, and an error sticks.
\<close>

type_synonym os_write = "byte list \<Rightarrow> byte list \<Rightarrow> nat"

record buf_writer =
  bw_disk :: "byte list"
  bw_buf :: "byte list"
  bw_failed :: bool

definition bufio_size :: nat where
  "bufio_size = 64 * 1024"

definition file_write :: "os_write \<Rightarrow> byte list \<Rightarrow> byte list \<Rightarrow> byte list \<times> nat \<times> bool" where
  "file_write osw disk p = (let n = min (osw disk p) (length p) in (disk @ take n p, n, n < length p))"

definition bufio_flush :: "os_write \<Rightarrow> buf_writer \<Rightarrow> buf_writer" where
  "bufio_flush osw w =
     (if bw_failed w \<or> bw_buf w = [] then w
      else case file_write osw (bw_disk w) (bw_buf w) of
        (disk, n, bad) \<Rightarrow> \<lparr>bw_disk = disk, bw_buf = drop n (bw_buf w), bw_failed = bad\<rparr>)"

function bufio_write :: "os_write \<Rightarrow> buf_writer \<Rightarrow> byte list \<Rightarrow> buf_writer" where
  "bufio_write osw w p =
     (if bw_failed w then w
      else if length p \<le> bufio_size - length (bw_buf w) then w\<lparr>bw_buf := bw_buf w @ p\<rparr>
      else if bw_buf w = [] then
        (case file_write osw (bw_disk w) p of
           (disk, n, bad) \<Rightarrow> bufio_write osw (w\<lparr>bw_disk := disk, bw_failed := bad\<rparr>) (drop n p))
      else (let avail = bufio_size - length (bw_buf w)
        in bufio_write osw (bufio_flush osw (w\<lparr>bw_buf := bw_buf w @ take avail p\<rparr>)) (drop avail p)))"
  by auto

termination bufio_write
proof (relation "measures [\<lambda>(osw, w, p). if bw_failed w then 0 else 1, \<lambda>(osw, w, p). length p,
    \<lambda>(osw, w, p). length (bw_buf w)]", goal_cases)
  case 1
  show ?case by simp
next
  case (2 osw w p x y n bad)
  then show ?case by (auto simp: file_write_def Let_def bufio_size_def)
next
  case (3 osw w p avail)
  then show ?case
    by (auto simp: bufio_flush_def file_write_def Let_def bufio_size_def split: prod.splits)
qed

declare bufio_write.simps [simp del]

text \<open>Everything handed to the writer, in order: what reached the file, then the buffer.\<close>

definition bw_all :: "buf_writer \<Rightarrow> byte list" where
  "bw_all w = bw_disk w @ bw_buf w"

lemma bufio_flush_all: "bw_all (bufio_flush osw w) = bw_all w"
  by (auto simp: bufio_flush_def bw_all_def file_write_def Let_def)

lemma prefix_take_append: "prefix (take n p @ q) p \<longleftrightarrow> prefix q (drop n p)"
  by (metis append_take_drop_id same_prefix_prefix)

lemma bufio_write_all:
  "\<exists>q. prefix q p \<and> bw_all (bufio_write osw w p) = bw_all w @ q \<and>
     (\<not> bw_failed (bufio_write osw w p) \<longrightarrow> q = p)"
proof (induction osw w p rule: bufio_write.induct)
  case (1 osw w p)
  consider (failed) "bw_failed w" | (fits) "\<not> bw_failed w" "length p \<le> bufio_size - length (bw_buf w)"
    | (direct) "\<not> bw_failed w" "\<not> length p \<le> bufio_size - length (bw_buf w)" "bw_buf w = []"
    | (fill) "\<not> bw_failed w" "\<not> length p \<le> bufio_size - length (bw_buf w)" "bw_buf w \<noteq> []"
    by blast
  then show ?case
  proof cases
    case failed
    then show ?thesis by (intro exI[of _ "[]"]) (subst (1 2) bufio_write.simps, simp)
  next
    case fits
    then show ?thesis by (intro exI[of _ p]) (subst (1 2) bufio_write.simps, simp add: bw_all_def)
  next
    case direct
    obtain disk n bad where fw: "file_write osw (bw_disk w) p = (disk, n, bad)" by (cases "file_write osw (bw_disk w) p")
    then have d: "disk = bw_disk w @ take n p" "n \<le> length p" by (auto simp: file_write_def Let_def)
    from "1.IH"(1)[OF direct, OF fw[symmetric] refl] obtain q where
      "prefix q (drop n p)" "bw_all (bufio_write osw (w\<lparr>bw_disk := disk, bw_failed := bad\<rparr>) (drop n p)) =
        bw_all (w\<lparr>bw_disk := disk, bw_failed := bad\<rparr>) @ q"
      "\<not> bw_failed (bufio_write osw (w\<lparr>bw_disk := disk, bw_failed := bad\<rparr>) (drop n p)) \<longrightarrow> q = drop n p"
      by auto
    with direct d fw show ?thesis
      by (intro exI[of _ "take n p @ q"]) (subst (1 2) bufio_write.simps,
        auto simp: bw_all_def prefix_take_append)
  next
    case fill
    let ?a = "bufio_size - length (bw_buf w)"
    let ?w = "bufio_flush osw (w\<lparr>bw_buf := bw_buf w @ take ?a p\<rparr>)"
    have all: "bw_all ?w = bw_all w @ take ?a p"
      by (simp add: bufio_flush_all) (simp add: bw_all_def)
    from "1.IH"(2)[OF fill refl] obtain q where
      "prefix q (drop ?a p)" "bw_all (bufio_write osw ?w (drop ?a p)) = bw_all ?w @ q"
      "\<not> bw_failed (bufio_write osw ?w (drop ?a p)) \<longrightarrow> q = drop ?a p" by auto
    with fill all show ?thesis
      by (intro exI[of _ "take ?a p @ q"]) (subst (1 2) bufio_write.simps,
        auto simp: Let_def prefix_take_append)
  qed
qed

section \<open>The log writer\<close>

definition seslogMagic :: "byte list" where
  "seslogMagic = [0x52, 0x50, 0x54, 0x59]"

definition seslogFormatVersion :: u64 where
  "seslogFormatVersion = 1"

record seslog_writer =
  sl_w :: buf_writer
  sl_last_ms :: int
  sl_closed :: bool

definition log_header :: "int \<Rightarrow> byte list" where
  "log_header startMs =
     seslogMagic @ put_uvarint seslogFormatVersion @ put_uvarint (word_of_int startMs)"

text \<open>\<open>None\<close> is the error of a header that cannot be written; opening the file is the caller's.\<close>

definition new_session_log_writer :: "os_write \<Rightarrow> int \<Rightarrow> seslog_writer option" where
  "new_session_log_writer osw startMs =
     (let w = bufio_write osw \<lparr>bw_disk = [], bw_buf = [], bw_failed = False\<rparr> (log_header startMs)
      in if bw_failed w then None else Some \<lparr>sl_w = w, sl_last_ms = startMs, sl_closed = False\<rparr>)"

definition reopen_session_log_writer :: "byte list \<Rightarrow> int \<Rightarrow> seslog_writer" where
  "reopen_session_log_writer disk nowMs =
     \<lparr>sl_w = \<lparr>bw_disk = disk, bw_buf = [], bw_failed = False\<rparr>, sl_last_ms = nowMs, sl_closed = False\<rparr>"

definition log_delta :: "seslog_writer \<Rightarrow> int \<Rightarrow> int \<times> int" where
  "log_delta l ms =
     (let delta = wrap_i64 (ms - sl_last_ms l)
      in if delta < 0 then (0, sl_last_ms l) else (delta, ms))"

definition record_head :: "u64 \<Rightarrow> byte list \<Rightarrow> byte list" where
  "record_head delta p = put_uvarint delta @ put_uvarint (of_nat (length p))"

text \<open>The result is \<open>True\<close> when \<open>Append\<close> returns an error.\<close>

definition seslog_append :: "os_write \<Rightarrow> seslog_writer \<Rightarrow> int \<Rightarrow> byte list \<Rightarrow> seslog_writer \<times> bool" where
  "seslog_append osw l ms p =
     (if sl_closed l then (l, True)
      else (let (delta, prev) = log_delta l ms;
                l1 = l\<lparr>sl_last_ms := prev\<rparr>;
                w1 = bufio_write osw (sl_w l1) (record_head (word_of_int delta) p)
            in if bw_failed w1 then (l1\<lparr>sl_w := w1\<rparr>, True)
               else (let w2 = bufio_write osw w1 p in (l1\<lparr>sl_w := w2\<rparr>, bw_failed w2))))"

definition seslog_close :: "os_write \<Rightarrow> seslog_writer \<Rightarrow> seslog_writer \<times> bool" where
  "seslog_close osw l =
     (if sl_closed l then (l, False)
      else (let w = bufio_flush osw (sl_w l)
            in (l\<lparr>sl_closed := True, sl_w := w\<rparr>, bw_failed w)))"

section \<open>The reader\<close>

text \<open>
  \<open>make([]byte, plen)\<close> panics for a length the runtime cannot allocate; \<open>make_ok\<close> says which
  lengths it can.
\<close>

datatype record_step = RecEnd | RecPanic | Rec u64 "byte list" "byte list"

definition read_record :: "(u64 \<Rightarrow> bool) \<Rightarrow> byte list \<Rightarrow> record_step" where
  "read_record make_ok bs =
     (case get_uvarint bs of
        None \<Rightarrow> RecEnd
      | Some (delta, r1) \<Rightarrow>
          (case get_uvarint r1 of
             None \<Rightarrow> RecEnd
           | Some (plen, r2) \<Rightarrow>
               if \<not> make_ok plen then RecPanic
               else if length r2 < unat plen then RecEnd
               else Rec delta (take (unat plen) r2) (drop (unat plen) r2)))"

record seslog_record =
  sr_at :: int
  sr_data :: "byte list"

text \<open>The record loop; \<open>None\<close> is a panic.\<close>

lemma read_record_shorter: "read_record make_ok bs = Rec d p r \<Longrightarrow> length r < length bs"
  by (auto simp: read_record_def split: option.splits if_splits dest!: get_uvarint_shorter) linarith

function read_records :: "(u64 \<Rightarrow> bool) \<Rightarrow> int \<Rightarrow> byte list \<Rightarrow> seslog_record list option" where
  "read_records make_ok at bs =
     (case read_record make_ok bs of
        RecEnd \<Rightarrow> Some []
      | RecPanic \<Rightarrow> None
      | Rec delta p rest \<Rightarrow>
          (let at' = wrap_i64 (at + sint delta)
           in map_option (\<lambda>rs. \<lparr>sr_at = at', sr_data = p\<rparr> # rs) (read_records make_ok at' rest)))"
  by auto

termination read_records
  by (relation "measure (\<lambda>(_, _, bs). length bs)") (auto dest: read_record_shorter)

declare read_records.simps [simp del]

datatype log_read = LogError code | LogPanic | LogRecords "seslog_record list"

definition read_session_log :: "(u64 \<Rightarrow> bool) \<Rightarrow> byte list \<Rightarrow> log_read" where
  "read_session_log make_ok file =
     (if length file < 4 then LogError BadFrame
      else if take 4 file \<noteq> seslogMagic then LogError BadFrame
      else (case get_uvarint (drop 4 file) of
          None \<Rightarrow> LogError BadFrame
        | Some (ver, r1) \<Rightarrow>
            if ver \<noteq> seslogFormatVersion then LogError Unsupported
            else (case get_uvarint r1 of
                None \<Rightarrow> LogError BadFrame
              | Some (startMs, r2) \<Rightarrow>
                  (case read_records make_ok (sint startMs) r2 of
                     None \<Rightarrow> LogPanic
                   | Some rs \<Rightarrow> LogRecords rs))))"

section \<open>Records are self-delimiting\<close>

type_synonym raw_record = "u64 \<times> byte list"

definition enc_record :: "raw_record \<Rightarrow> byte list" where
  "enc_record = (\<lambda>(d, p). record_head d p @ p)"

definition dec_record :: "(u64 \<Rightarrow> bool) \<Rightarrow> byte list \<Rightarrow> (raw_record \<times> byte list) option" where
  "dec_record make_ok bs = (case read_record make_ok bs of Rec d p r \<Rightarrow> Some ((d, p), r) | _ \<Rightarrow> None)"

definition record_ok :: "(u64 \<Rightarrow> bool) \<Rightarrow> raw_record \<Rightarrow> bool" where
  "record_ok make_ok = (\<lambda>(d, p). length p < 2 ^ 64 \<and> make_ok (of_nat (length p)))"

lemma read_enc_record:
  "record_ok make_ok (d, p) \<Longrightarrow> read_record make_ok (enc_record (d, p) @ rest) = Rec d p rest"
  by (simp add: read_record_def enc_record_def record_head_def record_ok_def)

lemma read_torn_record:
  assumes "record_ok make_ok x" "strict_prefix q (enc_record x)"
  shows "read_record make_ok q = RecEnd"
proof -
  obtain d p where x: "x = (d, p)" by (cases x)
  let ?n = "of_nat (length p) :: u64"
  have pre: "prefix q (put_uvarint d @ put_uvarint ?n @ p)" and ne: "q \<noteq> put_uvarint d @ put_uvarint ?n @ p"
    using assms(2) by (auto simp: strict_prefix_def enc_record_def record_head_def x)
  show ?thesis
  proof (cases "strict_prefix q (put_uvarint d)")
    case True
    then show ?thesis by (simp add: read_record_def get_uvarint_torn)
  next
    case False
    then obtain q1 where q1: "q = put_uvarint d @ q1"
      using pre by (auto simp: prefix_append strict_prefix_def)
    then have pre1: "prefix q1 (put_uvarint ?n @ p)" and ne1: "q1 \<noteq> put_uvarint ?n @ p"
      using pre ne by auto
    show ?thesis
    proof (cases "strict_prefix q1 (put_uvarint ?n)")
      case True
      then show ?thesis by (simp add: read_record_def q1 get_uvarint_torn)
    next
      case False
      then obtain q2 where q2: "q1 = put_uvarint ?n @ q2"
        using pre1 by (auto simp: prefix_append strict_prefix_def)
      then have "prefix q2 p" "q2 \<noteq> p" using pre1 ne1 by auto
      then have "length q2 < length p" by (auto simp: prefix_def)
      then show ?thesis
        using assms(1) by (simp add: read_record_def q1 q2 record_ok_def x)
    qed
  qed
qed

interpretation logrec: self_delimiting enc_record "dec_record make_ok" "record_ok make_ok" for make_ok
proof unfold_locales
  show "dec_record make_ok (enc_record x @ rest) = Some (x, rest)" if "record_ok make_ok x" for x rest
    using that by (cases x) (simp add: dec_record_def read_enc_record)
  show "enc_record x \<noteq> []" for x
    by (cases x) (simp add: enc_record_def record_head_def)
  show "dec_record make_ok p = None" if "record_ok make_ok x" "strict_prefix p (enc_record x)" for x p
    by (simp add: dec_record_def read_torn_record[OF that])
qed

text \<open>The absolute times that the reader reconstructs.\<close>

fun timed :: "int \<Rightarrow> raw_record list \<Rightarrow> seslog_record list" where
  "timed at [] = []"
| "timed at ((d, p) # xs) =
     (let at' = wrap_i64 (at + sint d) in \<lparr>sr_at = at', sr_data = p\<rparr> # timed at' xs)"

fun end_time :: "int \<Rightarrow> raw_record list \<Rightarrow> int" where
  "end_time at [] = at"
| "end_time at ((d, p) # xs) = end_time (wrap_i64 (at + sint d)) xs"

lemma length_timed [simp]: "length (timed at xs) = length xs"
  by (induction at xs rule: timed.induct) (simp_all add: Let_def)

lemma timed_Nil_iff [simp]: "timed at xs = [] \<longleftrightarrow> xs = []"
  by (metis length_timed length_0_conv)

lemma take_timed: "take k (timed at xs) = timed at (take k xs)"
  by (induction at xs arbitrary: k rule: timed.induct) (auto simp: Let_def take_Cons split: nat.split)

lemma timed_append: "timed at (xs @ ys) = timed at xs @ timed (end_time at xs) ys"
  by (induction at xs rule: timed.induct) (simp_all add: Let_def)

lemma read_records_stream:
  "list_all (record_ok make_ok) xs \<Longrightarrow>
   read_records make_ok at (concat (map enc_record xs) @ rest) =
     map_option (\<lambda>rs. timed at xs @ rs) (read_records make_ok (end_time at xs) rest)"
proof (induction xs arbitrary: at)
  case Nil
  then show ?case by (simp add: option.map_ident)
next
  case (Cons x xs)
  obtain d p where "x = (d, p)" by (cases x)
  with Cons show ?case
    by (subst read_records.simps)
      (cases "read_records make_ok (end_time (wrap_i64 (at + sint d)) xs) rest", simp_all add: read_enc_record Let_def)
qed

lemma read_records_torn:
  assumes "list_all (record_ok make_ok) xs" "prefix p (concat (map enc_record xs))"
  shows "\<exists>k \<le> length xs. read_records make_ok at p = Some (take k (timed at xs)) \<and>
    (p = concat (map enc_record xs) \<longrightarrow> k = length xs)"
proof -
  obtain k q where k: "k \<le> length xs" "p = concat (map enc_record (take k xs)) @ q"
      "k < length xs \<longrightarrow> strict_prefix q (enc_record (xs ! k))" "k = length xs \<longrightarrow> q = []"
    using logrec.torn_stream[OF assms] by blast
  have ok: "list_all (record_ok make_ok) (take k xs)"
    using assms(1) by (auto simp: list_all_iff dest: in_set_takeD)
  have "read_record make_ok q = RecEnd"
  proof (cases "k = length xs")
    case True
    then show ?thesis using k by (simp add: read_record_def get_uvarint_def)
  next
    case False
    then show ?thesis using k assms(1) read_torn_record[of make_ok "xs ! k" q] by (simp add: list_all_length)
  qed
  then have "read_records make_ok at' q = Some []" for at' by (subst read_records.simps) simp
  then have 1: "read_records make_ok at p = Some (take k (timed at xs))"
    using read_records_stream[OF ok, of at q] k(2) by (simp add: take_timed)
  show ?thesis
  proof (cases "p = concat (map enc_record xs)")
    case True
    then have "read_records make_ok at p = Some (take (length xs) (timed at xs))"
      using read_records_stream[OF assms(1), of at "[]"]
      by (simp add: read_records.simps[of _ _ "[]"] read_record_def get_uvarint_def)
    with True show ?thesis by blast
  next
    case False
    with 1 k(1) show ?thesis by blast
  qed
qed

section \<open>What a log holds\<close>

text \<open>The records that a sequence of appends produces, from the last timestamp on.\<close>

fun append_records :: "int \<Rightarrow> (int \<times> byte list) list \<Rightarrow> raw_record list" where
  "append_records prev [] = []"
| "append_records prev ((ms, p) # xs) =
     (let delta = wrap_i64 (ms - prev)
      in if delta < 0 then (0, p) # append_records prev xs
         else (word_of_int delta, p) # append_records ms xs)"

text \<open>\<open>Append\<close> for each chunk; like the session, stop at the first error.\<close>

fun seslog_appends :: "os_write \<Rightarrow> seslog_writer \<Rightarrow> (int \<times> byte list) list \<Rightarrow> seslog_writer \<times> bool" where
  "seslog_appends osw l [] = (l, False)"
| "seslog_appends osw l ((ms, p) # xs) =
     (case seslog_append osw l ms p of
        (l', True) \<Rightarrow> (l', True)
      | (l', False) \<Rightarrow> seslog_appends osw l' xs)"

lemma seslog_append_all:
  assumes "\<not> sl_closed l" "seslog_append osw l ms p = (l', err)"
  shows "\<exists>q. prefix q (enc_record (hd (append_records (sl_last_ms l) [(ms, p)]))) \<and>
    bw_all (sl_w l') = bw_all (sl_w l) @ q \<and>
    (\<not> err \<longrightarrow> q = enc_record (hd (append_records (sl_last_ms l) [(ms, p)]))) \<and> \<not> sl_closed l' \<and>
    (append_records (sl_last_ms l) ((ms, p) # xs) =
      hd (append_records (sl_last_ms l) [(ms, p)]) # append_records (sl_last_ms l') xs)"
proof -
  obtain delta prev where d: "log_delta l ms = (delta, prev)" by (cases "log_delta l ms")
  let ?h = "record_head (word_of_int delta) p"
  let ?w1 = "bufio_write osw (sl_w l) ?h"
  let ?w2 = "bufio_write osw ?w1 p"
  have hd: "enc_record (hd (append_records (sl_last_ms l) [(ms, p)])) = ?h @ p"
    using d by (auto simp: log_delta_def Let_def enc_record_def split: if_splits)
  have tl: "append_records (sl_last_ms l) ((ms, p) # xs) =
      hd (append_records (sl_last_ms l) [(ms, p)]) # append_records prev xs"
    using d by (auto simp: log_delta_def Let_def split: if_splits)
  obtain q1 where q1: "prefix q1 ?h" "bw_all ?w1 = bw_all (sl_w l) @ q1" "\<not> bw_failed ?w1 \<longrightarrow> q1 = ?h"
    using bufio_write_all by blast
  obtain q2 where q2: "prefix q2 p" "bw_all ?w2 = bw_all ?w1 @ q2" "\<not> bw_failed ?w2 \<longrightarrow> q2 = p"
    using bufio_write_all by blast
  show ?thesis
  proof (cases "bw_failed ?w1")
    case True
    with assms d have l': "l' = l\<lparr>sl_last_ms := prev, sl_w := ?w1\<rparr>" "err"
      by (auto simp: seslog_append_def Let_def)
    then show ?thesis using assms(1) q1 tl unfolding hd by (intro exI[of _ q1]) auto
  next
    case False
    with assms d have l': "l' = l\<lparr>sl_last_ms := prev, sl_w := ?w2\<rparr>" "err = bw_failed ?w2"
      by (auto simp: seslog_append_def Let_def)
    then show ?thesis using assms(1) q1 q2 tl False unfolding hd by (intro exI[of _ "?h @ q2"]) auto
  qed
qed

lemma seslog_appends_all:
  assumes "\<not> sl_closed l" "seslog_appends osw l xs = (l', err)"
  shows "prefix (bw_all (sl_w l')) (bw_all (sl_w l) @ concat (map enc_record (append_records (sl_last_ms l) xs))) \<and>
    (\<not> err \<longrightarrow> bw_all (sl_w l') = bw_all (sl_w l) @ concat (map enc_record (append_records (sl_last_ms l) xs)))
    \<and> \<not> sl_closed l'"
  using assms
proof (induction xs arbitrary: l)
  case (Cons x xs)
  obtain ms p where x: "x = (ms, p)" by (cases x)
  obtain l1 e1 where a: "seslog_append osw l ms p = (l1, e1)" by (cases "seslog_append osw l ms p")
  let ?r = "hd (append_records (sl_last_ms l) [(ms, p)])"
  obtain q where q: "prefix q (enc_record ?r)" "bw_all (sl_w l1) = bw_all (sl_w l) @ q"
      "\<not> e1 \<longrightarrow> q = enc_record ?r" "\<not> sl_closed l1"
      "append_records (sl_last_ms l) (x # xs) = ?r # append_records (sl_last_ms l1) xs"
    using seslog_append_all[OF Cons.prems(1) a, of xs] x by metis
  show ?case
  proof (cases e1)
    case True
    then have "l' = l1" "err" using Cons.prems(2) a x by simp_all
    then show ?thesis using q by (auto simp: prefix_def)
  next
    case False
    then have "seslog_appends osw l1 xs = (l', err)" using Cons.prems(2) a x by simp
    from Cons.IH[OF q(4) this] False show ?thesis using q(2,3) unfolding q(5) by simp
  qed
qed simp

lemma append_records_ok:
  "\<forall>(ms, p)\<in>set xs. length p < 2 ^ 64 \<and> make_ok (of_nat (length p)) \<Longrightarrow>
   list_all (record_ok make_ok) (append_records at xs)"
  by (induction at xs rule: append_records.induct) (auto simp: record_ok_def Let_def)

lemma new_log_all:
  "new_session_log_writer osw s = Some l \<Longrightarrow>
   bw_all (sl_w l) = log_header s \<and> sl_last_ms l = s \<and> \<not> sl_closed l"
  using bufio_write_all[of "log_header s" osw "\<lparr>bw_disk = [], bw_buf = [], bw_failed = False\<rparr>"]
  by (auto simp: new_session_log_writer_def Let_def bw_all_def split: if_splits)

lemma read_header:
  "read_session_log make_ok (log_header s @ body) =
     (case read_records make_ok (wrap_i64 s) body of None \<Rightarrow> LogPanic | Some rs \<Rightarrow> LogRecords rs)"
  by (simp add: read_session_log_def log_header_def seslogMagic_def wrap_i64_def)

lemma prefix_past: "prefix q (a @ b) \<Longrightarrow> length a \<le> length q \<Longrightarrow> \<exists>q1. q = a @ q1 \<and> prefix q1 b"
  by (auto simp: prefix_def append_eq_append_conv2)

lemma read_torn_header:
  assumes "strict_prefix q (log_header s)"
  shows "read_session_log make_ok q = LogError BadFrame"
proof (cases "length q < 4")
  case True
  then show ?thesis by (simp add: read_session_log_def)
next
  case False
  let ?v = "put_uvarint seslogFormatVersion" and ?t = "put_uvarint (word_of_int s)"
  have pre: "prefix q (seslogMagic @ ?v @ ?t)" and ne: "q \<noteq> seslogMagic @ ?v @ ?t"
    using assms by (auto simp: strict_prefix_def log_header_def)
  obtain q1 where q1: "q = seslogMagic @ q1"
    using prefix_past[OF pre] False by (auto simp: seslogMagic_def)
  have pre1: "prefix q1 (?v @ ?t)" and ne1: "q1 \<noteq> ?v @ ?t" using pre ne q1 by auto
  have read: "read_session_log make_ok q = (case get_uvarint q1 of None \<Rightarrow> LogError BadFrame
      | Some (ver, r1) \<Rightarrow> if ver \<noteq> seslogFormatVersion then LogError Unsupported
          else (case get_uvarint r1 of None \<Rightarrow> LogError BadFrame
            | Some (startMs, r2) \<Rightarrow> (case read_records make_ok (sint startMs) r2 of
                None \<Rightarrow> LogPanic | Some rs \<Rightarrow> LogRecords rs)))"
    by (simp add: read_session_log_def q1 seslogMagic_def)
  show ?thesis
  proof (cases "strict_prefix q1 ?v")
    case True
    then show ?thesis by (simp add: read get_uvarint_torn)
  next
    case False
    then obtain q2 where q2: "q1 = ?v @ q2" using pre1 by (auto simp: prefix_append strict_prefix_def)
    then have "strict_prefix q2 ?t" using pre1 ne1 by (auto simp: strict_prefix_def)
    then show ?thesis by (simp add: read q2 get_uvarint_torn)
  qed
qed


lemmas log_eval = new_session_log_writer_def seslog_append_def log_delta_def wrap_i64_def
  bufio_write.simps record_head_def log_header_def seslogMagic_def put_uvarint.simps
  seslogFormatVersion_def bufio_size_def Let_def seslog_close_def bufio_flush_def file_write_def


text \<open>The times a log carries are the running maximum of the clock: a clock that goes back
  does not reorder the output.\<close>

fun stamped :: "int \<Rightarrow> (int \<times> byte list) list \<Rightarrow> seslog_record list" where
  "stamped at [] = []"
| "stamped at ((ms, p) # xs) = \<lparr>sr_at = max at ms, sr_data = p\<rparr> # stamped (max at ms) xs"

definition shift_record :: "int \<Rightarrow> seslog_record \<Rightarrow> seslog_record" where
  "shift_record c r = r\<lparr>sr_at := sr_at r + c\<rparr>"

definition ms_ok :: "int \<Rightarrow> bool" where
  "ms_ok t \<longleftrightarrow> 0 \<le> t \<and> t < 2 ^ 61"

lemma timed_appends:
  assumes "ms_ok at" "\<forall>(ms, p)\<in>set xs. ms_ok ms" "\<bar>c\<bar> \<le> 2 ^ 61"
  shows "timed (at + c) (append_records at xs) = map (shift_record c) (stamped at xs)"
  using assms(1,2)
proof (induction at xs rule: append_records.induct)
  case (2 at ms p xs)
  then have r: "ms_ok at" "ms_ok ms" "\<forall>(ms, p)\<in>set xs. ms_ok ms" by auto
  then have d: "wrap_i64 (ms - at) = ms - at" by (intro wrap_i64_id) (auto simp: ms_ok_def)
  show ?case
  proof (cases "ms - at < 0")
    case True
    have "wrap_i64 (at + c) = at + c" using r(1) assms(3) by (intro wrap_i64_id) (auto simp: ms_ok_def)
    then show ?thesis using True d r "2.IH"(1)[OF refl] by (simp add: Let_def max_def shift_record_def)
  next
    case False
    have "sint (word_of_int (ms - at) :: u64) = ms - at" using d by (simp add: wrap_i64_def)
    moreover have "wrap_i64 (ms + c) = ms + c" using r(2) assms(3) by (intro wrap_i64_id) (auto simp: ms_ok_def)
    moreover have "max at ms = ms" "at + c + (ms - at) = ms + c" using False by simp_all
    ultimately show ?thesis using False d r "2.IH"(2)[OF refl]
      by (simp add: Let_def shift_record_def add.commute[of c ms] del: of_int_diff)
  qed
qed simp

lemma shift_record_0 [simp]: "map (shift_record 0) rs = rs"
  by (induction rs) (simp_all add: shift_record_def)

lemma close_flushed:
  "seslog_close osw l = (l', False) \<Longrightarrow> \<not> sl_closed l \<Longrightarrow> bw_disk (sl_w l') = bw_all (sl_w l)"
  by (auto simp: seslog_close_def bufio_flush_def file_write_def bw_all_def Let_def
      split: if_splits prod.splits)

lemma appended_log:
  assumes "new_session_log_writer osw start = Some l" "seslog_appends osw l xs = (l1, False)"
    and "seslog_close osw l1 = (l2, False)" "ms_ok start" "\<forall>(ms, p)\<in>set xs. ms_ok ms"
  shows "bw_disk (sl_w l2) = log_header start @ concat (map enc_record (append_records start xs))"
    and "timed (wrap_i64 start) (append_records start xs) = stamped start xs"
proof -
  note new = new_log_all[OF assms(1)]
  then have app: "bw_all (sl_w l1) = log_header start @ concat (map enc_record (append_records start xs))" "\<not> sl_closed l1"
    using seslog_appends_all[OF _ assms(2)] by auto
  from close_flushed[OF assms(3) app(2)] app(1)
  show "bw_disk (sl_w l2) = log_header start @ concat (map enc_record (append_records start xs))" by simp
  have "wrap_i64 start = start" using assms(4) by (intro wrap_i64_id) (auto simp: ms_ok_def)
  with timed_appends[OF assms(4,5), of 0]
  show "timed (wrap_i64 start) (append_records start xs) = stamped start xs" by simp
qed

text \<open>C32. A log that was written without an error and closed reads back as exactly the chunks
  that were appended, in order, each with the latest time the clock had shown by then.\<close>

theorem seslog_roundtrip:
  assumes "new_session_log_writer osw start = Some l" "seslog_appends osw l xs = (l1, False)"
    and "seslog_close osw l1 = (l2, False)" "ms_ok start"
    and "\<forall>(ms, p)\<in>set xs. ms_ok ms"
    and "\<forall>(ms, p)\<in>set xs. length p < 2 ^ 64 \<and> make_ok (of_nat (length p))"
  shows "read_session_log make_ok (bw_disk (sl_w l2)) = LogRecords (stamped start xs)"
  using read_records_stream[OF append_records_ok[OF assms(6)], where rest = "[]"]
  by (simp add: appended_log[OF assms(1-5)] read_header read_records.simps[of _ _ "[]"]
      read_record_def get_uvarint_def)

theorem seslog_roundtrip_witness:
  "\<exists>content. read_session_log (\<lambda>n. True) content =
     LogRecords [\<lparr>sr_at = 9, sr_data = [0x41]\<rparr>, \<lparr>sr_at = 9, sr_data = []\<rparr>]"
proof -
  let ?osw = "\<lambda>disk p. length p" and ?xs = "[(9 :: int, [0x41 :: byte]), (4, [])]"
  obtain l where l: "new_session_log_writer ?osw 7 = Some l"
      and l': "l = \<lparr>sl_w = \<lparr>bw_disk = [], bw_buf = log_header 7, bw_failed = False\<rparr>, sl_last_ms = 7, sl_closed = False\<rparr>"
    by (simp add: log_eval)
  obtain l1 where l1: "seslog_appends ?osw l ?xs = (l1, False)"
      and l1': "sl_w l1 = \<lparr>bw_disk = [], bw_buf = log_header 7 @ [2, 1, 0x41, 0, 0], bw_failed = False\<rparr>" "\<not> sl_closed l1"
    by (simp add: l' log_eval)
  obtain l2 where l2: "seslog_close ?osw l1 = (l2, False)"
    using l1' by (simp add: log_eval)
  have "ms_ok 7" "\<forall>(ms, p)\<in>set ?xs. ms_ok ms" "\<forall>(ms, p)\<in>set ?xs. length p < 2 ^ 64 \<and> True"
    by (simp_all add: ms_ok_def)
  from seslog_roundtrip[OF l l1 l2 this] show ?thesis by (intro exI[of _ "bw_disk (sl_w l2)"]) simp
qed

lemma stamped_range: "ms_ok at \<Longrightarrow> \<forall>(ms, p)\<in>set xs. ms_ok ms \<Longrightarrow>
    r \<in> set (stamped at xs) \<Longrightarrow> ms_ok (sr_at r)"
  by (induction at xs rule: stamped.induct) (auto simp: max_def)

lemma end_time_timed: "end_time at rs = (if rs = [] then at else sr_at (last (timed at rs)))"
  by (induction at rs rule: timed.induct) (auto simp: Let_def)

text \<open>A daemon handover loses the gap from the log's clock: after a non-empty log is
  reopened at time \<open>now\<close>, the records appended next read back shifted by the difference
  between the last time in the log and \<open>now\<close>, not at the times they were written.\<close>

theorem seslog_reopen_shift:
  assumes "new_session_log_writer osw start = Some l" "seslog_appends osw l xs = (l1, False)"
    and "seslog_close osw l1 = (l2, False)" "ms_ok start" "\<forall>(ms, p)\<in>set xs. ms_ok ms"
    and "\<forall>(ms, p)\<in>set (xs @ ys). length p < 2 ^ 64 \<and> make_ok (of_nat (length p))" "xs \<noteq> []"
    and "seslog_appends osw (reopen_session_log_writer (bw_disk (sl_w l2)) now) ys = (l3, False)"
    and "seslog_close osw l3 = (l4, False)" "ms_ok now" "\<forall>(ms, p)\<in>set ys. ms_ok ms"
  shows "read_session_log make_ok (bw_disk (sl_w l4)) = LogRecords (stamped start xs @
    map (shift_record (sr_at (last (stamped start xs)) - now)) (stamped now ys))"
proof -
  note log1 = appended_log[OF assms(1-5)]
  let ?re = "reopen_session_log_writer (bw_disk (sl_w l2)) now"
  have re: "bw_all (sl_w ?re) = bw_disk (sl_w l2)" "\<not> sl_closed ?re" "sl_last_ms ?re = now"
    by (simp_all add: reopen_session_log_writer_def bw_all_def)
  have "bw_all (sl_w l3) = bw_disk (sl_w l2) @ concat (map enc_record (append_records now ys))" "\<not> sl_closed l3"
    using seslog_appends_all[OF re(2) assms(8)] re by auto
  with close_flushed[OF assms(9)] have disk: "bw_disk (sl_w l4) =
      log_header start @ concat (map enc_record (append_records start xs @ append_records now ys))"
    by (simp add: log1(1))
  let ?e = "sr_at (last (stamped start xs))"
  have ne: "append_records start xs \<noteq> []" using assms(7) by (cases xs) (auto simp: Let_def split: if_splits)
  then have e: "end_time (wrap_i64 start) (append_records start xs) = ?e"
    by (simp add: end_time_timed log1(2))
  have "stamped start xs \<noteq> []" using assms(7) by (cases xs) auto
  then have "ms_ok ?e" using stamped_range[OF assms(4,5)] by simp
  then have "timed (now + (?e - now)) (append_records now ys) = map (shift_record (?e - now)) (stamped now ys)"
    using assms(10) by (intro timed_appends[OF assms(10,11)]) (auto simp: ms_ok_def)
  moreover have "list_all (record_ok make_ok) (append_records start xs @ append_records now ys)"
    using append_records_ok[of xs make_ok start] append_records_ok[of ys make_ok now] assms(6) by auto
  ultimately show ?thesis
    using read_records_stream[of make_ok "append_records start xs @ append_records now ys" _ "[]"]
    by (simp add: disk read_header timed_append e log1(2) read_records.simps[of _ _ "[]"]
        read_record_def get_uvarint_def del: map_append)
qed

theorem seslog_reopen_shift_witness:
  "\<exists>content. read_session_log (\<lambda>n. True) content =
     LogRecords [\<lparr>sr_at = 9, sr_data = [0x41]\<rparr>, \<lparr>sr_at = 10, sr_data = [0x42]\<rparr>]"
proof -
  let ?osw = "\<lambda>disk p. length p" and ?xs = "[(9 :: int, [0x41 :: byte])]" and ?ys = "[(101 :: int, [0x42 :: byte])]"
  obtain l where l: "new_session_log_writer ?osw 7 = Some l"
      and l': "l = \<lparr>sl_w = \<lparr>bw_disk = [], bw_buf = log_header 7, bw_failed = False\<rparr>, sl_last_ms = 7, sl_closed = False\<rparr>"
    by (simp add: log_eval)
  obtain l1 where l1: "seslog_appends ?osw l ?xs = (l1, False)"
      and l1': "sl_w l1 = \<lparr>bw_disk = [], bw_buf = log_header 7 @ [2, 1, 0x41], bw_failed = False\<rparr>" "\<not> sl_closed l1"
    by (simp add: l' log_eval)
  obtain l2 where l2: "seslog_close ?osw l1 = (l2, False)"
    using l1' by (simp add: log_eval)
  obtain l3 where l3: "seslog_appends ?osw (reopen_session_log_writer (bw_disk (sl_w l2)) 100) ?ys = (l3, False)"
      and l3': "sl_w l3 = \<lparr>bw_disk = bw_disk (sl_w l2), bw_buf = [1, 1, 0x42], bw_failed = False\<rparr>" "\<not> sl_closed l3"
    by (simp add: reopen_session_log_writer_def log_eval)
  obtain l4 where l4: "seslog_close ?osw l3 = (l4, False)"
    using l3' by (simp add: log_eval)
  have a: "ms_ok 7" "\<forall>(ms, p)\<in>set ?xs. ms_ok ms" "\<forall>(ms, p)\<in>set (?xs @ ?ys). length p < 2 ^ 64 \<and> True" "?xs \<noteq> []"
    and b: "ms_ok 100" "\<forall>(ms, p)\<in>set ?ys. ms_ok ms"
    by (simp_all add: ms_ok_def)
  from seslog_reopen_shift[OF l l1 l2 a l3 l4 b] show ?thesis
    by (intro exI[of _ "bw_disk (sl_w l4)"]) (simp add: shift_record_def)
qed

text \<open>Not every damaged log is read as history up to the damage: a record head whose
  length field the runtime cannot allocate makes the reader panic, whatever follows it.\<close>

theorem seslog_corrupt_panics:
  assumes "\<not> make_ok plen"
  shows "read_session_log make_ok (log_header start @ put_uvarint delta @ put_uvarint plen @ rest) = LogPanic"
  using assms by (simp add: read_header read_records.simps[of _ _ "put_uvarint delta @ _"] read_record_def)

theorem seslog_corrupt_panics_witness:
  "read_session_log (\<lambda>n. n < 2 ^ 48) (log_header 0 @ put_uvarint 0 @ put_uvarint (2 ^ 63) @ []) = LogPanic"
proof -
  have "\<not> (2 :: u64) ^ 63 < 2 ^ 48" by simp
  from seslog_corrupt_panics[of "\<lambda>n. n < 2 ^ 48", OF this] show ?thesis .
qed

end
