(* ===== verification/Json.thy ===== *)
theory Json
  imports Prelude "HOL-Library.Char_ord" "HOL-Library.List_Lexorder"
begin

text \<open>
  JSON documents as \<open>encoding/json\<close> decodes them into \<open>any\<close> with \<open>UseNumber\<close>, and the two
  recursive cores of \<open>pkg/metajson\<close>: \<open>mergeValue\<close> (RFC 7386) and \<open>incrInto\<close>. A Go map is
  an association list, so that the loops over it have an order; \<open>canon\<close> sorts the keys, as
  \<open>json.Marshal\<close> does, and two documents with the same \<open>canon\<close> encode to the same text.
\<close>

section \<open>Documents\<close>

datatype json =
    JNull | JBool bool | JNum string | JStr string
  | JArr "json list" | JObj "(string \<times> json) list"

fun obj_of :: "json \<Rightarrow> (string, json) gomap" where
  "obj_of (JObj m) = m"
| "obj_of _ = []"

fun is_obj :: "json \<Rightarrow> bool" where
  "is_obj (JObj m) = True"
| "is_obj _ = False"

fun json_wf :: "json \<Rightarrow> bool" where
  "json_wf (JArr xs) = list_all json_wf xs"
| "json_wf (JObj m) = (mwf m \<and> list_all (\<lambda>kv. json_wf (snd kv)) m)"
| "json_wf _ = True"

fun canon :: "json \<Rightarrow> json" where
  "canon (JArr xs) = JArr (map canon xs)"
| "canon (JObj m) = JObj (sort_key fst (map (\<lambda>kv. (fst kv, canon (snd kv))) m))"
| "canon v = v"

section \<open>Merge patch\<close>

fun merge_value :: "json \<Rightarrow> json \<Rightarrow> json"
  and merge_fields :: "(string, json) gomap \<Rightarrow> (string \<times> json) list \<Rightarrow> (string, json) gomap" where
  "merge_value target (JObj patch) = JObj (merge_fields (obj_of target) patch)"
| "merge_value target JNull = JNull"
| "merge_value target (JBool b) = JBool b"
| "merge_value target (JNum n) = JNum n"
| "merge_value target (JStr s) = JStr s"
| "merge_value target (JArr xs) = JArr xs"
| "merge_fields t [] = t"
| "merge_fields t ((name, val) # rest) =
     merge_fields
       (if val = JNull then mdel name t
        else mput name (merge_value (case mget t name of Some x \<Rightarrow> x | None \<Rightarrow> JNull) val) t) rest"

text \<open>The new value of a key, as RFC 7386 states it.\<close>

definition merged_at :: "json option \<Rightarrow> json option \<Rightarrow> json option" where
  "merged_at old p = (case p of
      None \<Rightarrow> old
    | Some v \<Rightarrow> if v = JNull then None else Some (merge_value (case old of Some x \<Rightarrow> x | None \<Rightarrow> JNull) v))"

lemma mwf_Cons: "mwf (x # m) \<longleftrightarrow> mget m (fst x) = None \<and> mwf m"
  by (simp add: mwf_def mget_None_iff image_image)

lemma mget_Cons: "mget (x # m) k = (if fst x = k then Some (snd x) else mget m k)"
  by (simp add: mget_def)

lemma mget_merge_fields:
  "mwf ps \<Longrightarrow> mget (merge_fields t ps) k = merged_at (mget t k) (mget ps k)"
proof (induction ps arbitrary: t)
  case (Cons x ps)
  obtain name val where x: "x = (name, val)" by (cases x)
  from Cons.prems have "mget ps name = None" "mwf ps" by (simp_all add: mwf_Cons x)
  with Cons.IH[OF this(2)] show ?case
    by (auto simp: x mget_Cons merged_at_def split: option.split)
qed (simp add: merged_at_def)

lemma merge_value_scalar: "\<not> is_obj p \<Longrightarrow> merge_value t p = p"
  by (cases p) auto

lemma json_wf_get: "json_wf (JObj m) \<Longrightarrow> mget m k = Some v \<Longrightarrow> json_wf v"
  by (fastforce simp: list_all_iff dest: mget_SomeD)

lemma json_wf_ObjI: "mwf m \<Longrightarrow> (\<And>k v. mget m k = Some v \<Longrightarrow> json_wf v) \<Longrightarrow> json_wf (JObj m)"
  by (auto simp: list_all_iff mget_iff_mem) 

lemma json_wf_Obj_iff: "json_wf (JObj m) \<longleftrightarrow> mwf m \<and> (\<forall>k v. mget m k = Some v \<longrightarrow> json_wf v)"
  using json_wf_get json_wf_ObjI by (metis json_wf.simps(2))

lemma json_wf_obj_of: "json_wf t \<Longrightarrow> json_wf (JObj (obj_of t))"
  by (cases t) auto

declare json_wf.simps(2) [simp del]

lemma json_wf_merge:
  "json_wf t \<Longrightarrow> json_wf p \<Longrightarrow> json_wf (merge_value t p)"
  "json_wf (JObj m) \<Longrightarrow> \<forall>(k, v)\<in>set ps. json_wf v \<Longrightarrow> json_wf (JObj (merge_fields m ps))"
proof (induction t p and m ps rule: merge_value_merge_fields.induct)
  case (1 target patch)
  from "1.prems"(2) have "\<forall>(k, v)\<in>set patch. json_wf v"
    by (auto simp: json_wf.simps(2) list_all_iff)
  with "1.IH" "1.prems"(1) show ?case by (simp add: json_wf_obj_of)
next
  case (8 t name val rest)
  let ?new = "merge_value (case mget t name of Some x \<Rightarrow> x | None \<Rightarrow> JNull) val"
  have val: "json_wf val" "\<forall>(k, v)\<in>set rest. json_wf v" using "8.prems"(2) by auto
  have "json_wf (case mget t name of Some x \<Rightarrow> x | None \<Rightarrow> JNull)"
    using "8.prems"(1) by (simp add: json_wf_Obj_iff split: option.split)
  then have "val \<noteq> JNull \<Longrightarrow> json_wf ?new" using "8.IH"(1) val(1) by blast
  then have "json_wf (JObj (if val = JNull then mdel name t else mput name ?new t))"
    using "8.prems"(1) by (simp add: json_wf_Obj_iff)
  from "8.IH"(2)[OF this val(2)] show ?case by simp
qed simp_all

section \<open>Documents up to key order\<close>

text \<open>Two documents are the same when they agree at every key, at every depth.\<close>

lemma sort_fields_cong:
  assumes "mwf m" "mwf m'" "\<And>k. mget m k = mget m' k"
  shows "sort_key fst m = sort_key fst (m' :: (string, 'v) gomap)"
proof -
  have s: "set m = set m'" using assms by (metis mget_iff_mem subsetI subset_antisym surj_pair)
  have d: "distinct (map fst (sort_key fst m))" "distinct (map fst (sort_key fst m'))"
    using assms(1,2) by (simp_all add: mwf_def distinct_map)
  have "inj_on fst (set (sort_key fst m) \<union> set (sort_key fst m'))"
    using assms(1) s by (simp add: mwf_def distinct_map)
  from map_sorted_distinct_set_unique[OF this _ d(1) _ d(2)] s show ?thesis by simp
qed

lemma mget_sort: "mwf m \<Longrightarrow> mget (sort_key fst m) k = mget (m :: (string, 'v) gomap) k"
proof -
  assume w: "mwf m"
  then have "mwf (sort_key fst m)" by (simp add: mwf_def distinct_map)
  with w show ?thesis
    by (metis (no_types, opaque_lifting) mget_iff_mem not_Some_eq set_sort)
qed

lemma mget_map_snd: "mget (map (\<lambda>kv. (fst kv, f (snd kv))) m) k = map_option f (mget m k)"
  by (induction m) (auto simp: mget_Cons)

lemma mwf_map_snd [simp]: "mwf (map (\<lambda>kv. (fst kv, f (snd kv))) m) = mwf m"
  by (simp add: mwf_def comp_def)

lemma canon_obj_eq_iff:
  assumes "mwf m" "mwf m'"
  shows "canon (JObj m) = canon (JObj m') \<longleftrightarrow> (\<forall>k. map_option canon (mget m k) = map_option canon (mget m' k))"
proof
  assume "canon (JObj m) = canon (JObj m')"
  then have "mget (sort_key fst (map (\<lambda>kv. (fst kv, canon (snd kv))) m)) k =
      mget (sort_key fst (map (\<lambda>kv. (fst kv, canon (snd kv))) m')) k" for k by simp
  then show "\<forall>k. map_option canon (mget m k) = map_option canon (mget m' k)"
    using assms by (simp add: mget_sort mget_map_snd)
next
  assume "\<forall>k. map_option canon (mget m k) = map_option canon (mget m' k)"
  with assms show "canon (JObj m) = canon (JObj m')"
    by (simp add: mget_map_snd sort_fields_cong)
qed

lemma canon_is_obj: "canon a = canon b \<Longrightarrow> is_obj a = is_obj b"
  by (cases a; cases b) auto

lemma canon_null: "canon a = JNull \<longleftrightarrow> a = JNull"
  by (cases a) auto

lemma canon_null_cong: "canon a = canon b \<Longrightarrow> a = JNull \<longleftrightarrow> b = JNull"
  by (metis canon_null canon.simps(3))

text \<open>Merging respects it in both arguments: neither the order of the patch's keys, nor the
  order in which the target stores its own, can be seen in the result.\<close>

lemma map_option_canonD:
  "map_option canon x = map_option canon y \<Longrightarrow>
   canon (case x of Some a \<Rightarrow> a | None \<Rightarrow> JNull) = canon (case y of Some a \<Rightarrow> a | None \<Rightarrow> JNull)"
  by (cases x; cases y) auto

lemma merge_canon_cong:
  assumes "json_wf t" "json_wf t'" "json_wf p" "json_wf p'" "canon t = canon t'" "canon p = canon p'"
  shows "canon (merge_value t p) = canon (merge_value t' p')"
  using assms
proof (induction "size p" arbitrary: t t' p p' rule: less_induct)
  case less
  show ?case
  proof (cases "is_obj p")
    case False
    then have "\<not> is_obj p'" using canon_is_obj less.prems(6) by blast
    with False less.prems show ?thesis by (simp add: merge_value_scalar)
  next
    case True
    then obtain ps where p: "p = JObj ps" by (cases p) auto
    from True canon_is_obj[OF less.prems(6)] obtain ps' where p': "p' = JObj ps'" by (cases p') auto
    have w: "mwf ps" "mwf ps'" using less.prems(3,4) by (auto simp: p p' json_wf.simps)
    let ?m = "obj_of t" and ?m' = "obj_of t'"
    have wt: "json_wf (JObj ?m)" "json_wf (JObj ?m')" using less.prems(1,2) by (auto intro: json_wf_obj_of)
    have "canon (JObj ?m) = canon (JObj ?m')" using less.prems(5) by (cases t; cases t') auto
    then have old: "map_option canon (mget ?m k) = map_option canon (mget ?m' k)" for k
      using wt by (simp add: canon_obj_eq_iff json_wf_Obj_iff del: canon.simps)
    have new: "map_option canon (mget ps k) = map_option canon (mget ps' k)" for k
      using less.prems(6) w by (simp add: canon_obj_eq_iff p p' del: canon.simps)
    have at: "map_option canon (merged_at (mget ?m k) (mget ps k)) =
        map_option canon (merged_at (mget ?m' k) (mget ps' k))" for k
    proof (cases "mget ps k")
      case None
      then show ?thesis using new[of k] old[of k] by (simp add: merged_at_def)
    next
      case (Some v)
      then obtain v' where v': "mget ps' k = Some v'" "canon v = canon v'" using new[of k] by (cases "mget ps' k") auto
      have "size v < size p"
        using mget_SomeD[OF Some] unfolding p by (auto simp: size_list_estimation' less_Suc_eq_le)
      moreover have "json_wf v" "json_wf v'"
        using Some v' less.prems(3,4) by (auto simp: p p' json_wf_Obj_iff)
      moreover have "json_wf (case mget ?m k of Some x \<Rightarrow> x | None \<Rightarrow> JNull)"
          "json_wf (case mget ?m' k of Some x \<Rightarrow> x | None \<Rightarrow> JNull)"
        using wt by (auto simp: json_wf_Obj_iff split: option.split)
      ultimately show ?thesis
        using less.hyps[OF _ _ _ _ _ map_option_canonD[OF old[of k]] v'(2)] v'(1) Some canon_null_cong[OF v'(2)]
        by (simp add: merged_at_def)
    qed
    have "mwf (merge_fields ?m ps)" "mwf (merge_fields ?m' ps')"
      using json_wf_merge(1)[OF less.prems(1,3)] json_wf_merge(1)[OF less.prems(2,4)]
      by (simp_all add: p p' json_wf_Obj_iff)
    with at w show ?thesis by (simp add: canon_obj_eq_iff p p' mget_merge_fields del: canon.simps)
  qed
qed

text \<open>A goal about two merges of objects, key by key.\<close>

lemma canon_objI:
  assumes "json_wf a" "json_wf b" "is_obj a" "is_obj b"
    and "\<And>k. map_option canon (mget (obj_of a) k) = map_option canon (mget (obj_of b) k)"
  shows "canon a = canon b"
  using assms by (cases a; cases b) (auto simp: canon_obj_eq_iff json_wf_Obj_iff simp del: canon.simps)

lemma is_obj_merge [simp]: "is_obj (merge_value t p) = is_obj p"
  by (cases p) auto

lemma merge_get:
  "json_wf p \<Longrightarrow> is_obj p \<Longrightarrow>
   mget (obj_of (merge_value t p)) k = merged_at (mget (obj_of t) k) (mget (obj_of p) k)"
  by (cases p) (auto simp: mget_merge_fields json_wf_Obj_iff)

lemma merged_at_None [simp]: "merged_at x None = x"
  by (simp add: merged_at_def)

lemma size_obj_get: "mget (obj_of p) k = Some v \<Longrightarrow> size v < size p"
  by (cases p) (auto dest!: mget_SomeD simp: size_list_estimation' less_Suc_eq_le)

lemma json_wf_at: "json_wf t \<Longrightarrow> mget (obj_of t) k = Some v \<Longrightarrow> json_wf v"
  by (cases t) (auto simp: json_wf_Obj_iff)

abbreviation or_null :: "json option \<Rightarrow> json" where
  "or_null x \<equiv> (case x of Some v \<Rightarrow> v | None \<Rightarrow> JNull)"

lemma json_wf_or_null: "json_wf t \<Longrightarrow> json_wf (or_null (mget (obj_of t) k))"
  by (auto split: option.split intro: json_wf_at)

text \<open>Two patches that never write the same leaf: where both have a key, both values are
  objects and disjoint in turn.\<close>

fun disjoint_patch :: "json \<Rightarrow> json \<Rightarrow> bool" where
  "disjoint_patch (JObj ps) q =
     (is_obj q \<and> list_all (\<lambda>kv. case mget (obj_of q) (fst kv) of
        None \<Rightarrow> True | Some w \<Rightarrow> disjoint_patch (snd kv) w) ps)"
| "disjoint_patch _ _ = False"

lemma disjoint_obj: "disjoint_patch p q \<Longrightarrow> is_obj p \<and> is_obj q"
  by (cases p) auto

lemma disjoint_at:
  "disjoint_patch p q \<Longrightarrow> mget (obj_of p) k = Some v \<Longrightarrow> mget (obj_of q) k = Some w \<Longrightarrow> disjoint_patch v w"
proof (cases p)
  case (JObj ps)
  assume a: "disjoint_patch p q" "mget (obj_of p) k = Some v" "mget (obj_of q) k = Some w"
  then have "(k, v) \<in> set ps" by (simp add: JObj mget_SomeD)
  moreover have "\<forall>kv\<in>set ps. case mget (obj_of q) (fst kv) of None \<Rightarrow> True | Some w \<Rightarrow> disjoint_patch (snd kv) w"
    using a(1) by (simp add: JObj list_all_iff)
  ultimately show "disjoint_patch v w" using a(3) by fastforce
qed simp_all

text \<open>RFC 7386, key by key: merging an object patch leaves every key alone that the patch
  does not name, deletes the keys that it maps to null, and merges its other values into the
  old value of the key, or into null where there is none. The order in which Go ranges over
  the patch does not matter.\<close>

theorem merge_patch_keywise:
  assumes "json_wf (JObj patch)"
  shows "mget (obj_of (merge_value target (JObj patch))) k =
    (case mget patch k of
       None \<Rightarrow> mget (obj_of target) k
     | Some JNull \<Rightarrow> None
     | Some v \<Rightarrow> Some (merge_value (or_null (mget (obj_of target) k)) v))"
  using merge_get[OF assms] by (auto simp: merged_at_def split: option.split json.split)

theorem merge_patch_keywise_witness:
  "mget (obj_of (merge_value (JObj [(''a'', JNum ''1''), (''b'', JBool True)])
     (JObj [(''a'', JNull), (''c'', JObj [(''x'', JNull)])]))) ''c'' = Some (JObj [])"
proof -
  have "json_wf (JObj [(''a'', JNull), (''c'', JObj [(''x'', JNull)])])"
    by (simp add: json_wf.simps mwf_def)
  from merge_patch_keywise[OF this, of "JObj [(''a'', JNum ''1''), (''b'', JBool True)]" "''c''"]
  show ?thesis by (simp add: mget_Cons) (simp add: mdel_def)
qed

text \<open>Writers on disjoint fields do not clobber each other: when two patches never write
  the same leaf, merging them in either order gives the same document up to key order, and so
  the same text.\<close>

theorem disjoint_merges_commute:
  assumes "json_wf t" "json_wf p" "json_wf q" "disjoint_patch p q"
  shows "canon (merge_value (merge_value t p) q) = canon (merge_value (merge_value t q) p)"
  using assms
proof (induction "size p" arbitrary: t p q rule: less_induct)
  case less
  have obj: "is_obj p" "is_obj q" using disjoint_obj[OF less.prems(4)] by auto
  show ?case
  proof (rule canon_objI)
    fix k
    have same: "map_option canon (merged_at (merged_at (mget (obj_of t) k) (mget (obj_of p) k)) (mget (obj_of q) k)) =
        map_option canon (merged_at (merged_at (mget (obj_of t) k) (mget (obj_of q) k)) (mget (obj_of p) k))"
    proof (cases "mget (obj_of p) k"; cases "mget (obj_of q) k")
      fix v w
      assume vw: "mget (obj_of p) k = Some v" "mget (obj_of q) k = Some w"
      then have d: "disjoint_patch v w" using disjoint_at[OF less.prems(4)] by blast
      have "v \<noteq> JNull" "w \<noteq> JNull" using disjoint_obj[OF d] by auto
      moreover have "json_wf v" "json_wf w" using less.prems(2,3) vw by (auto intro: json_wf_at)
      ultimately show ?thesis
        using less.hyps[OF size_obj_get[OF vw(1)] json_wf_or_null[OF less.prems(1)] _ _ d] vw
        by (simp add: merged_at_def)
    qed simp_all
    then show "map_option canon (mget (obj_of (merge_value (merge_value t p) q)) k) =
        map_option canon (mget (obj_of (merge_value (merge_value t q) p)) k)"
      using less.prems obj by (simp add: merge_get)
  qed (use less.prems obj in \<open>auto intro!: json_wf_merge(1)\<close>)
qed

theorem disjoint_merges_commute_witness:
  "canon (merge_value (merge_value JNull (JObj [(''a'', JObj [(''x'', JNum ''1'')])])) (JObj [(''a'', JObj [(''y'', JNull)])])) =
   canon (merge_value (merge_value JNull (JObj [(''a'', JObj [(''y'', JNull)])])) (JObj [(''a'', JObj [(''x'', JNum ''1'')])]))"
proof -
  have "json_wf JNull" "json_wf (JObj [(''a'', JObj [(''x'', JNum ''1'')])])"
      "json_wf (JObj [(''a'', JObj [(''y'', JNull)])])"
      "disjoint_patch (JObj [(''a'', JObj [(''x'', JNum ''1'')])]) (JObj [(''a'', JObj [(''y'', JNull)])])"
    by (simp_all add: json_wf.simps mwf_def mget_def)
  from disjoint_merges_commute[OF this] show ?thesis .
qed

text \<open>A retried merge is harmless: applying a patch twice is applying it once.\<close>

theorem merge_idempotent:
  assumes "json_wf t" "json_wf p"
  shows "canon (merge_value (merge_value t p) p) = canon (merge_value t p)"
  using assms
proof (induction "size p" arbitrary: t p rule: less_induct)
  case less
  show ?case
  proof (cases "is_obj p")
    case False
    then show ?thesis by (simp add: merge_value_scalar)
  next
    case obj: True
    show ?thesis
    proof (rule canon_objI)
      fix k
      have "map_option canon (merged_at (merged_at (mget (obj_of t) k) (mget (obj_of p) k)) (mget (obj_of p) k)) =
          map_option canon (merged_at (mget (obj_of t) k) (mget (obj_of p) k))"
      proof (cases "mget (obj_of p) k")
        case (Some v)
        from less.hyps[OF size_obj_get[OF Some] json_wf_or_null[OF less.prems(1)] json_wf_at[OF less.prems(2) Some]]
        show ?thesis using Some by (simp add: merged_at_def)
      qed simp
      then show "map_option canon (mget (obj_of (merge_value (merge_value t p) p)) k) =
          map_option canon (mget (obj_of (merge_value t p)) k)"
        using less.prems obj by (simp add: merge_get)
    qed (use less.prems obj in \<open>auto intro!: json_wf_merge(1)\<close>)
  qed
qed

theorem merge_idempotent_witness:
  "canon (merge_value (merge_value (JObj [(''a'', JNum ''1'')]) (JObj [(''a'', JNull)])) (JObj [(''a'', JNull)])) =
   canon (merge_value (JObj [(''a'', JNum ''1'')]) (JObj [(''a'', JNull)]))"
proof -
  have "json_wf (JObj [(''a'', JNum ''1'')])" "json_wf (JObj [(''a'', JNull)])"
    by (simp_all add: json_wf.simps mwf_def)
  from merge_idempotent[OF this] show ?thesis .
qed

section \<open>Increment patch\<close>

text \<open>
  \<open>addNumbers\<close>: integer arithmetic with the \<open>int64\<close> wrap when both operands parse as
  integers. The floating-point sum (\<open>strconv.ParseFloat\<close>, IEEE addition, shortest formatting)
  is the parameter \<open>fadd\<close>, \<open>None\<close> when an operand is out of range.
\<close>

definition add_numbers :: "(string \<Rightarrow> string \<Rightarrow> string option) \<Rightarrow> string \<Rightarrow> string \<Rightarrow> string option" where
  "add_numbers fadd a b =
     (case (parse_int64 a, parse_int64 b) of
        (Some ai, Some bi) \<Rightarrow> Some (int_string (wrap_i64 (ai + bi)))
      | _ \<Rightarrow> fadd a b)"

datatype incr_error = NotANumber string | NotAnObject string | ValueNotNumber string | AddFailed string

fun incr_into ::
  "(string \<Rightarrow> string \<Rightarrow> string option) \<Rightarrow> (string, json) gomap \<Rightarrow> (string \<times> json) list
   \<Rightarrow> incr_error + (string, json) gomap" where
  "incr_into fadd t [] = Inr t"
| "incr_into fadd t ((k, JNum d) # rest) =
     (case (case mget t k of None \<Rightarrow> Some ''0'' | Some (JNum n) \<Rightarrow> Some n | Some _ \<Rightarrow> None) of
        None \<Rightarrow> Inl (NotANumber k)
      | Some cur \<Rightarrow>
          (case add_numbers fadd cur d of
             None \<Rightarrow> Inl (AddFailed k)
           | Some added \<Rightarrow> incr_into fadd (mput k (JNum added) t) rest))"
| "incr_into fadd t ((k, JObj sub) # rest) =
     (case (case mget t k of None \<Rightarrow> Some [] | Some (JObj c) \<Rightarrow> Some c | Some _ \<Rightarrow> None) of
        None \<Rightarrow> Inl (NotAnObject k)
      | Some child \<Rightarrow>
          (case incr_into fadd child sub of
             Inl e \<Rightarrow> Inl e
           | Inr child' \<Rightarrow> incr_into fadd (mput k (JObj child') t) rest))"
| "incr_into fadd t ((k, JNull) # rest) = Inl (ValueNotNumber k)"
| "incr_into fadd t ((k, JBool b) # rest) = Inl (ValueNotNumber k)"
| "incr_into fadd t ((k, JStr s) # rest) = Inl (ValueNotNumber k)"
| "incr_into fadd t ((k, JArr xs) # rest) = Inl (ValueNotNumber k)"

lemma json_wf_incr:
  "json_wf (JObj t) \<Longrightarrow> incr_into fadd t ps = Inr t' \<Longrightarrow> json_wf (JObj t')"
proof (induction fadd t ps arbitrary: t' rule: incr_into.induct)
  case (2 fadd t k d rest)
  obtain cur where cur: "(case mget t k of None \<Rightarrow> Some ''0'' | Some (JNum n) \<Rightarrow> Some n | Some _ \<Rightarrow> None) = Some cur"
    using "2.prems"(2) by (auto split: option.splits)
  obtain added where added: "add_numbers fadd cur d = Some added"
    using "2.prems"(2) cur by (auto split: option.splits)
  have "json_wf (JObj (mput k (JNum added) t))" using "2.prems"(1) by (simp add: json_wf_Obj_iff)
  then show ?case using "2.IH"[OF cur added] "2.prems"(2) cur added by simp
next
  case (3 fadd t k sub rest)
  obtain child where c: "(case mget t k of None \<Rightarrow> Some [] | Some (JObj c) \<Rightarrow> Some c | Some _ \<Rightarrow> None) = Some child"
    using "3.prems"(2) by (auto split: option.splits)
  obtain child' where c': "incr_into fadd child sub = Inr child'"
    using "3.prems"(2) c by (auto split: sum.splits)
  have "json_wf (JObj child)"
    using c json_wf_get[OF "3.prems"(1), of k]
    by (cases "mget t k") (auto simp: json_wf.simps(2) split: json.splits)
  then have "json_wf (JObj child')" by (rule "3.IH"(1)[OF c _ c'])
  then have "json_wf (JObj (mput k (JObj child') t))" using "3.prems"(1) by (auto simp: json_wf_Obj_iff)
  then show ?case using "3.IH"(2)[OF c c'] "3.prems"(2) c c' by simp
qed simp_all

text \<open>The counter that a key holds; an absent key counts as zero.\<close>

definition counter_at :: "(string, json) gomap \<Rightarrow> string \<Rightarrow> int option" where
  "counter_at m k = (case mget m k of None \<Rightarrow> Some 0 | Some (JNum n) \<Rightarrow> parse_int64 n | Some _ \<Rightarrow> None)"

fun incr_all :: "(string \<Rightarrow> string \<Rightarrow> string option) \<Rightarrow> (string, json) gomap \<Rightarrow> (string \<times> json) list list
   \<Rightarrow> incr_error + (string, json) gomap" where
  "incr_all fadd t [] = Inr t"
| "incr_all fadd t (p # ps) = (case incr_into fadd t p of Inl e \<Rightarrow> Inl e | Inr t' \<Rightarrow> incr_all fadd t' ps)"

lemma parse_wrapped [simp]: "parse_int64 (int_string (wrap_i64 i)) = Some (wrap_i64 i)"
  by (rule parse_int_string) (rule wrap_i64_range)+

lemma parse_zero [simp]: "parse_int64 ''0'' = Some 0"
  by (simp add: parse_int64_def Let_def)

lemma incr_one:
  assumes "counter_at t k = Some c" "parse_int64 n = Some d"
  shows "\<exists>t'. incr_into fadd t [(k, JNum n)] = Inr t' \<and> counter_at t' k = Some (wrap_i64 (c + d)) \<and>
    (\<forall>j. j \<noteq> k \<longrightarrow> mget t' j = mget t j)"
  using assms
  by (auto simp: counter_at_def add_numbers_def split: option.splits json.splits)

text \<open>Increments by any number of writers to one counter add up: however they are
  interleaved, the counter ends at its old value plus all the deltas, in the wrapping
  arithmetic of \<open>int64\<close>, and no other key changes.\<close>

theorem increments_add_up:
  assumes "counter_at t k = Some c" "\<forall>n\<in>set ns. parse_int64 n \<noteq> None" "wrap_i64 c = c"
  shows "\<exists>t'. incr_all fadd t (map (\<lambda>n. [(k, JNum n)]) ns) = Inr t' \<and>
    counter_at t' k = Some (wrap_i64 (c + (\<Sum>n\<leftarrow>ns. the (parse_int64 n)))) \<and>
    (\<forall>j. j \<noteq> k \<longrightarrow> mget t' j = mget t j)"
  using assms
proof (induction ns arbitrary: t c)
  case (Cons n ns)
  then obtain d where d: "parse_int64 n = Some d" by auto
  from incr_one[OF Cons.prems(1) d, of fadd] obtain t1 where t1: "incr_into fadd t [(k, JNum n)] = Inr t1"
      "counter_at t1 k = Some (wrap_i64 (c + d))" "\<forall>j. j \<noteq> k \<longrightarrow> mget t1 j = mget t j"
    by blast
  have "wrap_i64 (wrap_i64 (c + d)) = wrap_i64 (c + d)" using wrap_i64_add[of "c + d" 0] by simp
  from Cons.IH[OF t1(2) _ this] Cons.prems(2) t1 d show ?case
    by (auto simp: add.assoc simp del: incr_into.simps)
qed auto

theorem increments_add_up_witness:
  "\<exists>t'. incr_all (\<lambda>a b. None) [(''n'', JNum ''40'')] (map (\<lambda>n. [(''n'', JNum n)]) [''3'', ''-1'']) = Inr t' \<and>
    counter_at t' ''n'' = Some 42"
proof -
  have "counter_at [(''n'', JNum ''40'')] ''n'' = Some 40" "\<forall>n\<in>set [''3'', ''-1'']. parse_int64 n \<noteq> None"
      "wrap_i64 40 = 40"
    by (simp_all add: counter_at_def mget_def parse_int64_def Let_def wrap_i64_id)
  from increments_add_up[OF this, of "\<lambda>a b. None"] show ?thesis
    by (auto simp: parse_int64_def Let_def wrap_i64_id)
qed

end
