(* ===== verification/JsonText.thy ===== *)
theory JsonText
  imports Json
begin

text \<open>
  The text of JSON documents, as Go's \<open>encoding/json\<close> reads and writes it: a \<open>char\<close> is a byte.
  \<open>json_print\<close> is \<open>Marshal\<close> (HTML escaping on, keys sorted), \<open>json_decode\<close> is the \<open>decode\<close> of
  \<open>pkg/metajson/merge.go\<close> over the \<open>Decoder\<close> with \<open>UseNumber\<close>. Go's reader accepts at most
  10000 nested containers.
\<close>

section \<open>UTF-8\<close>

abbreviation byte_of :: "char \<Rightarrow> nat" where
  "byte_of c \<equiv> of_char c"

definition cont_byte :: "char \<Rightarrow> bool" where
  "cont_byte c \<longleftrightarrow> 0x80 \<le> byte_of c \<and> byte_of c \<le> 0xBF"

text \<open>The length of the valid multi-byte sequence at the head, as \<open>utf8.DecodeRune\<close> accepts it.\<close>

definition utf8_width :: "string \<Rightarrow> nat option" where
  "utf8_width s = (case s of
      c0 # c1 # r \<Rightarrow>
        (let b0 = byte_of c0; b1 = byte_of c1 in
         if 0xC2 \<le> b0 \<and> b0 \<le> 0xDF then (if cont_byte c1 then Some 2 else None)
         else if 0xE0 \<le> b0 \<and> b0 \<le> 0xEF then
           (case r of
              c2 # _ \<Rightarrow>
                (if (if b0 = 0xE0 then 0xA0 else 0x80) \<le> b1 \<and> b1 \<le> (if b0 = 0xED then 0x9F else 0xBF) \<and> cont_byte c2
                 then Some 3 else None)
            | [] \<Rightarrow> None)
         else if 0xF0 \<le> b0 \<and> b0 \<le> 0xF4 then
           (case r of
              c2 # c3 # _ \<Rightarrow>
                (if (if b0 = 0xF0 then 0x90 else 0x80) \<le> b1 \<and> b1 \<le> (if b0 = 0xF4 then 0x8F else 0xBF)
                    \<and> cont_byte c2 \<and> cont_byte c3
                 then Some 4 else None)
            | _ \<Rightarrow> None)
         else None)
    | _ \<Rightarrow> None)"

definition utf8_encode :: "nat \<Rightarrow> string" where
  "utf8_encode r =
     (if r < 0x80 then [char_of r]
      else if r < 0x800 then [char_of (0xC0 + r div 0x40), char_of (0x80 + r mod 0x40)]
      else if r < 0x10000 then
        [char_of (0xE0 + r div 0x1000), char_of (0x80 + r div 0x40 mod 0x40), char_of (0x80 + r mod 0x40)]
      else
        [char_of (0xF0 + r div 0x40000), char_of (0x80 + r div 0x1000 mod 0x40),
         char_of (0x80 + r div 0x40 mod 0x40), char_of (0x80 + r mod 0x40)])"

definition rune_error :: string where
  "rune_error = utf8_encode 0xFFFD"

lemma utf8_width_bounds: "utf8_width s = Some n \<Longrightarrow> 2 \<le> n \<and> n \<le> length s"
  by (auto simp: utf8_width_def Let_def split: list.splits if_splits)

lemma utf8_width_append: "utf8_width s = Some n \<Longrightarrow> utf8_width (s @ r) = Some n"
proof -
  assume w: "utf8_width s = Some n"
  then obtain c0 c1 s2 where s: "s = c0 # c1 # s2"
    by (auto simp: utf8_width_def split: list.splits)
  show ?thesis
  proof (cases s2)
    case Nil
    with w show ?thesis by (simp add: s utf8_width_def Let_def split: if_split_asm)
  next
    case s2: (Cons c2 s3)
    show ?thesis
    proof (cases s3)
      case Nil
      with w show ?thesis by (simp add: s s2 utf8_width_def Let_def split: if_split_asm)
    next
      case (Cons c3 s4)
      with w show ?thesis by (simp only: s s2 utf8_width_def Let_def list.case append_Cons)
    qed
  qed
qed

function utf8_ok :: "string \<Rightarrow> bool" where
  "utf8_ok [] = True"
| "utf8_ok (c # s) =
     (if byte_of c < 0x80 then utf8_ok s
      else case utf8_width (c # s) of None \<Rightarrow> False | Some n \<Rightarrow> utf8_ok (drop n (c # s)))"
  by pat_completeness auto
termination by (relation "measure length") (auto dest: utf8_width_bounds)

section \<open>Strings\<close>

definition hex_digit :: "nat \<Rightarrow> char" where
  "hex_digit d = (if d < 10 then char_of (48 + d) else char_of (87 + d))"

definition hex_val :: "char \<Rightarrow> nat option" where
  "hex_val c =
     (let b = byte_of c in
      if 48 \<le> b \<and> b \<le> 57 then Some (b - 48)
      else if 97 \<le> b \<and> b \<le> 102 then Some (b - 87)
      else if 65 \<le> b \<and> b \<le> 70 then Some (b - 55)
      else None)"

definition esc_ascii :: "char \<Rightarrow> string" where
  "esc_ascii c =
     (if c = CHR 0x22 \<or> c = CHR 0x5C then [CHR 0x5C, c]
      else if c = CHR 0x08 then [CHR 0x5C, CHR ''b'']
      else if c = CHR 0x0C then [CHR 0x5C, CHR ''f'']
      else if c = CHR 0x0A then [CHR 0x5C, CHR ''n'']
      else if c = CHR 0x0D then [CHR 0x5C, CHR ''r'']
      else if c = CHR 0x09 then [CHR 0x5C, CHR ''t'']
      else if byte_of c < 0x20 \<or> c = CHR ''<'' \<or> c = CHR ''>'' \<or> c = CHR ''&''
      then [CHR 0x5C, CHR ''u'', CHR ''0'', CHR ''0'', hex_digit (byte_of c div 16), hex_digit (byte_of c mod 16)]
      else [c])"

text \<open>U+2028 and U+2029 are escaped for JavaScript.\<close>

definition esc_rune :: "string \<Rightarrow> string" where
  "esc_rune bs =
     (if bs = [CHR 0xE2, CHR 0x80, CHR 0xA8] then CHR 0x5C # ''u2028''
      else if bs = [CHR 0xE2, CHR 0x80, CHR 0xA9] then CHR 0x5C # ''u2029''
      else bs)"

function esc_string :: "string \<Rightarrow> string" where
  "esc_string [] = []"
| "esc_string (c # s) =
     (if byte_of c < 0x80 then esc_ascii c @ esc_string s
      else case utf8_width (c # s) of
          None \<Rightarrow> CHR 0x5C # ''ufffd'' @ esc_string s
        | Some n \<Rightarrow> esc_rune (take n (c # s)) @ esc_string (drop n (c # s)))"
  by pat_completeness auto
termination by (relation "measure length") (auto dest: utf8_width_bounds)

definition print_string :: "string \<Rightarrow> string" where
  "print_string s = CHR 0x22 # esc_string s @ [CHR 0x22]"

text \<open>\<open>getu4\<close>: a backslash, \<open>u\<close> and four hexadecimal digits.\<close>

definition get_u4 :: "string \<Rightarrow> (nat \<times> string) option" where
  "get_u4 s = (case s of
      b # u # h1 # h2 # h3 # h4 # r \<Rightarrow>
        if b = CHR 0x5C \<and> u = CHR ''u'' then
          (case (hex_val h1, hex_val h2, hex_val h3, hex_val h4) of
             (Some d1, Some d2, Some d3, Some d4) \<Rightarrow> Some (((d1 * 16 + d2) * 16 + d3) * 16 + d4, r)
           | _ \<Rightarrow> None)
        else None
    | _ \<Rightarrow> None)"

lemma get_u4_shorter: "get_u4 s = Some (n, r) \<Longrightarrow> length r < length s"
  by (auto simp: get_u4_def split: list.splits option.splits if_splits)

definition simple_escape :: "char \<Rightarrow> char option" where
  "simple_escape e =
     (if e = CHR 0x22 \<or> e = CHR 0x5C \<or> e = CHR ''/'' then Some e
      else if e = CHR ''b'' then Some (CHR 0x08)
      else if e = CHR ''f'' then Some (CHR 0x0C)
      else if e = CHR ''n'' then Some (CHR 0x0A)
      else if e = CHR ''r'' then Some (CHR 0x0D)
      else if e = CHR ''t'' then Some (CHR 0x09)
      else None)"

text \<open>The text of a \<open>\u\<close> escape and what is left; a surrogate needs its other half.\<close>

definition u_escape :: "string \<Rightarrow> (string \<times> string) option" where
  "u_escape s =
     (case get_u4 s of
        None \<Rightarrow> None
      | Some (r, rest) \<Rightarrow>
          if 0xD800 \<le> r \<and> r < 0xE000 then
            (case get_u4 rest of
               Some (r1, rest1) \<Rightarrow>
                 if r < 0xDC00 \<and> 0xDC00 \<le> r1 \<and> r1 < 0xE000
                 then Some (utf8_encode ((r - 0xD800) * 0x400 + (r1 - 0xDC00) + 0x10000), rest1)
                 else Some (rune_error, rest)
             | None \<Rightarrow> Some (rune_error, rest))
          else Some (utf8_encode r, rest))"

lemma u_escape_shorter: "u_escape s = Some (bs, r) \<Longrightarrow> length r < length s"
  by (auto simp: u_escape_def dest: get_u4_shorter split: option.splits if_splits)
    (meson get_u4_shorter less_trans)+

abbreviation cons_fst :: "string \<Rightarrow> (string \<times> string) option \<Rightarrow> (string \<times> string) option" where
  "cons_fst bs r \<equiv> map_option (\<lambda>(t, rest). (bs @ t, rest)) r"

text \<open>The text after an opening quote: the string and what follows the closing quote.\<close>

function parse_string :: "string \<Rightarrow> (string \<times> string) option" where
  "parse_string [] = None"
| "parse_string (c # s) =
     (if c = CHR 0x22 then Some ([], s)
      else if c = CHR 0x5C then
        (case s of
           [] \<Rightarrow> None
         | e # s' \<Rightarrow>
             if e = CHR ''u'' then
               (case u_escape (c # s) of None \<Rightarrow> None | Some (bs, rest) \<Rightarrow> cons_fst bs (parse_string rest))
             else (case simple_escape e of None \<Rightarrow> None | Some x \<Rightarrow> cons_fst [x] (parse_string s')))
      else if byte_of c < 0x20 then None
      else if byte_of c < 0x80 then cons_fst [c] (parse_string s)
      else (case utf8_width (c # s) of
          None \<Rightarrow> cons_fst rune_error (parse_string s)
        | Some n \<Rightarrow> cons_fst (take n (c # s)) (parse_string (drop n (c # s)))))"
  by pat_completeness auto
termination by (relation "measure length") (auto dest: utf8_width_bounds u_escape_shorter)

lemma utf8_width_take: "utf8_width s = Some n \<Longrightarrow> utf8_width (take n s) = Some n"
proof -
  assume w: "utf8_width s = Some n"
  then obtain c0 c1 s2 where s: "s = c0 # c1 # s2"
    by (auto simp: utf8_width_def split: list.splits)
  show ?thesis
  proof (cases s2)
    case Nil
    with w show ?thesis by (simp add: s utf8_width_def Let_def split: if_split_asm)
  next
    case s2: (Cons c2 s3)
    show ?thesis
    proof (cases s3)
      case Nil
      with w show ?thesis by (simp add: s s2 utf8_width_def Let_def split: if_split_asm)
    next
      case (Cons c3 s4)
      with w show ?thesis by (simp add: s s2 utf8_width_def Let_def split: if_split_asm)
    qed
  qed
qed

declare parse_string.simps(2) [simp del] esc_string.simps(2) [simp del]

lemma hex_val_digit [simp]: "d < 16 \<Longrightarrow> hex_val (hex_digit d) = Some d"
  by (auto simp: hex_val_def hex_digit_def Let_def)

lemma parse_u_escape:
  "parse_string (CHR 0x5C # CHR ''u'' # s) =
     (case u_escape (CHR 0x5C # CHR ''u'' # s) of
        None \<Rightarrow> None | Some (bs, rest) \<Rightarrow> cons_fst bs (parse_string rest))"
  by (simp add: parse_string.simps(2))

lemma get_u4_digits:
  "a < 16 \<Longrightarrow> b < 16 \<Longrightarrow> c < 16 \<Longrightarrow> d < 16 \<Longrightarrow>
   get_u4 (CHR 0x5C # CHR ''u'' # hex_digit a # hex_digit b # hex_digit c # hex_digit d # r) =
     Some (((a * 16 + b) * 16 + c) * 16 + d, r)"
  by (simp add: get_u4_def)

lemma hex_digit_lits: "CHR ''0'' = hex_digit 0" "CHR ''2'' = hex_digit 2" "CHR ''8'' = hex_digit 8"
  "CHR ''9'' = hex_digit 9"
  by (simp_all add: hex_digit_def char_of_def bit_0)

lemma parse_esc_ascii:
  assumes "byte_of c < 0x80"
  shows "parse_string (esc_ascii c @ x) = cons_fst [c] (parse_string x)"
proof -
  have hex: "parse_string (CHR 0x5C # CHR ''u'' # CHR ''0'' # CHR ''0'' # hex_digit (byte_of c div 16)
      # hex_digit (byte_of c mod 16) # x) = cons_fst [c] (parse_string x)"
    unfolding parse_u_escape hex_digit_lits
    using assms by (simp add: u_escape_def get_u4_digits utf8_encode_def)
  show ?thesis
    using assms hex
    by (auto simp: esc_ascii_def parse_string.simps(2) simple_escape_def not_less)
qed

lemma parse_esc_rune:
  assumes "utf8_width (c # s) = Some n" "\<not> byte_of c < 0x80"
  shows "parse_string (esc_rune (take n (c # s)) @ x) = cons_fst (take n (c # s)) (parse_string x)"
proof -
  let ?b = "take n (c # s)"
  consider "?b = [CHR 0xE2, CHR 0x80, CHR 0xA8]" | "?b = [CHR 0xE2, CHR 0x80, CHR 0xA9]" | "esc_rune ?b = ?b"
    unfolding esc_rune_def by metis
  then show ?thesis
  proof cases
    case 1
    have "parse_string (CHR 0x5C # ''u2028'' @ x) = cons_fst [CHR 0xE2, CHR 0x80, CHR 0xA8] (parse_string x)"
      by (simp add: parse_u_escape u_escape_def get_u4_def hex_val_def utf8_encode_def Let_def char_of_def bit_0)
    with 1 show ?thesis by (simp add: esc_rune_def)
  next
    case 2
    have "parse_string (CHR 0x5C # ''u2029'' @ x) = cons_fst [CHR 0xE2, CHR 0x80, CHR 0xA9] (parse_string x)"
      by (simp add: parse_u_escape u_escape_def get_u4_def hex_val_def utf8_encode_def Let_def char_of_def bit_0)
    with 2 show ?thesis by (simp add: esc_rune_def)
  next
    case 3
    from utf8_width_bounds[OF assms(1)] obtain m where n: "n = Suc m" "length ?b = n" by (cases n) auto
    have "utf8_width (?b @ x) = Some n" using utf8_width_append[OF utf8_width_take[OF assms(1)]] .
    moreover have "c \<noteq> CHR 0x22" "c \<noteq> CHR 0x5C" "\<not> byte_of c < 0x20" using assms(2) by auto
    ultimately show ?thesis
      using assms(2) n 3 by (simp add: parse_string.simps(2))
  qed
qed

lemma parse_esc_string:
  "utf8_ok s \<Longrightarrow> parse_string (esc_string s @ CHR 0x22 # rest) = Some (s, rest)"
proof (induction s rule: utf8_ok.induct)
  case 1
  then show ?case by (simp add: parse_string.simps(2))
next
  case (2 c s)
  show ?case
  proof (cases "byte_of c < 0x80")
    case True
    with 2 show ?thesis by (simp add: esc_string.simps(2) parse_esc_ascii)
  next
    case False
    then obtain n where n: "utf8_width (c # s) = Some n" "utf8_ok (drop n (c # s))"
      using 2 by (auto split: option.splits)
    from "2.IH"(2)[OF False n] False n(1) show ?thesis
      by (simp only: esc_string.simps(2) if_False option.case append_assoc parse_esc_rune[OF n(1) False])
        simp
  qed
qed

section \<open>Numbers\<close>

definition is_digit :: "char \<Rightarrow> bool" where
  "is_digit c \<longleftrightarrow> (48::nat) \<le> of_char c \<and> of_char c \<le> (57::nat)"

type_synonym literal = "(string \<times> string) option"

definition num_sign :: "string \<Rightarrow> string \<times> string" where
  "num_sign s = (case s of
      c # s' \<Rightarrow> if c = CHR ''+'' \<or> c = CHR ''-'' then ([c], s') else ([], s)
    | [] \<Rightarrow> ([], s))"

definition num_exp :: "string \<Rightarrow> string \<Rightarrow> literal" where
  "num_exp lit s = (case s of
      e # s1 \<Rightarrow>
        if e = CHR ''e'' \<or> e = CHR ''E'' then
          (let (sg, s2) = num_sign s1;
             ds = takeWhile is_digit s2
           in if ds = [] then None else Some (lit @ e # sg @ ds, dropWhile is_digit s2))
        else Some (lit, s)
    | [] \<Rightarrow> Some (lit, s))"

definition num_frac :: "string \<Rightarrow> string \<Rightarrow> literal" where
  "num_frac lit s = (case s of
      c # s1 \<Rightarrow>
        if c = CHR ''.'' then
          (let ds = takeWhile is_digit s1
           in if ds = [] then None else num_exp (lit @ c # ds) (dropWhile is_digit s1))
        else num_exp lit s
    | [] \<Rightarrow> num_exp lit s)"

definition num_int :: "string \<Rightarrow> string \<Rightarrow> literal" where
  "num_int lit s = (case s of
      c # s1 \<Rightarrow>
        if c = CHR ''0'' then num_frac (lit @ [c]) s1
        else if is_digit c then num_frac (lit @ takeWhile is_digit s) (dropWhile is_digit s)
        else None
    | [] \<Rightarrow> None)"

definition parse_number :: "string \<Rightarrow> literal" where
  "parse_number s = (case s of
      c # s1 \<Rightarrow> if c = CHR ''-'' then num_int [c] s1 else num_int [] s
    | [] \<Rightarrow> None)"

definition valid_number :: "string \<Rightarrow> bool" where
  "valid_number n \<longleftrightarrow> parse_number n = Some (n, [])"

text \<open>What can follow a number: nothing that the literal could go on with.\<close>

definition num_stop :: "string \<Rightarrow> bool" where
  "num_stop r \<longleftrightarrow> (case r of [] \<Rightarrow> True | c # _ \<Rightarrow> \<not> is_digit c \<and> c \<noteq> CHR ''.'' \<and> c \<noteq> CHR ''e'' \<and> c \<noteq> CHR ''E''
     \<and> c \<noteq> CHR ''+'' \<and> c \<noteq> CHR ''-'')"

lemma digits_append:
  assumes "num_stop r"
  shows "takeWhile is_digit (s @ r) = takeWhile is_digit s" "dropWhile is_digit (s @ r) = dropWhile is_digit s @ r"
proof -
  have r: "takeWhile is_digit r = []" "dropWhile is_digit r = r"
    using assms by (cases r, simp_all add: num_stop_def)+
  show "takeWhile is_digit (s @ r) = takeWhile is_digit s"
    by (induction s) (simp_all add: r)
  show "dropWhile is_digit (s @ r) = dropWhile is_digit s @ r"
    by (induction s) (simp_all add: r)
qed

lemma num_exp_append:
  assumes "num_stop r" "num_exp lit s = Some (l, t)"
  shows "num_exp lit (s @ r) = Some (l, t @ r)"
proof (cases s)
  case Nil
  then show ?thesis using assms by (cases r) (auto simp: num_exp_def num_stop_def)
next
  case (Cons e s1)
  show ?thesis
  proof (cases s1)
    case Nil
    then show ?thesis using assms Cons
      by (cases r) (auto simp: num_exp_def num_sign_def num_stop_def split: if_splits)
  next
    case (Cons c s2)
    then show ?thesis using assms \<open>s = e # s1\<close>
      using digits_append[OF assms(1), of "c # s2"] digits_append[OF assms(1), of s2]
      by (auto simp: num_exp_def num_sign_def Let_def split: if_splits)
  qed
qed

lemma num_frac_append:
  assumes "num_stop r" "num_frac lit s = Some (l, t)"
  shows "num_frac lit (s @ r) = Some (l, t @ r)"
proof (cases s)
  case Nil
  then show ?thesis using assms num_exp_append[OF assms(1), of lit "[]" l t]
    by (cases r) (auto simp: num_frac_def num_stop_def)
next
  case (Cons e s1)
  then show ?thesis
    using assms num_exp_append[OF assms(1)] num_exp_append[OF assms(1), of lit "e # s1" l t]
      digits_append[OF assms(1), of s1]
    by (auto simp: num_frac_def Let_def split: if_splits)
qed

lemma parse_number_append:
  assumes "num_stop r" "parse_number s = Some (l, t)"
  shows "parse_number (s @ r) = Some (l, t @ r)"
proof -
  have int: "num_int lit (s @ r) = Some (l, t @ r)" if "num_int lit s = Some (l, t)" for lit s
    using that num_frac_append[OF assms(1)] digits_append[OF assms(1), of s]
    by (cases s) (auto simp: num_int_def split: if_splits)
  show ?thesis
  proof (cases s)
    case Nil
    then show ?thesis using assms(2) by (simp add: parse_number_def)
  next
    case (Cons c s1)
    then show ?thesis using assms(2) int[of "[]" "c # s1"] int[of "[c]" s1]
      by (auto simp: parse_number_def split: if_splits)
  qed
qed

lemma dropWhile_length: "length (dropWhile P s) \<le> length s"
  by (induction s) auto

lemma num_exp_length: "num_exp lit s = Some (l, t) \<Longrightarrow> length t \<le> length s"
  using dropWhile_length[of is_digit]
  by (auto simp: num_exp_def num_sign_def Let_def split: list.splits if_splits) (meson le_SucI le_trans)+

lemma num_frac_length: "num_frac lit s = Some (l, t) \<Longrightarrow> length t \<le> length s"
  using dropWhile_length[of is_digit]
  by (auto simp: num_frac_def Let_def split: list.splits if_splits dest!: num_exp_length)
    (meson le_SucI le_trans)+

lemma num_int_length: "num_int lit s = Some (l, t) \<Longrightarrow> length t < length s"
  using dropWhile_length[of is_digit]
  by (auto simp: num_int_def Let_def split: list.splits if_splits dest!: num_frac_length)
    (meson le_imp_less_Suc le_trans)+

lemma parse_number_length: "parse_number s = Some (l, t) \<Longrightarrow> length t < length s"
  by (auto simp: parse_number_def dest!: num_int_length split: list.splits if_splits)

section \<open>Documents\<close>

definition is_space :: "char \<Rightarrow> bool" where
  "is_space c \<longleftrightarrow> c = CHR '' '' \<or> c = CHR 0x09 \<or> c = CHR 0x0A \<or> c = CHR 0x0D"

abbreviation skip_ws :: "string \<Rightarrow> string" where
  "skip_ws s \<equiv> dropWhile is_space s"

definition maxNestingDepth :: nat where
  "maxNestingDepth = 10000"

text \<open>The keywords.\<close>

definition parse_keyword :: "string \<Rightarrow> (json \<times> string) option" where
  "parse_keyword s =
     (if take 4 s = ''true'' then Some (JBool True, drop 4 s)
      else if take 5 s = ''false'' then Some (JBool False, drop 5 s)
      else if take 4 s = ''null'' then Some (JNull, drop 4 s)
      else None)"

text \<open>
  One value, without leading space; the elements of an array and the members of an object up
  to the closing bracket. \<open>d\<close> is the nesting that is left. The fuel bounds the calls in
  progress; two calls at most read the same byte, so twice the length of the text is enough
  (\<open>parse_enough\<close>).
\<close>

fun parse_value :: "nat \<Rightarrow> nat \<Rightarrow> string \<Rightarrow> (json \<times> string) option"
  and parse_elems :: "nat \<Rightarrow> nat \<Rightarrow> json list \<Rightarrow> string \<Rightarrow> (json \<times> string) option"
  and parse_members :: "nat \<Rightarrow> nat \<Rightarrow> (string, json) gomap \<Rightarrow> string \<Rightarrow> (json \<times> string) option" where
  "parse_value 0 d s = None"
| "parse_value (Suc n) d [] = None"
| "parse_value (Suc n) d (c # s) =
     (if c = CHR 0x22 then map_option (\<lambda>(t, r). (JStr t, r)) (parse_string s)
      else if c = CHR ''{'' then
        (if d = 0 then None
         else (case skip_ws s of
             [] \<Rightarrow> None
           | e # r \<Rightarrow> if e = CHR ''}'' then Some (JObj [], r) else parse_members n (d - 1) [] (e # r)))
      else if c = CHR ''['' then
        (if d = 0 then None
         else (case skip_ws s of
             [] \<Rightarrow> None
           | e # r \<Rightarrow> if e = CHR '']'' then Some (JArr [], r) else parse_elems n (d - 1) [] (e # r)))
      else if c = CHR ''t'' \<or> c = CHR ''f'' \<or> c = CHR ''n'' then parse_keyword (c # s)
      else map_option (\<lambda>(l, r). (JNum l, r)) (parse_number (c # s)))"
| "parse_elems 0 d acc s = None"
| "parse_elems (Suc n) d acc s =
     (case parse_value n d (skip_ws s) of
        None \<Rightarrow> None
      | Some (v, r) \<Rightarrow>
          (case skip_ws r of
             [] \<Rightarrow> None
           | c # r' \<Rightarrow>
               if c = CHR '','' then parse_elems n d (acc @ [v]) r'
               else if c = CHR '']'' then Some (JArr (acc @ [v]), r')
               else None))"
| "parse_members 0 d acc s = None"
| "parse_members (Suc n) d acc s =
     (case skip_ws s of
        [] \<Rightarrow> None
      | q # s1 \<Rightarrow>
          if q \<noteq> CHR 0x22 then None
          else (case parse_string s1 of
              None \<Rightarrow> None
            | Some (k, s2) \<Rightarrow>
                (case skip_ws s2 of
                   [] \<Rightarrow> None
                 | col # s3 \<Rightarrow>
                     if col \<noteq> CHR '':'' then None
                     else (case parse_value n d (skip_ws s3) of
                         None \<Rightarrow> None
                       | Some (v, r) \<Rightarrow>
                           (case skip_ws r of
                              [] \<Rightarrow> None
                            | c # r' \<Rightarrow>
                                if c = CHR '','' then parse_members n d (mput k v acc) r'
                                else if c = CHR ''}'' then Some (JObj (mput k v acc), r')
                                else None)))))"

text \<open>\<open>dec.More()\<close> after the value: more data, unless the next byte is a closing bracket.\<close>

definition json_decode :: "string \<Rightarrow> json option" where
  "json_decode s =
     (case parse_value (Suc (2 * length s)) maxNestingDepth (skip_ws s) of
        None \<Rightarrow> None
      | Some (v, rest) \<Rightarrow>
          (case skip_ws rest of
             [] \<Rightarrow> Some v
           | c # _ \<Rightarrow> if c \<noteq> CHR '']'' \<and> c \<noteq> CHR ''}'' then None else Some v))"

text \<open>\<open>Marshal\<close>: an empty number literal prints as zero, an invalid one is an error.\<close>

definition number_text :: "string \<Rightarrow> string" where
  "number_text n = (if n = [] then ''0'' else n)"

fun nums_ok :: "json \<Rightarrow> bool" where
  "nums_ok (JNum n) = valid_number (number_text n)"
| "nums_ok (JArr xs) = list_all nums_ok xs"
| "nums_ok (JObj m) = list_all (\<lambda>kv. nums_ok (snd kv)) m"
| "nums_ok _ = True"

fun join_comma :: "string list \<Rightarrow> string" where
  "join_comma [] = []"
| "join_comma [x] = x"
| "join_comma (x # y # xs) = x @ CHR '','' # join_comma (y # xs)"

fun json_text :: "json \<Rightarrow> string" where
  "json_text JNull = ''null''"
| "json_text (JBool b) = (if b then ''true'' else ''false'')"
| "json_text (JNum n) = number_text n"
| "json_text (JStr s) = print_string s"
| "json_text (JArr xs) = CHR ''['' # join_comma (map json_text xs) @ '']''"
| "json_text (JObj m) =
     CHR ''{'' # join_comma (map (\<lambda>kv. print_string (fst kv) @ CHR '':'' # json_text (snd kv)) m) @ ''}''"

definition json_encode :: "json \<Rightarrow> string option" where
  "json_encode v = (if nums_ok v then Some (json_text (canon v)) else None)"

section \<open>What was written reads back\<close>

text \<open>Documents that the reader can produce: valid UTF-8, valid numbers, distinct keys, and
  at most \<open>d\<close> nested containers.\<close>

fun json_good :: "nat \<Rightarrow> json \<Rightarrow> bool" where
  "json_good d (JNum n) = valid_number n"
| "json_good d (JStr s) = utf8_ok s"
| "json_good d (JArr xs) = (0 < d \<and> list_all (json_good (d - 1)) xs)"
| "json_good d (JObj m) = (0 < d \<and> mwf m \<and> list_all (\<lambda>kv. utf8_ok (fst kv) \<and> json_good (d - 1) (snd kv)) m)"
| "json_good d _ = True"

lemma json_good_wf: "json_good d v \<Longrightarrow> json_wf v"
  by (induction d v rule: json_good.induct) (auto simp: list_all_iff json_wf.simps)

definition value_end :: "string \<Rightarrow> bool" where
  "value_end r \<longleftrightarrow> (case r of [] \<Rightarrow> True | c # _ \<Rightarrow> c = CHR '','' \<or> c = CHR '']'' \<or> c = CHR ''}'')"

lemma value_end_num_stop: "value_end r \<Longrightarrow> num_stop r"
  by (auto simp: value_end_def num_stop_def is_digit_def split: list.splits)

lemma valid_number_Cons: "valid_number n \<Longrightarrow> \<exists>c t. n = c # t \<and> (c = CHR ''-'' \<or> is_digit c)"
  by (cases n) (auto simp: valid_number_def parse_number_def num_int_def is_digit_def split: if_splits)

definition value_start :: "char \<Rightarrow> bool" where
  "value_start c \<longleftrightarrow> \<not> is_space c \<and> c \<noteq> CHR '']'' \<and> c \<noteq> CHR ''}''"

lemma text_start: "json_good d v \<Longrightarrow> \<exists>c t. json_text v = c # t \<and> value_start c"
proof (cases v)
  case (JNum n)
  moreover assume "json_good d v"
  ultimately obtain c t where "n = c # t" "c = CHR ''-'' \<or> is_digit c" using valid_number_Cons[of n] by auto
  then show ?thesis using JNum by (auto simp: number_text_def value_start_def is_space_def is_digit_def)
qed (auto simp: value_start_def is_space_def print_string_def)

lemma text_skip: "json_good d v \<Longrightarrow> skip_ws (json_text v @ r) = json_text v @ r"
  using text_start[of d v] by (auto simp: value_start_def)

lemma parse_number_text:
  assumes "valid_number n" "value_end r"
  shows "parse_value (Suc k) d (n @ r) = Some (JNum n, r)"
proof -
  obtain c t where n: "n = c # t" "c = CHR ''-'' \<or> is_digit c" using valid_number_Cons[OF assms(1)] by blast
  have "parse_number (c # t @ r) = Some (c # t, r)"
    using parse_number_append[OF value_end_num_stop[OF assms(2)], of n n "[]"] assms(1)
    by (simp add: valid_number_def n(1))
  moreover have "c \<noteq> CHR 0x22 \<and> c \<noteq> CHR ''{'' \<and> c \<noteq> CHR ''['' \<and> c \<noteq> CHR ''t'' \<and> c \<noteq> CHR ''f'' \<and> c \<noteq> CHR ''n''"
    using n(2) by (auto simp: is_digit_def)
  ultimately show ?thesis by (simp add: n(1))
qed

lemma parse_elems_text:
  assumes "vs \<noteq> []" "length (join_comma (map json_text vs)) < n" "list_all (json_good d) vs"
    and "\<And>v n r. v \<in> set vs \<Longrightarrow> value_end r \<Longrightarrow> length (json_text v) \<le> n \<Longrightarrow>
      parse_value n d (json_text v @ r) = Some (v, r)"
  shows "parse_elems n d acc (join_comma (map json_text vs) @ CHR '']'' # rest) = Some (JArr (acc @ vs), rest)"
  using assms
proof (induction vs arbitrary: n acc)
  case (Cons v vs)
  then obtain m where n: "n = Suc m" by (cases n) auto
  have good: "json_good d v" using Cons.prems(3) by simp
  show ?case
  proof (cases vs)
    case Nil
    have "parse_value m d (json_text v @ CHR '']'' # rest) = Some (v, CHR '']'' # rest)"
      using Cons.prems n Nil by (intro Cons.prems(4)) (auto simp: value_end_def)
    then show ?thesis by (simp add: n Nil text_skip[OF good] is_space_def)
  next
    case (Cons w ws)
    let ?r = "join_comma (map json_text vs) @ CHR '']'' # rest"
    have "parse_value m d (json_text v @ CHR '','' # ?r) = Some (v, CHR '','' # ?r)"
      using Cons.prems n Cons by (intro Cons.prems(4)) (auto simp: value_end_def)
    moreover have "parse_elems m d (acc @ [v]) ?r = Some (JArr ((acc @ [v]) @ vs), rest)"
      using Cons.prems n Cons by (intro Cons.IH) auto
    ultimately show ?thesis using Cons by (simp add: n text_skip[OF good] is_space_def)
  qed
qed simp

abbreviation member_text :: "string \<times> json \<Rightarrow> string" where
  "member_text kv \<equiv> print_string (fst kv) @ CHR '':'' # json_text (snd kv)"

lemma mput_new: "mget m k = None \<Longrightarrow> mput k v m = m @ [(k, v)]"
  unfolding mput_def mget_def by (induction m) (auto split: if_splits)

lemma parse_members_text:
  assumes "m \<noteq> []" "length (join_comma (map member_text m)) < n" "mwf (acc @ m)"
    and "list_all (\<lambda>kv. utf8_ok (fst kv) \<and> json_good d (snd kv)) m"
    and "\<And>k v n r. (k, v) \<in> set m \<Longrightarrow> value_end r \<Longrightarrow> length (json_text v) \<le> n \<Longrightarrow>
      parse_value n d (json_text v @ r) = Some (v, r)"
  shows "parse_members n d acc (join_comma (map member_text m) @ CHR ''}'' # rest) = Some (JObj (acc @ m), rest)"
  using assms
proof (induction m arbitrary: n acc)
  case (Cons x m)
  then obtain j where n: "n = Suc j" by (cases n) auto
  obtain k v where x: "x = (k, v)" by (cases x)
  have good: "utf8_ok k" "json_good d v" using Cons.prems(4) by (simp_all add: x)
  have "mget acc k = None" using Cons.prems(3) by (auto simp: mwf_def x mget_None_iff)
  note put = mput_new[OF this, of v]
  have key: "parse_string (esc_string k @ CHR 0x22 # y) = Some (k, y)" for y
    by (rule parse_esc_string[OF good(1)])
  show ?case
  proof (cases m)
    case Nil
    have "parse_value j d (json_text v @ CHR ''}'' # rest) = Some (v, CHR ''}'' # rest)"
      using Cons.prems(2) n Nil by (intro Cons.prems(5)) (auto simp: value_end_def x)
    then show ?thesis
      by (simp add: n Nil x text_skip[OF good(2)] is_space_def print_string_def key put)
  next
    case (Cons y ys)
    let ?r = "join_comma (map member_text m) @ CHR ''}'' # rest"
    have "parse_value j d (json_text v @ CHR '','' # ?r) = Some (v, CHR '','' # ?r)"
      using Cons.prems(2) n Cons by (intro Cons.prems(5)) (auto simp: value_end_def x)
    moreover have "parse_members j d (acc @ [(k, v)]) ?r = Some (JObj ((acc @ [(k, v)]) @ m), rest)"
      using Cons.prems n Cons x by (intro Cons.IH) auto
    ultimately show ?thesis using Cons
      by (simp add: n x text_skip[OF good(2)] is_space_def print_string_def key put)
  qed
qed simp

lemma value_start_skip: "s = c # t \<Longrightarrow> value_start c \<Longrightarrow> skip_ws (s @ r) = c # t @ r"
  by (simp add: value_start_def)

lemma join_comma_start:
  "xs \<noteq> [] \<Longrightarrow> hd xs = c # t \<Longrightarrow> \<exists>t'. join_comma xs = c # t'"
  by (induction xs rule: join_comma.induct) auto

lemma parse_value_text:
  "json_good d v \<Longrightarrow> value_end r \<Longrightarrow> length (json_text v) \<le> n \<Longrightarrow>
   parse_value n d (json_text v @ r) = Some (v, r)"
proof (induction "size v" arbitrary: v d n r rule: less_induct)
  case less
  have "json_text v \<noteq> []" using text_start[OF less.prems(1)] by auto
  then obtain k where n: "n = Suc k" using less.prems(3) by (cases n) auto
  show ?case
  proof (cases v)
    case (JNum l)
    then show ?thesis
      using parse_number_text[of l r k d] less.prems valid_number_Cons[of l] by (auto simp: n number_text_def)
  next
    case (JStr s)
    then show ?thesis
      using less.prems(1) by (simp add: n print_string_def parse_esc_string)
  next
    case (JArr xs)
    show ?thesis
    proof (cases xs)
      case Nil
      then show ?thesis using less.prems(1) by (simp add: n JArr is_space_def)
    next
      case (Cons x ys)
      let ?j = "join_comma (map json_text xs)"
      have good: "list_all (json_good (d - 1)) xs" "0 < d" using less.prems(1) by (simp_all add: JArr)
      obtain c t where ct: "json_text x = c # t" "value_start c"
        using text_start[of "d - 1" x] good(1) Cons by auto
      then obtain t' where j: "?j = c # t'" using join_comma_start[of "map json_text xs" c t] Cons by auto
      have "parse_elems k (d - 1) [] (?j @ CHR '']'' # r) = Some (JArr ([] @ xs), r)"
      proof (rule parse_elems_text[OF _ _ good(1)])
        show "parse_value n (d - 1) (json_text y @ r) = Some (y, r)"
          if "y \<in> set xs" "value_end r" "length (json_text y) \<le> n" for y n r
          using that good(1) by (intro less.hyps) (auto simp: JArr list_all_iff size_list_estimation' less_Suc_eq_le)
      qed (use Cons less.prems(3) n in \<open>auto simp: JArr\<close>)
      then show ?thesis
        using good(2) ct(2) j by (simp add: n JArr value_start_def)
    qed
  next
    case (JObj m)
    show ?thesis
    proof (cases m)
      case Nil
      then show ?thesis using less.prems(1) by (simp add: n JObj is_space_def)
    next
      case (Cons x ys)
      let ?j = "join_comma (map member_text m)"
      have good: "list_all (\<lambda>kv. utf8_ok (fst kv) \<and> json_good (d - 1) (snd kv)) m" "0 < d" "mwf m"
        using less.prems(1) by (simp_all add: JObj)
      obtain t' where j: "?j = CHR 0x22 # t'"
        using join_comma_start[of "map member_text m" "CHR 0x22"] Cons by (auto simp: print_string_def)
      have "parse_members k (d - 1) [] (?j @ CHR ''}'' # r) = Some (JObj ([] @ m), r)"
      proof (rule parse_members_text[OF _ _ _ good(1)])
        show "parse_value n (d - 1) (json_text y @ r) = Some (y, r)"
          if "(x, y) \<in> set m" "value_end r" "length (json_text y) \<le> n" for x y n r
          using that good(1) by (intro less.hyps) (auto simp: JObj list_all_iff size_list_estimation' less_Suc_eq_le)
      qed (use Cons less.prems(3) n good(3) in \<open>auto simp: JObj\<close>)
      then show ?thesis
        using good(2) j by (simp add: n JObj is_space_def)
    qed
  qed (use n in \<open>auto simp: parse_keyword_def\<close>)
qed

text \<open>Canonical documents are good when the document is.\<close>

lemma json_good_canon: "json_good d v \<Longrightarrow> json_good d (canon v)"
proof (induction d v rule: json_good.induct)
  case (4 d m)
  then show ?case by (auto simp: list_all_iff mwf_def distinct_map comp_def inj_on_def)
qed (auto simp: list_all_iff)

lemma json_good_nums: "json_good d v \<Longrightarrow> nums_ok v"
  by (induction d v rule: json_good.induct)
    (auto simp: list_all_iff number_text_def valid_number_def parse_number_def)

lemma canon_canon [simp]: "canon (canon v) = canon v"
proof (induction v rule: canon.induct)
  case (2 m)
  have "map (\<lambda>kv. (fst kv, canon (snd kv))) (sort_key fst (map (\<lambda>kv. (fst kv, canon (snd kv))) m)) =
      sort_key fst (map (\<lambda>kv. (fst kv, canon (snd kv))) m)"
    using 2 by (intro map_idI) auto
  then show ?case by (simp add: sort_key_id_if_sorted)
qed auto

text \<open>\<open>encode\<close> then \<open>decode\<close> is the identity up to the order of the keys: the text of a
  document with valid UTF-8 strings, valid numbers and at most 10000 nested containers reads
  back as the document with its keys sorted, whatever escapes the encoder chose.\<close>

theorem json_encode_decode:
  assumes "json_good maxNestingDepth v"
  shows "\<exists>text. json_encode v = Some text \<and> json_decode text = Some (canon v)"
proof -
  note good = json_good_canon[OF assms]
  have "parse_value (Suc (2 * length (json_text (canon v)))) maxNestingDepth (json_text (canon v) @ []) = Some (canon v, [])"
    by (rule parse_value_text[OF good]) (simp_all add: value_end_def)
  then have "json_decode (json_text (canon v)) = Some (canon v)"
    using text_skip[OF good, of "[]"] by (simp add: json_decode_def)
  then show ?thesis using json_good_nums[OF assms] by (simp add: json_encode_def)
qed

theorem json_encode_decode_witness:
  "\<exists>text. json_encode (JObj [(''b'', JStr ''<x>''), (''a'', JArr [JNum ''-1.5e3'', JNull])]) = Some text \<and>
    json_decode text = Some (JObj [(''a'', JArr [JNum ''-1.5e3'', JNull]), (''b'', JStr ''<x>'')])"
proof -
  have num: "valid_number ''-1.5e3''"
    by (simp add: valid_number_def parse_number_def num_int_def num_frac_def num_exp_def num_sign_def is_digit_def)
  have "json_good maxNestingDepth (JObj [(''b'', JStr ''<x>''), (''a'', JArr [JNum ''-1.5e3'', JNull])])"
    using num by (simp add: mwf_def maxNestingDepth_def)
  from json_encode_decode[OF this] show ?thesis by (simp add: less_eq_char_def)
qed

section \<open>What the reader accepts\<close>


lemma utf8_ok_encode:
  assumes "r < 0xD800 \<or> 0xE000 \<le> r" "r < 0x110000"
  shows "utf8_ok (utf8_encode r @ s) = utf8_ok s"
proof -
  consider "r < 0x80" | "0x80 \<le> r" "r < 0x800" | "0x800 \<le> r" "r < 0x10000" | "0x10000 \<le> r" by linarith
  then show ?thesis
  proof cases
    case 1
    then show ?thesis by (simp add: utf8_encode_def)
  next
    case 2
    then have "2 \<le> r div 0x40" "r div 0x40 < 32" "r mod 0x40 \<le> 63" by auto
    then show ?thesis using 2 by (simp add: utf8_encode_def utf8_width_def cont_byte_def Let_def)
  next
    case 3
    define a b c where "a = r div 0x1000" "b = r div 0x40 mod 0x40" "c = r mod 0x40"
    have "r = (r div 0x40) * 0x40 + r mod 0x40" "r div 0x40 = (r div 0x40 div 0x40) * 0x40 + r div 0x40 mod 0x40"
      by simp_all
    moreover have "r div 0x1000 = r div 0x40 div 0x40" by (simp flip: div_mult2_eq)
    ultimately have r: "r = a * 0x1000 + b * 0x40 + c" unfolding a_b_c_def by linarith
    have "a < 16" "b < 64" "c < 64" using 3 unfolding a_b_c_def by simp_all
    note r = r this
    then have "a = 0 \<longrightarrow> 0x20 \<le> b" "a = 0xD \<longrightarrow> b < 0x20" using 3 assms by auto
    moreover have "(0xE0 + a) mod 256 = 0xE0 + a" "(0x80 + b) mod 256 = 0x80 + b" "(0x80 + c) mod 256 = 0x80 + c"
      using r by simp_all
    moreover have "utf8_encode r = [char_of (0xE0 + a), char_of (0x80 + b), char_of (0x80 + c)]"
      using 3 by (simp add: utf8_encode_def a_b_c_def)
    ultimately show ?thesis using r(2-4)
      by (simp add: utf8_width_def cont_byte_def Let_def) linarith?
  next
    case 4
    define a b c d where "a = r div 0x40000" "b = r div 0x1000 mod 0x40" "c = r div 0x40 mod 0x40" "d = r mod 0x40"
    have "r = (r div 0x40) * 0x40 + r mod 0x40" "r div 0x40 = (r div 0x40 div 0x40) * 0x40 + r div 0x40 mod 0x40"
      "r div 0x40 div 0x40 = (r div 0x40 div 0x40 div 0x40) * 0x40 + r div 0x40 div 0x40 mod 0x40"
      by simp_all
    moreover have e: "r div 0x1000 = r div 0x40 div 0x40" "r div 0x40000 = r div 0x40 div 0x40 div 0x40"
      by (simp_all flip: div_mult2_eq)
    ultimately have r: "r = a * 0x40000 + b * 0x1000 + c * 0x40 + d" unfolding a_b_c_d_def e by linarith
    have "a < 5" "b < 64" "c < 64" "d < 64" using 4 assms(2) unfolding a_b_c_d_def by simp_all
    note r = r this
    then have "a = 0 \<longrightarrow> 0x10 \<le> b" "a = 4 \<longrightarrow> b < 0x10" using 4 assms by auto
    moreover have "(0xF0 + a) mod 256 = 0xF0 + a" "(0x80 + b) mod 256 = 0x80 + b" "(0x80 + c) mod 256 = 0x80 + c" "(0x80 + d) mod 256 = 0x80 + d"
      using r by simp_all
    moreover have "utf8_encode r = [char_of (0xF0 + a), char_of (0x80 + b), char_of (0x80 + c), char_of (0x80 + d)]"
      using 4 by (simp add: utf8_encode_def a_b_c_d_def)
    ultimately show ?thesis using r(2-5)
      by (simp add: utf8_width_def cont_byte_def Let_def) linarith?
  qed
qed

lemma digits_split:
  assumes "\<forall>c\<in>set ds. is_digit c" "x = [] \<or> \<not> is_digit (hd x)"
  shows "takeWhile is_digit (ds @ x) = ds" "dropWhile is_digit (ds @ x) = x"
proof -
  have x: "takeWhile is_digit x = []" "dropWhile is_digit x = x"
    using assms(2) by (cases x, simp_all)+
  show "takeWhile is_digit (ds @ x) = ds" "dropWhile is_digit (ds @ x) = x"
    using assms(1) by (induction ds) (simp_all add: x)
qed

lemma digits_taken: "\<forall>c\<in>set (takeWhile is_digit s). is_digit c"
  by (auto dest: set_takeWhileD)

lemma digits_rest: "dropWhile is_digit s = x @ r \<Longrightarrow> x = [] \<or> \<not> is_digit (hd x)"
  using hd_dropWhile[of is_digit s] by (cases x) auto

lemma num_sign_cases:
  "num_sign s = (sg, t) \<Longrightarrow> s = sg @ t \<and> (sg = ''+'' \<or> sg = ''-'' \<or> sg = [] \<and> num_sign t = ([], t))"
  by (cases s) (auto simp: num_sign_def split: if_splits)

lemma num_sign_digits: "is_digit c \<Longrightarrow> num_sign (c # t) = ([], c # t)"
  by (auto simp: num_sign_def is_digit_def)

lemma num_exp_lit: "num_exp lit s = Some (l, r) \<Longrightarrow> \<exists>x. l = lit @ x \<and> s = x @ r \<and> num_exp lit x = Some (l, [])"
proof (cases s)
  case (Cons e s1)
  assume a: "num_exp lit s = Some (l, r)"
  show ?thesis
  proof (cases "e = CHR ''e'' \<or> e = CHR ''E''")
    case True
    obtain sg s2 where sn: "num_sign s1 = (sg, s2)" by (cases "num_sign s1")
    let ?ds = "takeWhile is_digit s2"
    have l: "?ds \<noteq> []" "l = lit @ e # sg @ ?ds" "r = dropWhile is_digit s2"
      using a True sn by (auto simp: Cons num_exp_def Let_def split: if_splits)
    obtain x xs where ds: "?ds = x # xs" "is_digit x" using l(1) digits_taken[of s2] by (cases "?ds") auto
    have s2: "s1 = sg @ s2" and sg: "num_sign (sg @ ?ds) = (sg, ?ds)"
      using num_sign_cases[OF sn] num_sign_digits[OF ds(2), of xs] unfolding ds(1) by (auto simp: num_sign_def)
    have d: "takeWhile is_digit ?ds = ?ds" "dropWhile is_digit ?ds = []"
      using digits_split[OF digits_taken[of s2], of "[]"] by simp_all
    have "num_exp lit (e # sg @ ?ds) = Some (l, [])"
      using True l d sg by (simp add: num_exp_def Let_def)
    then show ?thesis using l s2 Cons by (intro exI[of _ "e # sg @ ?ds"]) simp
  qed (use a Cons in \<open>auto simp: num_exp_def\<close>)
qed (auto simp: num_exp_def)


lemma num_frac_lit: "num_frac lit s = Some (l, r) \<Longrightarrow> \<exists>x. l = lit @ x \<and> s = x @ r \<and> num_frac lit x = Some (l, [])"
proof (cases s)
  case Nil
  assume "num_frac lit s = Some (l, r)"
  then show ?thesis using Nil by (auto simp: num_frac_def num_exp_def)
next
  case (Cons c s1)
  assume a: "num_frac lit s = Some (l, r)"
  show ?thesis
  proof (cases "c = CHR ''.''")
    case True
    let ?ds = "takeWhile is_digit s1"
    have ne: "?ds \<noteq> []" "num_exp (lit @ c # ?ds) (dropWhile is_digit s1) = Some (l, r)"
      using a True by (auto simp: Cons num_frac_def Let_def split: if_splits)
    from num_exp_lit[OF ne(2)] obtain x where x: "l = (lit @ c # ?ds) @ x" "dropWhile is_digit s1 = x @ r"
        "num_exp (lit @ c # ?ds) x = Some (l, [])" by blast
    note d = digits_split[OF digits_taken digits_rest[OF x(2)]]
    have "num_frac lit (c # ?ds @ x) = Some (l, [])" using True ne(1) x(3) d by (simp add: num_frac_def)
    moreover have "s = (c # ?ds @ x) @ r" using Cons x(2) by (metis append_Cons append_assoc takeWhile_dropWhile_id)
    ultimately show ?thesis using x(1) by (intro exI[of _ "c # ?ds @ x"]) simp
  next
    case False
    then have "num_exp lit s = Some (l, r)" using a by (simp add: Cons num_frac_def)
    from num_exp_lit[OF this] obtain x where x: "l = lit @ x" "s = x @ r" "num_exp lit x = Some (l, [])" by blast
    moreover have "num_frac lit x = num_exp lit x" using False x(2) Cons by (cases x) (auto simp: num_frac_def)
    ultimately show ?thesis by auto
  qed
qed

lemma num_int_lit: "num_int lit s = Some (l, r) \<Longrightarrow> \<exists>x. l = lit @ x \<and> s = x @ r \<and> num_int lit x = Some (l, [])"
proof (cases s)
  case (Cons c s1)
  assume a: "num_int lit s = Some (l, r)"
  show ?thesis
  proof (cases "c = CHR ''0''")
    case True
    then have "num_frac (lit @ [c]) s1 = Some (l, r)" using a by (simp add: Cons num_int_def)
    from num_frac_lit[OF this] obtain x where "l = (lit @ [c]) @ x" "s1 = x @ r" "num_frac (lit @ [c]) x = Some (l, [])" by blast
    then show ?thesis using True Cons by (intro exI[of _ "c # x"]) (simp add: num_int_def)
  next
    case False
    let ?ds = "takeWhile is_digit s"
    have dig: "is_digit c" "num_frac (lit @ ?ds) (dropWhile is_digit s) = Some (l, r)"
      using a False by (auto simp: Cons num_int_def split: if_splits)
    from num_frac_lit[OF dig(2)] obtain x where x: "l = (lit @ ?ds) @ x" "dropWhile is_digit s = x @ r"
        "num_frac (lit @ ?ds) x = Some (l, [])" by blast
    note d = digits_split[OF digits_taken digits_rest[OF x(2)]]
    have "num_int lit (?ds @ x) = Some (l, [])" using False dig(1) x(3) d by (simp add: num_int_def Cons)
    moreover have "s = (?ds @ x) @ r" using x(2) by (metis append_assoc takeWhile_dropWhile_id)
    ultimately show ?thesis using x(1) by (intro exI[of _ "?ds @ x"]) simp
  qed
qed (simp add: num_int_def)

lemma parse_number_valid: "parse_number s = Some (l, r) \<Longrightarrow> valid_number l \<and> s = l @ r"
proof (cases s)
  case (Cons c s1)
  assume a: "parse_number s = Some (l, r)"
  show ?thesis
  proof (cases "c = CHR ''-''")
    case True
    then have "num_int [c] s1 = Some (l, r)" using a by (simp add: Cons parse_number_def)
    from num_int_lit[OF this] True show ?thesis by (auto simp: Cons valid_number_def parse_number_def)
  next
    case False
    then have "num_int [] s = Some (l, r)" using a by (simp add: Cons parse_number_def)
    from num_int_lit[OF this] have "s = l @ r" "num_int [] l = Some (l, [])" by auto
    with False show ?thesis using Cons
      by (cases l) (auto simp: valid_number_def parse_number_def num_int_def)
  qed
qed (simp add: parse_number_def)


lemma utf8_ok_take: "utf8_width (c # s) = Some n \<Longrightarrow> \<not> byte_of c < 0x80 \<Longrightarrow> utf8_ok (take n (c # s) @ t) = utf8_ok t"
proof -
  assume w: "utf8_width (c # s) = Some n" "\<not> byte_of c < 0x80"
  obtain m where n: "n = Suc m" "length (take n (c # s)) = n" using utf8_width_bounds[OF w(1)] by (cases n) auto
  have "utf8_width (take n (c # s) @ t) = Some n" using utf8_width_append[OF utf8_width_take[OF w(1)]] .
  with w(2) n show ?thesis by simp
qed

lemma hex_val_bound: "hex_val c = Some d \<Longrightarrow> d < 16"
  by (auto simp: hex_val_def Let_def split: if_splits)

lemma get_u4_bound: "get_u4 s = Some (r, t) \<Longrightarrow> r < 0x10000"
  by (auto simp: get_u4_def split: list.splits option.splits if_splits dest!: hex_val_bound)

lemma u_escape_ok: "u_escape s = Some (bs, r) \<Longrightarrow> utf8_ok (bs @ t) = utf8_ok t"
  by (auto simp: u_escape_def rune_error_def utf8_ok_encode split: option.splits if_splits
      dest!: get_u4_bound intro!: utf8_ok_encode)

lemma simple_escape_ascii: "simple_escape e = Some x \<Longrightarrow> byte_of x < 0x80"
  by (auto simp: simple_escape_def split: if_splits)

lemma parse_string_good: "parse_string s = Some (t, r) \<Longrightarrow> utf8_ok t \<and> length r < length s"
proof (induction s arbitrary: t r rule: parse_string.induct)
  case (2 c s)
  show ?case
  proof (cases "c = CHR 0x22")
    case True
    then show ?thesis using "2.prems" by (simp add: parse_string.simps(2))
  next
    case nq: False
    show ?thesis
    proof (cases "c = CHR 0x5C")
      case bs: True
      then obtain e s' where s: "s = e # s'" using "2.prems" by (cases s) (auto simp: parse_string.simps(2))
      show ?thesis
      proof (cases "e = CHR ''u''")
        case True
        then obtain b r0 where u: "u_escape (c # s) = Some (b, r0)"
          using "2.prems" bs s by (auto simp: parse_string.simps(2) split: option.splits)
        obtain t0 where t0: "parse_string r0 = Some (t0, r)" "t = b @ t0"
          using "2.prems" bs s u True by (auto simp: parse_string.simps(2))
        have "utf8_ok t0 \<and> length r < length r0" by (rule "2.IH"(1)[OF nq bs s True u refl t0(1)])
        then show ?thesis using u_escape_ok[OF u] u_escape_shorter[OF u] t0(2) by auto
      next
        case False
        then obtain x where x: "simple_escape e = Some x"
          using "2.prems" bs s by (auto simp: parse_string.simps(2) split: option.splits)
        obtain t0 where t0: "parse_string s' = Some (t0, r)" "t = x # t0"
          using "2.prems" bs s x False by (auto simp: parse_string.simps(2))
        have "utf8_ok t0 \<and> length r < length s'" by (rule "2.IH"(2)[OF nq bs s False x t0(1)])
        then show ?thesis using simple_escape_ascii[OF x] t0(2) s by auto
      qed
    next
      case nb: False
      have lo: "\<not> byte_of c < 0x20" using "2.prems" nq nb by (auto simp: parse_string.simps(2) split: if_splits)
      show ?thesis
      proof (cases "byte_of c < 0x80")
        case True
        then obtain t0 where t0: "parse_string s = Some (t0, r)" "t = c # t0"
          using "2.prems" nq nb lo by (auto simp: parse_string.simps(2))
        from "2.IH"(3)[OF nq nb lo True t0(1)] t0(2) True show ?thesis by simp
      next
        case hi: False
        show ?thesis
        proof (cases "utf8_width (c # s)")
          case None
          then obtain t0 where t0: "parse_string s = Some (t0, r)" "t = rune_error @ t0"
            using "2.prems" nq nb lo hi by (auto simp: parse_string.simps(2))
          from "2.IH"(4)[OF nq nb lo hi None t0(1)] t0(2) show ?thesis
            by (simp add: rune_error_def utf8_ok_encode)
        next
          case (Some n)
          then obtain t0 where t0: "parse_string (drop n (c # s)) = Some (t0, r)" "t = take n (c # s) @ t0"
            using "2.prems" nq nb lo hi by (auto simp: parse_string.simps(2))
          from "2.IH"(5)[OF nq nb lo hi Some t0(1)] t0(2) utf8_ok_take[OF Some hi] utf8_width_bounds[OF Some]
          show ?thesis by auto
        qed
      qed
    qed
  qed
qed simp

lemma skip_ws_length: "length (skip_ws s) \<le> length s"
  by (rule dropWhile_length)

lemma skip_ws_Cons: "skip_ws s = c # t \<Longrightarrow> length t < length s"
  using skip_ws_length[of s] by simp

lemma parse_keyword_good: "parse_keyword s = Some (v, r) \<Longrightarrow> json_good d v \<and> length r < length s"
proof -
  assume a: "parse_keyword s = Some (v, r)"
  then have "s \<noteq> []" by (auto simp: parse_keyword_def)
  moreover have "\<exists>n. r = drop n s \<and> 0 < n" "json_good d v"
    using a by (auto simp: parse_keyword_def split: if_splits)
  ultimately show ?thesis by auto
qed

lemma parse_good:
  "parse_value n d s = Some (v, r) \<Longrightarrow> json_good d v \<and> length r < length s"
  "parse_elems n d xs s = Some (v, r) \<Longrightarrow> list_all (json_good d) xs \<Longrightarrow> json_good (Suc d) v \<and> length r < length s"
  "parse_members n d m s = Some (v, r) \<Longrightarrow> json_good (Suc d) (JObj m) \<Longrightarrow> json_good (Suc d) v \<and> length r < length s"
proof (induction n d s and n d xs s and n d m s arbitrary: v r and v r and v r
    rule: parse_value_parse_elems_parse_members.induct)
  case (3 n d c s)
  show ?case
  proof (cases "c = CHR ''{''")
    case obj: True
    then obtain e t where t: "0 < d" "skip_ws s = e # t" using "3.prems" by (auto split: if_splits list.splits)
    show ?thesis
    proof (cases "e = CHR ''}''")
      case True
      then show ?thesis using "3.prems" obj t skip_ws_Cons[OF t(2)] by auto
    next
      case False
      then have m: "parse_members n (d - 1) [] (e # t) = Some (v, r)" using "3.prems" obj t by auto
      have "json_good (Suc (d - 1)) v \<and> length r < length (e # t)"
        using t obj False by (intro "3.IH"(1)[OF _ _ _ _ _ m]) auto
      then show ?thesis using t skip_ws_Cons[OF t(2)] by simp
    qed
  next
    case nobj: False
    show ?thesis
    proof (cases "c = CHR ''[''")
      case arr: True
      then obtain e t where t: "0 < d" "skip_ws s = e # t" using "3.prems" by (auto split: if_splits list.splits)
      show ?thesis
      proof (cases "e = CHR '']''")
        case True
        then show ?thesis using "3.prems" arr t skip_ws_Cons[OF t(2)] by auto
      next
        case False
        then have m: "parse_elems n (d - 1) [] (e # t) = Some (v, r)" using "3.prems" arr t by auto
        have "json_good (Suc (d - 1)) v \<and> length r < length (e # t)"
          using t arr False by (intro "3.IH"(2)[OF _ _ _ _ _ _ m]) auto
        then show ?thesis using t skip_ws_Cons[OF t(2)] by simp
      qed
    next
      case False
      then show ?thesis using "3.prems" nobj parse_keyword_good[of "c # s" v r d]
          parse_number_valid[of "c # s"] parse_number_length[of "c # s"]
        by (auto split: if_splits dest: parse_string_good)
    qed
  qed
next
  case (5 n d acc s)
  obtain w r1 where w: "parse_value n d (skip_ws s) = Some (w, r1)" using "5.prems"(1) by (auto split: option.splits)
  obtain c r2 where c: "skip_ws r1 = c # r2" using "5.prems"(1) w by (auto split: list.splits)
  from "5.IH"(1)[OF w] have good: "json_good d w" "length r1 < length (skip_ws s)" by auto
  have len: "length r2 < length s" using good(2) skip_ws_Cons[OF c] skip_ws_length[of s] by simp
  show ?case
  proof (cases "c = CHR '',''")
    case True
    then have "parse_elems n d (acc @ [w]) r2 = Some (v, r)" using "5.prems"(1) w c by simp
    from "5.IH"(2)[OF w refl c True this] "5.prems"(2) good(1) len show ?thesis by simp
  next
    case False
    then show ?thesis using "5.prems" w c good(1) len by (auto split: if_splits)
  qed
next
  case (7 n d acc s)
  obtain s1 where s1: "skip_ws s = CHR 0x22 # s1" using "7.prems"(1) by (auto split: list.splits if_splits)
  obtain k s2 where k: "parse_string s1 = Some (k, s2)" using "7.prems"(1) s1 by (auto split: option.splits)
  obtain s3 where s3: "skip_ws s2 = CHR '':'' # s3" using "7.prems"(1) s1 k by (auto split: list.splits if_splits)
  obtain w r1 where w: "parse_value n d (skip_ws s3) = Some (w, r1)"
    using "7.prems"(1) s1 k s3 by (auto split: option.splits)
  obtain c r2 where c: "skip_ws r1 = c # r2" using "7.prems"(1) s1 k s3 w by (auto split: list.splits)
  have "json_good d w \<and> length r1 < length (skip_ws s3)"
    by (rule "7.IH"(1)[OF s1 _ k refl s3 _ w]) simp_all
  then have good: "json_good d w" "length r1 < length (skip_ws s3)" by auto
  have key: "utf8_ok k" "length s2 < length s1" using parse_string_good[OF k] by auto
  have len: "length r2 < length s"
    using good(2) skip_ws_Cons[OF c] skip_ws_length[of s3] skip_ws_Cons[OF s3] key(2) skip_ws_Cons[OF s1] by simp
  have put: "json_good (Suc d) (JObj (mput k w acc))"
    using "7.prems"(2) key(1) good(1) by (auto simp: list_all_iff dest!: set_mput[rotated])
  show ?case
  proof (cases "c = CHR '',''")
    case True
    then have "parse_members n d (mput k w acc) r2 = Some (v, r)" using "7.prems"(1) s1 k s3 w c by simp
    from "7.IH"(2)[OF s1 _ k refl s3 _ w refl c True this put] len show ?thesis by simp
  next
    case False
    then show ?thesis using "7.prems"(1) s1 k s3 w c put len by (auto split: if_splits)
  qed
qed simp_all

text \<open>The fuel of \<open>json_decode\<close> never decides: any larger fuel gives the same value.\<close>


lemma parse_enough:
  "2 * length s < n \<Longrightarrow> 2 * length s < n' \<Longrightarrow> parse_value n d s = parse_value n' d s"
  "2 * length s + 1 < n \<Longrightarrow> 2 * length s + 1 < n' \<Longrightarrow> list_all (json_good d) xs \<Longrightarrow>
     parse_elems n d xs s = parse_elems n' d xs s"
  "2 * length s + 1 < n \<Longrightarrow> 2 * length s + 1 < n' \<Longrightarrow> json_good (Suc d) (JObj m) \<Longrightarrow>
     parse_members n d m s = parse_members n' d m s"
proof (induction n d s and n d xs s and n d m s arbitrary: n' and n' and n'
    rule: parse_value_parse_elems_parse_members.induct)
  case (2 n d)
  then show ?case by (cases n') auto
next
  case (3 n d c s)
  obtain k where k: "n' = Suc k" using "3.prems"(2) by (cases n') auto
  have ws: "2 * length (e # r) + 1 < n \<and> 2 * length (e # r) + 1 < k" if "skip_ws s = e # r" for e r
  proof -
    have "length (e # r) \<le> length s" using skip_ws_length[of s] that by simp
    then show ?thesis using "3.prems" by (simp add: k)
  qed
  have obj: "parse_members n (d - 1) [] (e # r) = parse_members k (d - 1) [] (e # r)"
    if "c = CHR ''{''" "0 < d" "skip_ws s = e # r" "e \<noteq> CHR ''}''" for e r
    using that ws[OF that(3)] by (intro "3.IH"(1)) auto
  have arr: "parse_elems n (d - 1) [] (e # r) = parse_elems k (d - 1) [] (e # r)"
    if "c = CHR ''[''" "0 < d" "skip_ws s = e # r" "e \<noteq> CHR '']''" for e r
    using that ws[OF that(3)] by (intro "3.IH"(2)) auto
  show ?case
    using obj arr by (cases "skip_ws s") (simp_all add: k del: dropWhile_eq_Nil_conv)
next
  case (5 n d acc s)
  obtain k where k: "n' = Suc k" using "5.prems"(2) by (cases n') auto
  have v: "parse_value n d (skip_ws s) = parse_value k d (skip_ws s)"
    using "5.prems" skip_ws_length[of s] k by (intro "5.IH"(1)) auto
  have e: "parse_elems n d (acc @ [w]) r2 = parse_elems k d (acc @ [w]) r2"
    if "parse_value n d (skip_ws s) = Some (w, r1)" "skip_ws r1 = CHR '','' # r2" for w r1 r2
    using "5.prems" k parse_good(1)[OF that(1)] skip_ws_Cons[OF that(2)] skip_ws_length[of s] that
    by (intro "5.IH"(2)[OF that(1) refl that(2) refl]) auto
  show ?case using e by (auto simp: k v[symmetric] simp del: dropWhile_eq_Nil_conv split: option.split list.split)
next
  case (7 n d acc s)
  obtain k where k: "n' = Suc k" using "7.prems"(2) by (cases n') auto
  have len: "length (skip_ws s3) < length s" if "skip_ws s = CHR 0x22 # s1" "parse_string s1 = Some (ke, s2)"
    "skip_ws s2 = CHR '':'' # s3" for s1 ke s2 s3
    using skip_ws_Cons[OF that(1)] parse_string_good[OF that(2)] skip_ws_Cons[OF that(3)] skip_ws_length[of s3] by simp
  have v: "parse_value n d (skip_ws s3) = parse_value k d (skip_ws s3)"
    if "skip_ws s = CHR 0x22 # s1" "parse_string s1 = Some (ke, s2)" "skip_ws s2 = CHR '':'' # s3" for s1 ke s2 s3
    using "7.prems"(1,2) k len[OF that] by (intro "7.IH"(1)[OF that(1) _ that(2) refl that(3)]) auto
  have m: "parse_members n d (mput ke w acc) r2 = parse_members k d (mput ke w acc) r2"
    if t: "skip_ws s = CHR 0x22 # s1" "parse_string s1 = Some (ke, s2)" "skip_ws s2 = CHR '':'' # s3"
      "parse_value n d (skip_ws s3) = Some (w, r1)" "skip_ws r1 = CHR '','' # r2" for s1 ke s2 s3 w r1 r2
  proof (rule "7.IH"(2)[OF t(1) _ t(2) refl t(3) _ t(4) refl t(5) refl])
    note g = parse_good(1)[OF t(4)]
    show "2 * length r2 + 1 < n" "2 * length r2 + 1 < k"
      using "7.prems"(1,2) k len[OF t(1-3)] g skip_ws_Cons[OF t(5)] by auto
    show "json_good (Suc d) (JObj (mput ke w acc))"
      using "7.prems"(3) parse_string_good[OF t(2)] g by (auto simp: list_all_iff dest!: set_mput[rotated])
  qed simp_all
  show ?case
  proof (cases "skip_ws s")
    case s1: (Cons q s1)
    show ?thesis
    proof (cases "q = CHR 0x22")
      case q: True
      show ?thesis
      proof (cases "parse_string s1")
        case (Some p)
        then obtain ke s2 where ke: "parse_string s1 = Some (ke, s2)" by (cases p) auto
        show ?thesis
        proof (cases "skip_ws s2")
          case s3: (Cons col s3)
          show ?thesis
          proof (cases "col = CHR '':''")
            case True
            note t = s1[unfolded q] ke s3[unfolded True]
            show ?thesis
            proof (cases "parse_value n d (skip_ws s3)")
              case None
              then show ?thesis using v[OF t] t by (simp add: k)
            next
              case (Some p)
              then obtain w r1 where w: "parse_value n d (skip_ws s3) = Some (w, r1)" by (cases p) auto
              moreover from w have "parse_value k d (skip_ws s3) = Some (w, r1)" using v[OF t] by simp
              ultimately show ?thesis using t m[OF t w]
                by (cases "skip_ws r1") (simp_all add: k del: dropWhile_eq_Nil_conv)
            qed
          qed (simp add: k s1 q ke s3)
        qed (simp add: k s1 q ke del: dropWhile_eq_Nil_conv)
      qed (simp add: k s1 q)
    qed (simp add: k s1)
  qed (simp add: k del: dropWhile_eq_Nil_conv)
qed simp_all

lemma json_decode_fuel:
  "parse_value (Suc (2 * length s) + n) maxNestingDepth (skip_ws s) =
   parse_value (Suc (2 * length s)) maxNestingDepth (skip_ws s)"
  using skip_ws_length[of s] by (intro parse_enough(1)) auto

lemma json_decode_good: "json_decode s = Some v \<Longrightarrow> json_good maxNestingDepth v"
  by (auto simp: json_decode_def simp del: dropWhile_eq_Nil_conv
      dest: parse_good(1) split: option.splits list.splits if_splits)



text \<open>The check against trailing data has a hole: after a complete value, text that begins
  with a closing brace or bracket is accepted and ignored.\<close>

theorem trailing_bracket_accepted:
  assumes "json_good maxNestingDepth v" "c = CHR ''}'' \<or> c = CHR '']''"
  shows "json_decode (json_text v @ c # garbage) = Some v"
proof -
  let ?s = "json_text v @ c # garbage"
  have "parse_value (Suc (2 * length ?s)) maxNestingDepth ?s = Some (v, c # garbage)"
    by (rule parse_value_text[OF assms(1)]) (use assms(2) in \<open>auto simp: value_end_def\<close>)
  then show ?thesis
    using text_skip[OF assms(1), of "c # garbage"] assms(2) by (auto simp: json_decode_def is_space_def)
qed

theorem trailing_bracket_accepted_witness: "json_decode ''{}}x'' = Some (JObj [])"
proof -
  have "json_good maxNestingDepth (JObj [])" by (simp add: maxNestingDepth_def)
  from trailing_bracket_accepted[OF this, of "CHR ''}''" "''x''"] show ?thesis by simp
qed

end
