(* ===== verification/MetaJson.thy ===== *)
theory MetaJson
  imports JsonText Errcodes Messages
begin

text \<open>
  The operations of \<open>pkg/metajson\<close> on the text of documents, and the parts of
  \<open>pkg/host/meta.go\<close> that do not need a session. The client sees the codec through
  \<open>json_codec\<close>, which the codec of \<open>JsonText\<close> provides.
\<close>

section \<open>The codec as its clients see it\<close>

locale json_codec =
  fixes enc :: "json \<Rightarrow> string option"
    and dec :: "string \<Rightarrow> json option"
    and ok :: "json \<Rightarrow> bool"
  assumes dec_enc: "ok v \<Longrightarrow> \<exists>u. enc v = Some u \<and> dec u = Some (canon v)"
    and dec_ok: "dec s = Some v \<Longrightarrow> ok v"
    and ok_wf: "ok v \<Longrightarrow> json_wf v"
    and ok_merge: "ok t \<Longrightarrow> ok p \<Longrightarrow> ok (merge_value t p)"
    and enc_canon: "canon v = canon w \<Longrightarrow> enc v = enc w"
begin

lemma enc_total: "ok v \<Longrightarrow> enc v \<noteq> None"
  using dec_enc by fastforce

lemma reencode: "dec s = Some v \<Longrightarrow> \<exists>t. enc v = Some t \<and> dec t = Some (canon v)"
  using dec_enc dec_ok by blast

lemma enc_merge:
  "ok t \<Longrightarrow> ok p \<Longrightarrow> \<exists>s. enc (merge_value t p) = Some s \<and> dec s = Some (canon (merge_value t p))"
  using dec_enc ok_merge by blast

lemma enc_merge_canon:
  "ok t \<Longrightarrow> ok p \<Longrightarrow> enc (merge_value (canon t) p) = enc (merge_value t p)" if "ok (canon t)"
  using that by (intro enc_canon merge_canon_cong) (auto intro: ok_wf)

text \<open>Merges of disjoint patches, one write at a time through the text: the stored text does
  not depend on who wrote first.\<close>

lemma disjoint_writes:
  assumes "ok t" "ok p" "ok q" "disjoint_patch p q"
    and "enc (merge_value t p) = Some tp" "enc (merge_value t q) = Some tq"
  shows "\<exists>a b. dec tp = Some a \<and> dec tq = Some b \<and> enc (merge_value a q) = enc (merge_value b p)"
proof -
  have a: "dec tp = Some (canon (merge_value t p))" and b: "dec tq = Some (canon (merge_value t q))"
    using enc_merge[OF assms(1,2)] enc_merge[OF assms(1,3)] assms(5,6) by auto
  have "enc (merge_value (canon (merge_value t p)) q) = enc (merge_value (merge_value t p) q)"
    using a assms by (intro enc_merge_canon ok_merge) (auto intro: dec_ok)
  moreover have "enc (merge_value (canon (merge_value t q)) p) = enc (merge_value (merge_value t q) p)"
    using b assms by (intro enc_merge_canon ok_merge) (auto intro: dec_ok)
  moreover have "enc (merge_value (merge_value t p) q) = enc (merge_value (merge_value t q) p)"
    using assms by (intro enc_canon disjoint_merges_commute) (auto intro: ok_wf)
  ultimately show ?thesis using a b by auto
qed

end

section \<open>The codec provides it\<close>

lemma json_good_mono: "json_good d v \<Longrightarrow> d \<le> e \<Longrightarrow> json_good e v"
proof (induction d v arbitrary: e rule: json_good.induct)
  case (3 d xs)
  then show ?case by (auto simp: list_all_iff)
next
  case (4 d m)
  then show ?case by (auto simp: list_all_iff)
qed auto

lemma json_good_Obj_get:
  "json_good d (JObj m) \<longleftrightarrow> 0 < d \<and> mwf m \<and> (\<forall>k v. mget m k = Some v \<longrightarrow> utf8_ok k \<and> json_good (d - 1) v)"
  by (auto simp: list_all_iff mget_iff_mem dest: bspec[of _ _ "(_, _)"])

lemma json_good_merge: "json_good d t \<Longrightarrow> json_good d p \<Longrightarrow> json_good d (merge_value t p)"
proof (induction "size p" arbitrary: d t p rule: less_induct)
  case less
  show ?case
  proof (cases "is_obj p")
    case False
    then show ?thesis using less.prems by (simp add: merge_value_scalar)
  next
    case True
    then obtain ps where p: "p = JObj ps" by (cases p) auto
    have w: "json_wf t" "json_wf p" using less.prems by (auto intro: json_good_wf)
    have pos: "0 < d" using less.prems(2) p by simp
    have t: "json_good (d - 1) v" "utf8_ok k" if "mget (obj_of t) k = Some v" for k v
      using that less.prems(1) by (cases t; auto simp: json_good_Obj_get simp del: json_good.simps)+
    have ps: "json_good (d - 1) v" "utf8_ok k" if "mget ps k = Some v" for k v
      using that less.prems(2) by (auto simp: p json_good_Obj_get simp del: json_good.simps)
    have "json_good (d - 1) v \<and> utf8_ok k"
      if "mget (obj_of (merge_value t p)) k = Some v" for k v
    proof (cases "mget ps k")
      case None
      then have "mget (obj_of t) k = Some v" using that w(2) merge_get[of p t k] by (simp add: p)
      then show ?thesis using t by blast
    next
      case (Some u)
      then have v: "v = merge_value (or_null (mget (obj_of t) k)) u"
        using that w(2) merge_get[of p t k] by (simp add: p merged_at_def split: if_splits)
      have "json_good (d - 1) (or_null (mget (obj_of t) k))" using t by (auto split: option.split)
      moreover have "size u < size p" using Some size_obj_get[of p k u] by (simp add: p)
      ultimately have "json_good (d - 1) v" unfolding v using less.hyps ps(1)[OF Some] by blast
      then show ?thesis using ps(2)[OF Some] by simp
    qed
    moreover have "json_wf (merge_value t p)" using w by (rule json_wf_merge(1))
    ultimately show ?thesis
      using pos by (auto simp: p json_good_Obj_get json_wf_Obj_iff simp del: json_good.simps)
  qed
qed

lemma nums_ok_canon: "nums_ok (canon v) = nums_ok v"
  by (induction v rule: canon.induct) (auto simp: list_all_iff)

interpretation doc: json_codec json_encode json_decode "json_good maxNestingDepth"
proof unfold_locales
  show "\<exists>t. json_encode v = Some t \<and> json_decode t = Some (canon v)" if "json_good maxNestingDepth v" for v
    using parse_value_text[OF json_good_canon[OF that], of "[]" "Suc (2 * length (json_text (canon v)))"]
      json_good_nums[OF that] text_skip[OF json_good_canon[OF that], of "[]"]
    by (simp add: json_encode_def json_decode_def value_end_def)
  show "json_encode v = json_encode w" if "canon v = canon w" for v w
    using that nums_ok_canon[of v] nums_ok_canon[of w] by (simp add: json_encode_def)
qed (auto intro: json_decode_good json_good_wf json_good_merge)

section \<open>White space\<close>

text \<open>\<open>bytes.TrimSpace\<close>: the Unicode spaces, by the length of their UTF-8 bytes.\<close>

definition space1 :: "char \<Rightarrow> bool" where
  "space1 c \<longleftrightarrow> (let b = byte_of c in 9 \<le> b \<and> b \<le> 13 \<or> b = 32)"

definition space2 :: "char \<Rightarrow> char \<Rightarrow> bool" where
  "space2 c d \<longleftrightarrow> byte_of c = 0xC2 \<and> (byte_of d = 0x85 \<or> byte_of d = 0xA0)"

definition space3 :: "char \<Rightarrow> char \<Rightarrow> char \<Rightarrow> bool" where
  "space3 c d e \<longleftrightarrow> (let b0 = byte_of c; b1 = byte_of d; b2 = byte_of e in
     b0 = 0xE1 \<and> b1 = 0x9A \<and> b2 = 0x80 \<or>
     b0 = 0xE2 \<and> b1 = 0x80 \<and> (0x80 \<le> b2 \<and> b2 \<le> 0x8A \<or> b2 = 0xA8 \<or> b2 = 0xA9 \<or> b2 = 0xAF) \<or>
     b0 = 0xE2 \<and> b1 = 0x81 \<and> b2 = 0x9F \<or>
     b0 = 0xE3 \<and> b1 = 0x80 \<and> b2 = 0x80)"

definition space_width :: "string \<Rightarrow> nat" where
  "space_width s = (case s of
      [] \<Rightarrow> 0
    | c0 # r \<Rightarrow>
        if space1 c0 then 1
        else (case r of
            [] \<Rightarrow> 0
          | c1 # r2 \<Rightarrow>
              if space2 c0 c1 then 2
              else (case r2 of [] \<Rightarrow> 0 | c2 # _ \<Rightarrow> if space3 c0 c1 c2 then 3 else 0)))"

function trim_left :: "string \<Rightarrow> string" where
  "trim_left s = (if space_width s = 0 then s else trim_left (drop (space_width s) s))"
  by auto
termination
proof (relation "measure length")
  fix s assume "space_width s \<noteq> 0"
  then have "s \<noteq> []" by (auto simp: space_width_def)
  with \<open>space_width s \<noteq> 0\<close> show "(drop (space_width s) s, s) \<in> measure length" by simp
qed simp

declare trim_left.simps [simp del]

fun trim_right :: "string \<Rightarrow> string" where
  "trim_right [] = []"
| "trim_right (c # s) = (if trim_left (c # s) = [] then [] else c # trim_right s)"

definition trim_space :: "string \<Rightarrow> string" where
  "trim_space s = trim_right (trim_left s)"

lemma trim_left_Nil [simp]: "trim_left [] = []"
  by (subst trim_left.simps) (simp add: space_width_def)

lemma trim_space_Nil [simp]: "trim_space [] = []"
  by (simp add: trim_space_def)

lemma trim_left_id: "space_width s = 0 \<Longrightarrow> trim_left s = s"
  by (subst trim_left.simps) simp

section \<open>The package's functions\<close>

text \<open>Errors are \<open>None\<close>: the callers in the host only ask whether there was one.\<close>

definition merge_patch :: "string \<Rightarrow> string \<Rightarrow> string option" where
  "merge_patch target patch =
     (case json_decode patch of
        None \<Rightarrow> None
      | Some patchVal \<Rightarrow>
          if trim_space target \<noteq> [] then
            (case json_decode target of
               None \<Rightarrow> None
             | Some targetVal \<Rightarrow> json_encode (merge_value targetVal patchVal))
          else json_encode (merge_value JNull patchVal))"

definition is_object :: "string \<Rightarrow> bool" where
  "is_object doc =
     (let trimmed = trim_space doc
      in if trimmed = [] then True
         else (case json_decode trimmed of None \<Rightarrow> False | Some v \<Rightarrow> is_obj v))"

definition top_level_keys :: "string \<Rightarrow> string list" where
  "top_level_keys doc = (case json_decode doc of Some (JObj m) \<Rightarrow> map fst m | _ \<Rightarrow> [])"

definition project :: "string \<Rightarrow> (string, string) gomap" where
  "project doc =
     (case json_decode doc of
        Some (JObj m) \<Rightarrow> List.map_filter (\<lambda>(k, v). case v of JStr s \<Rightarrow> Some (k, s) | _ \<Rightarrow> None) m
      | _ \<Rightarrow> [])"

definition from_flat :: "(string, string) gomap \<Rightarrow> string option" where
  "from_flat m = json_encode (JObj (map (\<lambda>(k, v). (k, JStr v)) m))"

definition incr_patch :: "(string \<Rightarrow> string \<Rightarrow> string option) \<Rightarrow> string \<Rightarrow> string \<Rightarrow> string option" where
  "incr_patch fadd target patch =
     (case json_decode patch of
        Some (JObj patchObj) \<Rightarrow>
          (let run = (\<lambda>targetObj. case incr_into fadd targetObj patchObj of
                 Inl _ \<Rightarrow> None
               | Inr m \<Rightarrow> json_encode (JObj m))
           in if target = [] then run []
              else (case json_decode target of
                  None \<Rightarrow> None
                | Some tv \<Rightarrow> run (if is_obj tv then obj_of tv else [])))
      | _ \<Rightarrow> None)"

section \<open>The host's rules for meta documents\<close>

definition MaxMetaBytes :: nat where
  "MaxMetaBytes = 65536"

definition is_reserved_meta_key :: "string \<Rightarrow> bool" where
  "is_reserved_meta_key k \<longleftrightarrow> k = ''rpty'' \<or> take 5 k = ''rpty.''"

definition reserved_key_error :: "string \<Rightarrow> code option" where
  "reserved_key_error b =
     (if list_ex is_reserved_meta_key (top_level_keys b) then Some ReservedMetaKey else None)"

text \<open>The check of spawn-time annotations: the error code, or \<open>None\<close> when they are fine.\<close>

definition validate_spawn_annotations :: "string \<Rightarrow> code option" where
  "validate_spawn_annotations b =
     (if trim_space b = [] then None
      else if \<not> is_object b then Some InvalidInput
      else (case reserved_key_error b of
          Some e \<Rightarrow> Some e
        | None \<Rightarrow> if MaxMetaBytes < length b then Some MetaTooLarge else None))"

definition initial_meta_doc :: "(string, string) gomap \<Rightarrow> string \<Rightarrow> string" where
  "initial_meta_doc meta annotations =
     (let base = (case from_flat meta of Some b \<Rightarrow> b | None \<Rightarrow> [])
      in if trim_space annotations = [] then (if meta = [] then [] else base)
         else (case merge_patch base annotations of
             Some merged \<Rightarrow> if is_object merged then merged else base
           | None \<Rightarrow> base))"

definition adopt_meta_doc :: "string \<Rightarrow> (string, string) gomap \<Rightarrow> string" where
  "adopt_meta_doc metaDoc meta =
     (if trim_space metaDoc \<noteq> [] then metaDoc
      else if meta = [] then []
      else (case from_flat meta of Some doc \<Rightarrow> doc | None \<Rightarrow> []))"

definition annotations_for_wire :: "string \<Rightarrow> string" where
  "annotations_for_wire doc = (if trim_space doc = [] then [] else doc)"

definition meta_change_data :: "u64 \<Rightarrow> string list \<Rightarrow> (string, string) gomap" where
  "meta_change_data version keys =
     [(DataKeyMetaKeys, join_comma (sort keys)), (DataKeyMetaVersion, u64_string version)]"

definition mode_name :: "string \<Rightarrow> string" where
  "mode_name m = (if m = MetaModeReplace then MetaModeReplace
     else if m = MetaModeIncr then MetaModeIncr else MetaModeMerge)"

section \<open>White space never hides a document\<close>

definition ends_plain :: "string \<Rightarrow> bool" where
  "ends_plain s \<longleftrightarrow> s \<noteq> [] \<and> (33 :: nat) \<le> of_char (last s) \<and> of_char (last s) < (128 :: nat)"

lemma ends_plain_append [simp]: "t \<noteq> [] \<Longrightarrow> ends_plain (s @ t) = ends_plain t"
  by (simp add: ends_plain_def)

lemma ends_plain_Cons [simp]: "t \<noteq> [] \<Longrightarrow> ends_plain (c # t) = ends_plain t"
  by (simp add: ends_plain_def)

lemma ends_plain_one [simp]: "ends_plain [c] \<longleftrightarrow> (33 :: nat) \<le> of_char c \<and> of_char c < (128 :: nat)"
  by (simp add: ends_plain_def)

lemma space_not_plain:
  "space1 c \<Longrightarrow> \<not> ends_plain [c]" "space2 c d \<Longrightarrow> \<not> ends_plain [d]" "space3 c d e \<Longrightarrow> \<not> ends_plain [e]"
  by (auto simp: space1_def space2_def space3_def Let_def)

lemma space_width_1: "space_width [c0] \<noteq> 0 \<Longrightarrow> space_width [c0] = 1 \<and> \<not> ends_plain [c0]"
  using space_not_plain(1)[of c0] by (simp add: space_width_def split: if_split_asm)

lemma space_width_2:
  "space_width [c0, c1] \<noteq> 0 \<Longrightarrow>
   space_width [c0, c1] = 1 \<and> \<not> ends_plain [c0] \<or> space_width [c0, c1] = 2 \<and> \<not> ends_plain [c1]"
  using space_not_plain(1)[of c0] space_not_plain(2)[of c0 c1]
  by (simp add: space_width_def split: if_split_asm)

lemma space_width_3:
  "space_width (c0 # c1 # c2 # x) \<noteq> 0 \<Longrightarrow>
   space_width (c0 # c1 # c2 # x) = 1 \<and> \<not> ends_plain [c0] \<or>
   space_width (c0 # c1 # c2 # x) = 2 \<and> \<not> ends_plain [c1] \<or>
   space_width (c0 # c1 # c2 # x) = 3 \<and> \<not> ends_plain [c2]"
  using space_not_plain(1)[of c0] space_not_plain(2)[of c0 c1] space_not_plain(3)[of c0 c1 c2]
  by (simp add: space_width_def split: if_split_asm)

lemma space_width_cases:
  assumes "space_width s \<noteq> 0"
  shows "\<exists>w x. s = w @ x \<and> length w = space_width s \<and> w \<noteq> [] \<and> \<not> ends_plain w"
proof -
  consider (one) c0 where "s = [c0]" | (two) c0 c1 where "s = [c0, c1]" | (more) c0 c1 c2 x where "s = c0 # c1 # c2 # x"
    using assms by (cases s; cases "tl s"; cases "tl (tl s)") (auto simp: space_width_def)
  then show ?thesis
  proof cases
    case one
    then show ?thesis using assms space_width_1[of c0] by (intro exI[of _ "[c0]"] exI[of _ "[]"]) simp
  next
    case two
    with assms space_width_2[of c0 c1] consider "space_width s = 1" "\<not> ends_plain [c0]" | "space_width s = 2" "\<not> ends_plain [c1]"
      by blast
    then show ?thesis
    proof cases
      case 1
      then show ?thesis using two by (intro exI[of _ "[c0]"] exI[of _ "[c1]"]) simp
    next
      case 2
      then show ?thesis using two by (intro exI[of _ "[c0, c1]"] exI[of _ "[]"]) simp
    qed
  next
    case more
    with assms space_width_3[of c0 c1 c2 x] consider "space_width s = 1" "\<not> ends_plain [c0]"
      | "space_width s = 2" "\<not> ends_plain [c1]" | "space_width s = 3" "\<not> ends_plain [c2]"
      by blast
    then show ?thesis
    proof cases
      case 1
      then show ?thesis using more by (intro exI[of _ "[c0]"] exI[of _ "c1 # c2 # x"]) simp
    next
      case 2
      then show ?thesis using more by (intro exI[of _ "[c0, c1]"] exI[of _ "c2 # x"]) simp
    next
      case 3
      then show ?thesis using more by (intro exI[of _ "[c0, c1, c2]"] exI[of _ x]) simp
    qed
  qed
qed

lemma trim_left_blank: "trim_left s = [] \<Longrightarrow> s \<noteq> [] \<Longrightarrow> \<not> ends_plain s"
proof (induction s rule: trim_left.induct)
  case (1 s)
  then have "space_width s \<noteq> 0" by (subst (asm) trim_left.simps) (auto split: if_splits)
  then obtain w x where wx: "s = w @ x" "length w = space_width s" "w \<noteq> []" "\<not> ends_plain w"
    using space_width_cases by blast
  have "trim_left x = []"
    using "1.prems"(1) \<open>space_width s \<noteq> 0\<close> wx by (subst (asm) trim_left.simps) simp
  with "1.IH"[OF \<open>space_width s \<noteq> 0\<close>] wx show ?case by (cases "x = []") auto
qed

lemma trim_right_id: "ends_plain s \<Longrightarrow> trim_right s = s"
proof (induction s)
  case (Cons c s)
  then have "trim_left (c # s) \<noteq> []" using trim_left_blank by blast
  with Cons show ?case by (cases "s = []") auto
qed simp

lemma number_ends: "valid_number n \<Longrightarrow> ends_plain n"
proof -
  define dig where "dig = (\<lambda>l. l \<noteq> [] \<and> is_digit (last l))"
  have taken: "takeWhile is_digit s \<noteq> [] \<Longrightarrow> dig (x @ takeWhile is_digit s)" for x s
    using digits_taken[of s] last_in_set[of "takeWhile is_digit s"] by (auto simp: dig_def)
  have e: "dig l" if "num_exp lit s = Some (l, t)" "dig lit" for lit s l t
  proof (cases s)
    case (Cons c s1)
    obtain sg s2 where "num_sign s1 = (sg, s2)" by (cases "num_sign s1")
    with that Cons taken[of s2 "lit @ c # sg"] show ?thesis
      by (auto simp: num_exp_def Let_def split: if_splits)
  qed (use that in \<open>simp add: num_exp_def\<close>)
  have f: "dig l" if "num_frac lit s = Some (l, t)" "dig lit" for lit s l t
  proof (cases s)
    case (Cons c s1)
    with that taken[of s1 "lit @ [c]"] e show ?thesis
      by (auto simp: num_frac_def Let_def split: if_splits)
  qed (use that e in \<open>auto simp: num_frac_def\<close>)
  have i: "dig l" if "num_int lit s = Some (l, t)" for lit s l t
  proof (cases s)
    case (Cons c s1)
    have "dig (lit @ [CHR ''0''])" by (simp add: dig_def is_digit_def)
    with that Cons taken[of s lit] f show ?thesis
      by (auto simp: num_int_def split: if_splits)
  qed (use that in \<open>simp add: num_int_def\<close>)
  assume "valid_number n"
  then have "dig n" using i by (cases n) (auto simp: valid_number_def parse_number_def split: if_splits)
  then show ?thesis by (auto simp: dig_def ends_plain_def is_digit_def)
qed

lemma text_ends: "json_good d v \<Longrightarrow> ends_plain (json_text v)"
  using number_ends by (cases v) (auto simp: print_string_def number_text_def)

lemma space_width_plain:
  "(33 :: nat) \<le> of_char c \<Longrightarrow> of_char c < (128 :: nat) \<Longrightarrow> space_width (c # t) = 0"
  by (simp add: space_width_def space1_def space2_def space3_def split: list.split)

definition starts_plain :: "string \<Rightarrow> bool" where
  "starts_plain s \<longleftrightarrow> s \<noteq> [] \<and> (33 :: nat) \<le> of_char (hd s) \<and> of_char (hd s) < (128 :: nat)"

lemma starts_plain_Cons [simp]: "starts_plain (c # t) \<longleftrightarrow> (33 :: nat) \<le> of_char c \<and> of_char c < (128 :: nat)"
  by (simp add: starts_plain_def)

lemma text_starts: "json_good d v \<Longrightarrow> starts_plain (json_text v)"
proof (cases v)
  case (JNum n)
  assume "json_good d v"
  then obtain c t where n: "n = c # t" "c = CHR ''-'' \<or> is_digit c" using valid_number_Cons[of n] JNum by auto
  then have "(33 :: nat) \<le> of_char c \<and> of_char c < (128 :: nat)" by (auto simp: is_digit_def)
  then show ?thesis by (simp add: JNum number_text_def n(1))
qed (simp_all add: print_string_def)

lemma trim_text: "json_good d v \<Longrightarrow> trim_space (json_text v) = json_text v"
proof -
  assume g: "json_good d v"
  have "space_width (json_text v) = 0"
    using text_starts[OF g] by (cases "json_text v") (simp_all add: space_width_plain starts_plain_def)
  then have "trim_left (json_text v) = json_text v" by (rule trim_left_id)
  then show ?thesis using trim_right_id[OF text_ends[OF g]] by (simp add: trim_space_def)
qed

section \<open>Writes on the text\<close>

text \<open>The value a document text stands for: blank text is null.\<close>

definition doc_value :: "string \<Rightarrow> json option" where
  "doc_value doc = (if trim_space doc = [] then Some JNull else json_decode doc)"

lemma doc_value_good: "doc_value doc = Some v \<Longrightarrow> json_good maxNestingDepth v"
  by (auto simp: doc_value_def split: if_splits intro: json_decode_good)

text \<open>The facts about a text that the encoder wrote.\<close>

lemma encoded_text:
  assumes "json_good maxNestingDepth v" "json_encode v = Some t"
  shows "json_decode t = Some (canon v)" "trim_space t = t" "t \<noteq> []" "doc_value t = Some (canon v)"
    "is_object t = is_obj v"
proof -
  have t: "t = json_text (canon v)" using assms(2) by (auto simp: json_encode_def split: if_splits)
  note good = json_good_canon[OF assms(1)]
  show d: "json_decode t = Some (canon v)" using doc.dec_enc[OF assms(1)] assms(2) by auto
  show s: "trim_space t = t" unfolding t by (rule trim_text[OF good])
  show ne: "t \<noteq> []" using text_starts[OF good] by (auto simp: t starts_plain_def)
  show "doc_value t = Some (canon v)" using d s ne by (simp add: doc_value_def)
  have "is_obj (canon v) = is_obj v" by (cases v) auto
  then show "is_object t = is_obj v" using d s ne by (simp add: is_object_def)
qed

lemma merge_patch_value:
  "json_decode patch = Some p \<Longrightarrow> doc_value target = Some t \<Longrightarrow>
   merge_patch target patch = json_encode (merge_value t p)"
  by (auto simp: merge_patch_def doc_value_def split: if_splits)

lemma merge_patch_text:
  assumes "json_decode patch = Some p" "doc_value target = Some t"
  obtains next_doc where "merge_patch target patch = Some next_doc"
    "doc_value next_doc = Some (canon (merge_value t p))" "is_object next_doc = is_obj p"
proof -
  have good: "json_good maxNestingDepth (merge_value t p)"
    using assms by (intro json_good_merge) (auto intro: json_decode_good doc_value_good)
  obtain s where "json_encode (merge_value t p) = Some s" using doc.dec_enc[OF good] by auto
  with encoded_text[OF good this] merge_patch_value[OF assms] that show thesis by auto
qed


text \<open>Evaluation of the parser with a numeral as fuel.\<close>

lemmas parse_fuel_numeral =
  parse_value.simps(2,3)[of "pred_numeral k" for k, folded numeral_eq_Suc]
  parse_elems.simps(2)[of "pred_numeral k" for k, folded numeral_eq_Suc]
  parse_members.simps(2)[of "pred_numeral k" for k, folded numeral_eq_Suc]

lemmas decode_eval = json_decode_def is_space_def maxNestingDepth_def parse_string.simps parse_fuel_numeral




text \<open>A session starts with an object: whatever annotations a client sends, the initial
  document, built from valid flat metadata and annotations that passed the spawn check, is a
  JSON object.\<close>

theorem initial_meta_is_object:
  assumes "mwf meta" "\<forall>(k, v)\<in>set meta. utf8_ok k \<and> utf8_ok v"
  shows "is_object (initial_meta_doc meta annotations)"
proof -
  have good: "json_good maxNestingDepth (JObj (map (\<lambda>(k, v). (k, JStr v)) meta))"
    using assms by (auto simp: mwf_def comp_def case_prod_beta list_all_iff maxNestingDepth_def)
  then obtain base where base: "from_flat meta = Some base" using doc.dec_enc by (fastforce simp: from_flat_def)
  with encoded_text(5)[OF good] have "is_object base" by (simp add: from_flat_def)
  moreover have "is_object []" by (simp add: is_object_def)
  ultimately show ?thesis using base by (auto simp: initial_meta_doc_def Let_def split: option.split)
qed

theorem initial_meta_is_object_witness: "is_object (initial_meta_doc [(''role'', ''db'')] ''[1]'')"
proof -
  have "mwf [(''role'', ''db'')]" "\<forall>(k, v)\<in>set [(''role'', ''db'')]. utf8_ok k \<and> utf8_ok v"
    by (simp_all add: mwf_def)
  from initial_meta_is_object[OF this] show ?thesis .
qed

end
