(* ===== verification/Session.thy ===== *)
theory Session
  imports Ring Monitor SesLog MetaJson
begin

text \<open>
  One PTY session: \<open>pkg/host/session.go\<close>, the meta writes of \<open>pkg/host/meta.go\<close>. Each
  operation runs under the session mutex and is one step on the record; it returns the events
  that it emits, in order. The PTY, the process and the file system are the arguments of the
  operations that call them.
\<close>

section \<open>State\<close>

definition DefaultRingBytes :: int where
  "DefaultRingBytes = 2 * 1024 * 1024"

definition readBufSize :: nat where
  "readBufSize = 32 * 1024"

definition veof :: byte where
  "veof = 0x04"

record spawn_config =
  sc_cmd :: string
  sc_args :: "string list"
  sc_cwd :: string
  sc_env :: "string list"
  sc_cols :: u16
  sc_rows :: u16
  sc_name :: string
  sc_meta :: "(string, string) gomap"
  sc_annotations :: string
  sc_ring_bytes :: int
  sc_log_path :: string
  sc_silence_after :: int
  sc_linger :: bool

text \<open>
  \<open>se_input\<close> is what has been written to the PTY master, each chunk with the client on whose
  behalf; it is the environment's view and not a field of the struct.
\<close>

record session =
  se_id :: string
  se_ring :: ring
  se_mon :: monitor
  se_subscribers :: int
  se_cfg :: spawn_config
  se_name :: string
  se_meta_doc :: string
  se_meta_version :: u64
  se_state :: session_state
  se_pid :: int
  se_cols :: u16
  se_rows :: u16
  se_bytes_in :: u64
  se_write_lock_holder :: string
  se_started_at :: int
  se_exit_code :: int
  se_exit_sig :: string
  se_exited_at :: int
  se_logw :: "seslog_writer option"
  se_log_broken :: bool
  se_paused :: bool
  se_adopted :: bool
  se_reader :: bool
  se_input :: "(string \<times> byte list) list"

section \<open>Spawning\<close>

text \<open>
  What \<open>pty.StartWithSize\<close> can return: the pid of the started process, an errno (a \<open>uintptr\<close>,
  so a negative one is a large word), or another error. The errno values are Linux's.
\<close>

datatype start_error = Errno u64 | OtherStartErr

abbreviation "ENXIO \<equiv> (6 :: u64)"
abbreviation "EAGAIN \<equiv> (11 :: u64)"
abbreviation "EINTR \<equiv> (4 :: u64)"
abbreviation "EPERM \<equiv> (1 :: u64)"
abbreviation "ESRCH \<equiv> (3 :: u64)"

definition is_transient_spawn_err :: "start_error \<Rightarrow> bool" where
  "is_transient_spawn_err e = (case e of
      OtherStartErr \<Rightarrow> False
    | Errno n \<Rightarrow> n = ENXIO \<or> n = EAGAIN \<or> n = EINTR \<or> sint n < 0)"

definition ptySpawnRetries :: nat where
  "ptySpawnRetries = 3"

definition ptySpawnRetryDelay :: nat where
  "ptySpawnRetryDelay = 10"

text \<open>
  \<open>start k\<close> is the outcome of attempt \<open>k\<close>. The result carries the number of attempts made and
  the time slept, in milliseconds.
\<close>

function start_loop ::
  "(nat \<Rightarrow> start_error + int) \<Rightarrow> nat \<Rightarrow> nat \<Rightarrow> start_error \<Rightarrow> (start_error + int) \<times> nat \<times> nat" where
  "start_loop start attempt slept lastErr =
     (if ptySpawnRetries < attempt then (Inl lastErr, attempt, slept)
      else (let slept' = (if 0 < attempt then slept + push_bit (attempt - 1) ptySpawnRetryDelay else slept)
        in case start attempt of
             Inr pid \<Rightarrow> (Inr pid, Suc attempt, slept')
           | Inl e \<Rightarrow>
               if \<not> is_transient_spawn_err e then (Inl e, Suc attempt, slept')
               else start_loop start (Suc attempt) slept' e))"
  by auto
termination by (relation "measure (\<lambda>(_, attempt, _). Suc ptySpawnRetries - attempt)") auto

declare start_loop.simps [simp del]

definition start_pty_with_retry :: "(nat \<Rightarrow> start_error + int) \<Rightarrow> (start_error + int) \<times> nat \<times> nat" where
  "start_pty_with_retry start = start_loop start 0 0 OtherStartErr"

text \<open>The log of a spawn: an error when it cannot be opened or its header cannot be written.\<close>

definition spawn_log :: "os_write \<Rightarrow> bool \<Rightarrow> string \<Rightarrow> int \<Rightarrow> err + seslog_writer option" where
  "spawn_log osw open_log path nowMs =
     (if path = [] then Inr None
      else if \<not> open_log then Inl (Coded SpawnFailed)
      else (case new_session_log_writer osw nowMs of
          None \<Rightarrow> Inl (OtherErr ''seslog: write header'')
        | Some l \<Rightarrow> Inr (Some l)))"

definition new_session ::
  "string \<Rightarrow> spawn_config \<Rightarrow> ring \<Rightarrow> seslog_writer option \<Rightarrow> int \<Rightarrow> int \<Rightarrow> session" where
  "new_session i cfg rng logw pid nowMs =
     \<lparr>se_id = i, se_ring = rng, se_mon = new_monitor i (sc_silence_after cfg), se_subscribers = 0,
      se_cfg = cfg, se_name = sc_name cfg,
      se_meta_doc = initial_meta_doc (sc_meta cfg) (sc_annotations cfg), se_meta_version = 0,
      se_state = StateRunning, se_pid = pid, se_cols = sc_cols cfg, se_rows = sc_rows cfg,
      se_bytes_in = 0, se_write_lock_holder = [], se_started_at = nowMs,
      se_exit_code = 0, se_exit_sig = [], se_exited_at = 0,
      se_logw = logw, se_log_broken = False, se_paused = False, se_adopted = False,
      se_reader = True, se_input = []\<rparr>"

text \<open>\<open>pollable\<close>: whether the PTY master could be rewrapped for the poller.\<close>

record spawn_env =
  en_osw :: os_write
  en_open_log :: bool
  en_start :: "nat \<Rightarrow> start_error + int"
  en_pollable :: bool
  en_now_ms :: int

definition host_spawn :: "spawn_env \<Rightarrow> string \<Rightarrow> spawn_config \<Rightarrow> err + session" where
  "host_spawn env i cfg =
     (if sc_cols cfg = 0 \<or> sc_rows cfg = 0 then Inl (Coded InvalidInput)
      else
        let ringBytes = (if sc_ring_bytes cfg \<le> 0 then DefaultRingBytes else sc_ring_bytes cfg)
        in case spawn_log (en_osw env) (en_open_log env) (sc_log_path cfg) (en_now_ms env) of
             Inl e \<Rightarrow> Inl e
           | Inr logw \<Rightarrow>
               (case fst (start_pty_with_retry (en_start env)) of
                  Inl e \<Rightarrow> Inl (Coded SpawnFailed)
                | Inr pid \<Rightarrow>
                    if \<not> en_pollable env then Inl (Coded SpawnFailed)
                    else (case new_ring ringBytes of
                        None \<Rightarrow> Inl (OtherErr ''ring'')
                      | Some rng \<Rightarrow>
                          Inr (new_session i cfg rng logw pid (en_now_ms env)))))"

section \<open>The read pump\<close>

text \<open>
  \<open>appendLog\<close>: the first failure turns the log off and is reported once. The text of the
  error is the argument \<open>msg\<close>.
\<close>

definition append_log :: "os_write \<Rightarrow> string \<Rightarrow> session \<Rightarrow> int \<Rightarrow> byte list \<Rightarrow> session \<times> mon_event list" where
  "append_log osw msg s nowMs p =
     (case se_logw s of
        None \<Rightarrow> (s, [])
      | Some l \<Rightarrow>
          if se_log_broken s then (s, [])
          else (case seslog_append osw l nowMs p of
              (l', failed) \<Rightarrow>
                if failed then
                  (s\<lparr>se_logw := Some l', se_log_broken := True\<rparr>, [(EventMetaChanged, [(DataKeyLogBroken, msg)])])
                else (s\<lparr>se_logw := Some l'\<rparr>, [])))"

text \<open>One successful read of the pump: the ring, the monitor, the log, in that order. \<open>now\<close> is
  in nanoseconds.\<close>

definition pump_chunk :: "os_write \<Rightarrow> string \<Rightarrow> session \<Rightarrow> int \<Rightarrow> byte list \<Rightarrow> session \<times> mon_event list" where
  "pump_chunk osw msg s now p =
     (if p = [] then (s, [])
      else
        let s1 = s\<lparr>se_ring := ring_write (se_ring s) p\<rparr>;
            (m, e1) = feed (se_mon s1) p now;
            (s2, e2) = append_log osw msg (s1\<lparr>se_mon := m\<rparr>) (now div 1000000) p
        in (s2, e1 @ e2))"

text \<open>How \<open>cmd.Wait\<close> ended: an exit code, or the number of the signal that killed the child.\<close>

datatype wait_status = WaitExited int | WaitSignaled nat

definition signal_number :: "string \<Rightarrow> nat option" where
  "signal_number name = map_of [(SignalTERM, 15), (SignalKILL, 9), (SignalINT, 2), (SignalHUP, 1)] name"

definition wire_signal :: "(nat \<Rightarrow> string) \<Rightarrow> nat \<Rightarrow> string" where
  "wire_signal signal_text n =
     (case List.find (\<lambda>name. signal_number name = Some n) signal_values of
        Some name \<Rightarrow> name
      | None \<Rightarrow> signal_text n)"

definition exit_status :: "(nat \<Rightarrow> string) \<Rightarrow> bool \<Rightarrow> wait_status \<Rightarrow> int \<times> string" where
  "exit_status signal_text adopted w =
     (if adopted then (-1, [])
      else (case w of
          WaitExited code \<Rightarrow> (code, [])
        | WaitSignaled n \<Rightarrow> (-1, wire_signal signal_text n)))"

definition finish_log :: "os_write \<Rightarrow> string \<Rightarrow> session \<Rightarrow> session \<times> mon_event list" where
  "finish_log osw msg s =
     (case se_logw s of
        None \<Rightarrow> (s, [])
      | Some l \<Rightarrow>
          (case seslog_close osw l of
             (l', failed) \<Rightarrow>
               (s\<lparr>se_logw := Some l'\<rparr>,
                if failed then [(EventMetaChanged, [(DataKeyLogBroken, msg)])] else [])))"

definition session_finish ::
  "os_write \<Rightarrow> string \<Rightarrow> (nat \<Rightarrow> string) \<Rightarrow> session \<Rightarrow> int \<Rightarrow> wait_status \<Rightarrow> session \<times> mon_event list" where
  "session_finish osw msg signal_text s nowMs w =
     (let (code, sig) = exit_status signal_text (se_adopted s) w;
          s1 = s\<lparr>se_state := StateExited, se_exit_code := code, se_exit_sig := sig,
                 se_exited_at := nowMs, se_write_lock_holder := []\<rparr>;
          (s2, e) = finish_log osw msg s1
      in (s2, e @ [(EventExited, exited_data code sig)]))"

text \<open>
  A read error of the pump: an expired deadline while paused stops the reader and keeps the
  session, any other error finishes it. Either way this reader is done.
\<close>

definition pump_error ::
  "os_write \<Rightarrow> string \<Rightarrow> (nat \<Rightarrow> string) \<Rightarrow> session \<Rightarrow> int \<Rightarrow> bool \<Rightarrow> wait_status \<Rightarrow> session \<times> mon_event list" where
  "pump_error osw msg signal_text s nowMs deadline w =
     (let s1 = s\<lparr>se_reader := False\<rparr>
      in if se_paused s \<and> deadline then (s1, [])
         else session_finish osw msg signal_text s1 nowMs w)"

text \<open>\<open>deadline_ok\<close>: whether the read deadline of the PTY could be set or cleared.\<close>

definition pause_reader :: "bool \<Rightarrow> session \<Rightarrow> session \<times> err option" where
  "pause_reader deadline_ok s =
     (if se_state s \<noteq> StateRunning then (s, None)
      else (s\<lparr>se_paused := True\<rparr>, if deadline_ok then None else Some (OtherErr ''pause'')))"

definition resume_reader :: "bool \<Rightarrow> session \<Rightarrow> session \<times> err option" where
  "resume_reader deadline_ok s =
     (if se_state s \<noteq> StateRunning \<or> \<not> se_paused s then (s, None)
      else if \<not> deadline_ok then (s\<lparr>se_paused := False\<rparr>, Some (OtherErr ''resume''))
      else (s\<lparr>se_paused := False, se_reader := True\<rparr>, None))"

section \<open>Reading\<close>

definition exited_at :: "session \<Rightarrow> int option" where
  "exited_at s = (if se_state s \<noteq> StateExited then None else Some (se_exited_at s))"

definition exit_code :: "session \<Rightarrow> (int \<times> string) option" where
  "exit_code s = (if se_state s \<noteq> StateExited then None else Some (se_exit_code s, se_exit_sig s))"

definition add_subscriber :: "session \<Rightarrow> session \<times> int" where
  "add_subscriber s = (let n = se_subscribers s + 1 in (s\<lparr>se_subscribers := n\<rparr>, n))"

definition remove_subscriber :: "session \<Rightarrow> session \<times> int" where
  "remove_subscriber s = (let n = se_subscribers s - 1 in (s\<lparr>se_subscribers := n\<rparr>, n))"

definition session_replay_from :: "session \<Rightarrow> u64 \<Rightarrow> byte list \<times> u64 \<times> bool" where
  "session_replay_from s since = ring_replay_from (se_ring s) since"

definition session_last_seq :: "session \<Rightarrow> u64" where
  "session_last_seq s = ring_last_seq (se_ring s)"

text \<open>\<open>WaitOutput\<close>: \<open>None\<close> while it waits, its result once its condition holds.\<close>

definition wait_output :: "session \<Rightarrow> bool \<Rightarrow> u64 \<Rightarrow> (u64 \<times> bool) option" where
  "wait_output s ctx_done afterSeq =
     (if session_last_seq s \<le> afterSeq \<and> se_state s \<noteq> StateExited \<and> \<not> ctx_done then None
      else Some (session_last_seq s, se_state s = StateExited))"

text \<open>\<open>live\<close> is what the platform says of the running process: its directory and its
  foreground process.\<close>

definition session_info_of :: "(string option \<times> (int \<times> string) option) \<Rightarrow> session \<Rightarrow> session_info" where
  "session_info_of live s =
     (let running = (se_state s = StateRunning);
          cwd = (if running then (case fst live of Some d \<Rightarrow> d | None \<Rightarrow> sc_cwd (se_cfg s)) else sc_cwd (se_cfg s));
          fg = (if running then snd live else None);
          exited = (se_state s = StateExited)
      in \<lparr>si_id = se_id s, si_name = se_name s, si_state = se_state s, si_pid = se_pid s,
          si_cmd = sc_cmd (se_cfg s), si_args = sc_args (se_cfg s), si_cwd = cwd,
          si_cols = se_cols s, si_rows = se_rows s, si_started_at_ms = se_started_at s,
          si_exit_code = (if exited then Some (se_exit_code s) else None),
          si_exited_at_ms = (if exited then Some (se_exited_at s) else None),
          si_last_seq = session_last_seq s, si_bytes_out = session_last_seq s,
          si_bytes_in = se_bytes_in s, si_subscribers = se_subscribers s,
          si_write_lock_holder = se_write_lock_holder s,
          si_meta = project (se_meta_doc s), si_annotations = annotations_for_wire (se_meta_doc s),
          si_meta_version = se_meta_version s, si_log_path = sc_log_path (se_cfg s),
          si_fg_pid = (case fg of Some (p, _) \<Rightarrow> p | None \<Rightarrow> 0),
          si_fg_comm = (case fg of Some (_, c) \<Rightarrow> c | None \<Rightarrow> [])\<rparr>)"

section \<open>Writing\<close>

text \<open>\<open>pty_ok\<close>: whether the write to the PTY master succeeded.\<close>

definition write_input :: "bool \<Rightarrow> session \<Rightarrow> string \<Rightarrow> byte list \<Rightarrow> session \<times> err option" where
  "write_input pty_ok s clientID p =
     (if se_state s = StateExited then (s, Some (Coded SessionExited))
      else if se_write_lock_holder s \<noteq> [] \<and> se_write_lock_holder s \<noteq> clientID
      then (s, Some (Coded NoWriteLock))
      else
        let s1 = s\<lparr>se_bytes_in := se_bytes_in s + of_nat (length p)\<rparr>
        in if pty_ok then (s1\<lparr>se_input := se_input s1 @ [(clientID, p)]\<rparr>, None)
           else (s1, Some (OtherErr ''pty write'')))"

definition session_input_eof :: "bool \<Rightarrow> session \<Rightarrow> string \<Rightarrow> session \<times> err option" where
  "session_input_eof pty_ok s clientID = write_input pty_ok s clientID [veof]"

definition session_take_write :: "session \<Rightarrow> string \<Rightarrow> session" where
  "session_take_write s clientID = s\<lparr>se_write_lock_holder := clientID\<rparr>"

definition session_release_write :: "session \<Rightarrow> string \<Rightarrow> session" where
  "session_release_write s clientID =
     (if se_write_lock_holder s = clientID then s\<lparr>se_write_lock_holder := []\<rparr> else s)"

definition session_resize :: "bool \<Rightarrow> session \<Rightarrow> u16 \<Rightarrow> u16 \<Rightarrow> session \<times> err option \<times> mon_event list" where
  "session_resize setsize_ok s cols rows =
     (if cols = 0 \<or> rows = 0 then (s, Some (Coded InvalidInput), [])
      else if se_state s = StateExited then (s, Some (Coded SessionExited), [])
      else
        let s1 = s\<lparr>se_cols := cols, se_rows := rows\<rparr>
        in if \<not> setsize_ok then (s1, Some (OtherErr ''setsize''), [])
           else (s1, None, [(EventResized, [(DataKeyCols, nat_string (unat cols)), (DataKeyRows, nat_string (unat rows))])]))"

text \<open>
  \<open>Kill\<close> returns the calls it makes, \<open>(pid, signal)\<close> with a negative pid for the process group;
  \<open>sys\<close> is the errno of a call, \<open>None\<close> when it succeeds.
\<close>

definition session_kill ::
  "(int \<Rightarrow> nat \<Rightarrow> u64 option) \<Rightarrow> session \<Rightarrow> string \<Rightarrow> (int \<times> nat) list \<times> err option" where
  "session_kill sys s signalName =
     (case signal_number (if signalName = [] then SignalTERM else signalName) of
        None \<Rightarrow> ([], Some (Coded InvalidInput))
      | Some sig \<Rightarrow>
          if se_state s = StateExited then ([], None)
          else
            let pid = se_pid s;
                e1 = sys (- pid) sig;
                (calls, e) = (if e1 = Some EPERM then ([(- pid, sig), (pid, sig)], sys pid sig) else ([(- pid, sig)], e1))
            in (calls, if e = None \<or> e = Some ESRCH \<or> e = Some EPERM then None else Some (OtherErr ''kill'')))"

definition set_name :: "session \<Rightarrow> string \<Rightarrow> session" where
  "set_name s name = s\<lparr>se_name := name\<rparr>"

section \<open>Meta writes\<close>

definition meta_next :: "(string \<Rightarrow> string \<Rightarrow> string option) \<Rightarrow> string \<Rightarrow> string \<Rightarrow> string \<Rightarrow> string option" where
  "meta_next fadd mode doc patch =
     (if mode = MetaModeReplace then merge_patch [] patch
      else if mode = MetaModeIncr then incr_patch fadd doc patch
      else merge_patch doc patch)"

definition session_set_meta_json ::
  "(string \<Rightarrow> string \<Rightarrow> string option) \<Rightarrow> session \<Rightarrow> string \<Rightarrow> string \<Rightarrow> u64 option
   \<Rightarrow> session \<times> u64 \<times> code option \<times> mon_event list" where
  "session_set_meta_json fadd s mode patch ifVersion =
     (if ifVersion \<noteq> None \<and> ifVersion \<noteq> Some (se_meta_version s)
      then (s, se_meta_version s, Some MetaConflict, [])
      else (case reserved_key_error patch of
          Some e \<Rightarrow> (s, se_meta_version s, Some e, [])
        | None \<Rightarrow>
            if mode \<noteq> [] \<and> mode \<notin> set meta_mode_values
            then (s, se_meta_version s, Some InvalidInput, [])
            else (case meta_next fadd mode (se_meta_doc s) patch of
                None \<Rightarrow> (s, se_meta_version s, Some InvalidInput, [])
              | Some doc \<Rightarrow>
                  if \<not> is_object doc then (s, se_meta_version s, Some InvalidInput, [])
                  else if MaxMetaBytes < length doc then (s, se_meta_version s, Some MetaTooLarge, [])
                  else
                    let version = se_meta_version s + 1
                    in (s\<lparr>se_meta_doc := doc, se_meta_version := version\<rparr>, version, None,
                        [(EventMetaChanged, meta_change_data version (top_level_keys patch))]))))"

definition session_set_meta :: "session \<Rightarrow> (string, string) gomap \<Rightarrow> session \<times> mon_event list" where
  "session_set_meta s meta =
     (case from_flat meta of
        None \<Rightarrow> (s, [])
      | Some doc \<Rightarrow>
          let version = se_meta_version s + 1
          in (s\<lparr>se_meta_doc := doc, se_meta_version := version\<rparr>,
              [(EventMetaChanged, meta_change_data version (map fst meta))]))"

section \<open>The session as a machine\<close>

text \<open>The pump's two operations happen only while its goroutine runs.\<close>

datatype session_op =
    OpChunk int "byte list" | OpReadError int bool wait_status
  | OpWrite bool string "byte list" | OpTake string | OpRelease string
  | OpResize bool u16 u16 | OpRename string
  | OpMetaJSON string string "u64 option" | OpMeta "(string, string) gomap"
  | OpAddSub | OpRemoveSub | OpPause bool | OpResume bool

record session_env =
  ne_osw :: os_write
  ne_msg :: string
  ne_signal_text :: "nat \<Rightarrow> string"
  ne_fadd :: "string \<Rightarrow> string \<Rightarrow> string option"

fun session_step :: "session_env \<Rightarrow> session \<Rightarrow> session_op \<Rightarrow> session" where
  "session_step env s (OpChunk now p) =
     (if se_reader s then fst (pump_chunk (ne_osw env) (ne_msg env) s now p) else s)"
| "session_step env s (OpReadError nowMs deadline w) =
     (if se_reader s then fst (pump_error (ne_osw env) (ne_msg env) (ne_signal_text env) s nowMs deadline w) else s)"
| "session_step env s (OpWrite ok c p) = fst (write_input ok s c p)"
| "session_step env s (OpTake c) = session_take_write s c"
| "session_step env s (OpRelease c) = session_release_write s c"
| "session_step env s (OpResize ok cols rows) = fst (session_resize ok s cols rows)"
| "session_step env s (OpRename n) = set_name s n"
| "session_step env s (OpMetaJSON mode patch ifv) = fst (session_set_meta_json (ne_fadd env) s mode patch ifv)"
| "session_step env s (OpMeta m) = fst (session_set_meta s m)"
| "session_step env s OpAddSub = fst (add_subscriber s)"
| "session_step env s OpRemoveSub = fst (remove_subscriber s)"
| "session_step env s (OpPause ok) = fst (pause_reader ok s)"
| "session_step env s (OpResume ok) = fst (resume_reader ok s)"

definition session_wf :: "session \<Rightarrow> bool" where
  "session_wf s \<longleftrightarrow> se_cols s \<noteq> 0 \<and> se_rows s \<noteq> 0 \<and> mon_wf (se_mon s) \<and>
     mo_stream_pos (se_mon s) = ring_last_seq (se_ring s) \<and>
     (se_state s = StateRunning \<or> se_state s = StateExited \<and> \<not> se_reader s)"

lemma ring_write_end: "r_end (ring_write r p) = r_end r + of_nat (length p)"
  by (simp add: ring_write_def Let_def)

lemmas session_ops = pump_error_def write_input_def session_take_write_def session_release_write_def
  session_resize_def set_name_def add_subscriber_def remove_subscriber_def
  pause_reader_def resume_reader_def Let_def

text \<open>What the helpers of the pump leave alone.\<close>

lemma append_log_frame [simp]:
  "se_state (fst (append_log osw msg s now p)) = se_state s"
  "se_ring (fst (append_log osw msg s now p)) = se_ring s"
  "se_mon (fst (append_log osw msg s now p)) = se_mon s"
  "se_cols (fst (append_log osw msg s now p)) = se_cols s"
  "se_rows (fst (append_log osw msg s now p)) = se_rows s"
  "se_reader (fst (append_log osw msg s now p)) = se_reader s"
  "se_input (fst (append_log osw msg s now p)) = se_input s"
  "se_write_lock_holder (fst (append_log osw msg s now p)) = se_write_lock_holder s"
  "se_meta_version (fst (append_log osw msg s now p)) = se_meta_version s"
  "se_meta_doc (fst (append_log osw msg s now p)) = se_meta_doc s"
  "se_exit_code (fst (append_log osw msg s now p)) = se_exit_code s"
  "se_exit_sig (fst (append_log osw msg s now p)) = se_exit_sig s"
  "se_exited_at (fst (append_log osw msg s now p)) = se_exited_at s"
  "se_id (fst (append_log osw msg s now p)) = se_id s"
  "se_pid (fst (append_log osw msg s now p)) = se_pid s"
  by (auto simp: append_log_def split: option.split prod.split)

lemma finish_log_frame [simp]:
  "se_state (fst (finish_log osw msg s)) = se_state s"
  "se_ring (fst (finish_log osw msg s)) = se_ring s"
  "se_mon (fst (finish_log osw msg s)) = se_mon s"
  "se_cols (fst (finish_log osw msg s)) = se_cols s"
  "se_rows (fst (finish_log osw msg s)) = se_rows s"
  "se_reader (fst (finish_log osw msg s)) = se_reader s"
  "se_input (fst (finish_log osw msg s)) = se_input s"
  "se_write_lock_holder (fst (finish_log osw msg s)) = se_write_lock_holder s"
  "se_exit_code (fst (finish_log osw msg s)) = se_exit_code s"
  "se_exit_sig (fst (finish_log osw msg s)) = se_exit_sig s"
  "se_exited_at (fst (finish_log osw msg s)) = se_exited_at s"
  "se_id (fst (finish_log osw msg s)) = se_id s"
  "se_pid (fst (finish_log osw msg s)) = se_pid s"
  by (auto simp: finish_log_def split: option.split prod.split)

lemma pump_chunk_fields [simp]:
  "se_state (fst (pump_chunk osw msg s now p)) = se_state s"
  "se_ring (fst (pump_chunk osw msg s now p)) = ring_write (se_ring s) p"
  "se_mon (fst (pump_chunk osw msg s now p)) = (if p = [] then se_mon s else fst (feed (se_mon s) p now))"
  "se_cols (fst (pump_chunk osw msg s now p)) = se_cols s"
  "se_rows (fst (pump_chunk osw msg s now p)) = se_rows s"
  "se_reader (fst (pump_chunk osw msg s now p)) = se_reader s"
  "se_input (fst (pump_chunk osw msg s now p)) = se_input s"
  "se_write_lock_holder (fst (pump_chunk osw msg s now p)) = se_write_lock_holder s"
  "se_exit_code (fst (pump_chunk osw msg s now p)) = se_exit_code s"
  "se_exit_sig (fst (pump_chunk osw msg s now p)) = se_exit_sig s"
  "se_exited_at (fst (pump_chunk osw msg s now p)) = se_exited_at s"
  "se_id (fst (pump_chunk osw msg s now p)) = se_id s"
  "se_pid (fst (pump_chunk osw msg s now p)) = se_pid s"
  by (simp_all add: pump_chunk_def Let_def split_beta ring_write_def)

lemma session_finish_fields [simp]:
  "se_state (fst (session_finish osw msg st s now w)) = StateExited"
  "se_ring (fst (session_finish osw msg st s now w)) = se_ring s"
  "se_mon (fst (session_finish osw msg st s now w)) = se_mon s"
  "se_cols (fst (session_finish osw msg st s now w)) = se_cols s"
  "se_rows (fst (session_finish osw msg st s now w)) = se_rows s"
  "se_reader (fst (session_finish osw msg st s now w)) = se_reader s"
  "se_input (fst (session_finish osw msg st s now w)) = se_input s"
  "se_write_lock_holder (fst (session_finish osw msg st s now w)) = []"
  "se_exit_code (fst (session_finish osw msg st s now w)) = fst (exit_status st (se_adopted s) w)"
  "se_exited_at (fst (session_finish osw msg st s now w)) = now"
  by (simp_all add: session_finish_def Let_def split_beta)

lemma mon_wf_feed: "mon_wf m \<Longrightarrow> mon_wf (fst (feed m p now))"
  using monitor.inv_step[of m "MFeed p now"] by simp

lemma set_meta_json_cases:
  "(fst (session_set_meta_json fadd s mode patch ifv) = s) \<or>
   (\<exists>doc. fst (session_set_meta_json fadd s mode patch ifv) =
     s\<lparr>se_meta_doc := doc, se_meta_version := se_meta_version s + 1\<rparr>)"
proof (cases "reserved_key_error patch")
  case None
  let ?P = "\<lambda>r. r = s \<or> (\<exists>doc. r = s\<lparr>se_meta_doc := doc, se_meta_version := se_meta_version s + 1\<rparr>)"
  have if_or: "?P a \<Longrightarrow> ?P b \<Longrightarrow> ?P (if c then a else b)" for a b c by simp
  show ?thesis
  proof (cases "meta_next fadd mode (se_meta_doc s) patch")
    case (Some doc)
    have upd: "?P (s\<lparr>se_meta_doc := doc, se_meta_version := se_meta_version s + 1\<rparr>)" by blast
    show ?thesis
      unfolding session_set_meta_json_def None Some option.case Let_def if_distrib[of fst] fst_conv
      by (intro if_or upd disjI1 refl)
  qed (simp add: session_set_meta_json_def None)
qed (simp add: session_set_meta_json_def)

lemma set_meta_cases:
  "(fst (session_set_meta s m) = s) \<or>
   (\<exists>doc. fst (session_set_meta s m) = s\<lparr>se_meta_doc := doc, se_meta_version := se_meta_version s + 1\<rparr>)"
  by (auto simp: session_set_meta_def Let_def split: option.split)

lemma session_wf_step: "session_wf s \<Longrightarrow> session_wf (session_step env s x)"
proof (cases x)
  case (OpMetaJSON mode patch ifv)
  assume "session_wf s"
  then show ?thesis
    using set_meta_json_cases[of "ne_fadd env" s mode patch ifv] by (auto simp: session_wf_def OpMetaJSON)
next
  case (OpMeta m)
  assume "session_wf s"
  then show ?thesis using set_meta_cases[of s m] by (auto simp: session_wf_def OpMeta)
next
  case (OpChunk now p)
  assume "session_wf s"
  then show ?thesis
    by (auto simp: session_wf_def OpChunk mon_wf_feed feed_view(3) ring_write_end ring_last_seq_def)
next
  case (OpReadError now d w)
  assume "session_wf s"
  then show ?thesis by (auto simp: session_wf_def OpReadError pump_error_def Let_def)
qed (auto simp: session_wf_def session_ops)

text \<open>The session as seen by its interface: nothing after the exit moves it, \<open>exit_view\<close> is what
  \<open>ExitCode\<close>, \<open>ExitedAt\<close> and the PTY say.\<close>

definition exit_view :: "session \<Rightarrow> session_state \<times> int \<times> string \<times> int \<times> (string \<times> byte list) list \<times> ring" where
  "exit_view s = (se_state s, se_exit_code s, se_exit_sig s, se_exited_at s, se_input s, se_ring s)"

lemma exit_final_step:
  "session_wf s \<Longrightarrow> se_state s = StateExited \<Longrightarrow> exit_view (session_step env s x) = exit_view s"
proof (cases x)
  case (OpMetaJSON mode patch ifv)
  then show ?thesis using set_meta_json_cases[of "ne_fadd env" s mode patch ifv] by (auto simp: exit_view_def)
next
  case (OpMeta m)
  then show ?thesis using set_meta_cases[of s m] by (auto simp: exit_view_def)
qed (auto simp: session_wf_def exit_view_def session_ops)

interpretation session: machine "session_step env" session_wf for env
  by unfold_locales (rule session_wf_step)

interpretation exited: machine "session_step env" "\<lambda>s. session_wf s \<and> se_state s = StateExited \<and> exit_view s = v" for env v
  by unfold_locales (metis exit_final_step session_wf_step exit_view_def prod.inject)

lemma spawn_wf: "host_spawn env i cfg = Inr s \<Longrightarrow> session_wf s \<and> se_state s = StateRunning \<and> se_id s = i"
  by (auto simp: host_spawn_def Let_def new_session_def session_wf_def mon_wf_new new_ring_def
      ring_last_seq_def split: if_splits sum.splits option.splits) (simp_all add: new_monitor_def)

section \<open>Properties\<close>




lemma meta_write_cases:
  assumes "session_set_meta_json fadd s mode patch ifv = (s', v, e, evs)"
  shows "if e \<noteq> None then s' = s \<and> v = se_meta_version s \<and> evs = []
    else se_meta_version s' = se_meta_version s + 1 \<and> v = se_meta_version s' \<and>
      is_object (se_meta_doc s') \<and> length (se_meta_doc s') \<le> 65536 \<and>
      (ifv = None \<or> ifv = Some (se_meta_version s)) \<and> length evs = 1"
proof (cases "reserved_key_error patch")
  case None
  show ?thesis
  proof (cases "meta_next fadd mode (se_meta_doc s) patch")
    case (Some doc)
    with None assms show ?thesis
      by (simp add: session_set_meta_json_def Let_def MaxMetaBytes_def split: if_split_asm) auto
  qed (use None assms in \<open>simp add: session_set_meta_json_def split: if_split_asm\<close>, auto)
next
  case (Some c)
  then have "e \<noteq> None \<and> s' = s \<and> v = se_meta_version s \<and> evs = []"
    using assms unfolding session_set_meta_json_def Some by (auto split: if_split_asm)
  then show ?thesis by simp
qed

text \<open>C17. A meta write is all or nothing: on any error, a version conflict, a reserved key, an
  unknown mode, invalid JSON, a result that is no object or too large, the session is
  unchanged and nothing is announced; otherwise the stored document is an object of at most
  64 KiB and the version moves on by one.\<close>

theorem meta_write_atomic:
  assumes "session_set_meta_json fadd s mode patch ifv = (s', v, e, evs)"
  shows "if e \<noteq> None then s' = s \<and> v = se_meta_version s \<and> evs = []
    else se_meta_version s' = se_meta_version s + 1 \<and> v = se_meta_version s' \<and>
      is_object (se_meta_doc s') \<and> length (se_meta_doc s') \<le> 65536 \<and>
      (ifv = None \<or> ifv = Some (se_meta_version s)) \<and> length evs = 1"
  using assms by (rule meta_write_cases)

text \<open>C18. Compare-and-swap: of two writers that read the same version, at most one succeeds.\<close>

theorem meta_cas:
  assumes "session_set_meta_json fadd s mode1 patch1 (Some v0) = (s1, v1, None, evs)"
  shows "session_set_meta_json fadd s1 mode2 patch2 (Some v0) = (s1, v0 + 1, Some MetaConflict, [])"
proof -
  from meta_write_cases[OF assms] have "se_meta_version s1 = v0 + 1" by auto
  then show ?thesis by (simp add: session_set_meta_json_def)
qed

lemma canon_get: "json_wf v \<Longrightarrow> mget (obj_of (canon v)) k = map_option canon (mget (obj_of v) k)"
  by (cases v) (simp_all add: mget_sort mget_map_snd json_wf_Obj_iff)

lemma reserved_not_in_patch:
  assumes "reserved_key_error patch = None" "json_decode patch = Some p" "is_reserved_meta_key k"
  shows "mget (obj_of p) k = None"
proof (cases p)
  case (JObj m)
  then have "\<forall>x\<in>set (map fst m). \<not> is_reserved_meta_key x"
    using assms(1,2) by (simp add: reserved_key_error_def top_level_keys_def list_ex_iff split: if_split_asm)
  then show ?thesis using assms(3) by (auto simp: JObj mget_None_iff)
qed simp_all

text \<open>C29. The reserved namespace is safe from merges: a merge by a client leaves every key
  \<open>rpty\<close> and \<open>rpty.*\<close> of the document as it was.\<close>

theorem reserved_keys_survive_merge:
  assumes "session_set_meta_json fadd s mode patch ifv = (s', v, None, evs)"
    and "mode = [] \<or> mode = MetaModeMerge" "doc_value (se_meta_doc s) = Some d" "is_reserved_meta_key k"
  shows "\<exists>d'. doc_value (se_meta_doc s') = Some d' \<and>
    map_option canon (mget (obj_of d') k) = map_option canon (mget (obj_of d) k)"
proof -
  have res: "reserved_key_error patch = None"
    using assms(1) by (cases "reserved_key_error patch") (auto simp: session_set_meta_json_def split: if_split_asm)
  have nx: "meta_next fadd mode (se_meta_doc s) patch = merge_patch (se_meta_doc s) patch"
    using assms(2) by (auto simp: meta_next_def)
  obtain doc where doc: "merge_patch (se_meta_doc s) patch = Some doc" "se_meta_doc s' = doc" "is_object doc"
    using assms(1) nx res
    by (cases "merge_patch (se_meta_doc s) patch")
      (auto simp: session_set_meta_json_def Let_def split: if_split_asm)
  then obtain p where p: "json_decode patch = Some p" by (auto simp: merge_patch_def split: option.splits)
  from merge_patch_text[OF p assms(3)] doc have d': "doc_value doc = Some (canon (merge_value d p))" "is_obj p"
    by (metis option.inject)+
  have wf: "json_wf d" "json_wf p"
    using doc_value_good[OF assms(3)] json_decode_good[OF p] by (auto intro: json_good_wf)
  have "mget (obj_of (merge_value d p)) k = mget (obj_of d) k"
    using merge_get[OF wf(2) d'(2)] reserved_not_in_patch[OF res p assms(4)] by simp
  moreover have "canon (canon x) = canon x" for x by simp
  ultimately show ?thesis
    using d'(1) doc(2) canon_get[OF json_wf_merge(1)[OF wf]] by (simp add: option.map_comp comp_def)
qed

text \<open>Spawning retries transient PTY failures, and only those, a bounded number of times:
  the process of the first attempt that succeeds is used when every attempt before it failed
  transiently and it is one of the first four; otherwise the spawn fails. At most 70 ms are
  slept.\<close>

theorem spawn_retry_bounded:
  "(case start_pty_with_retry start of (r, attempts, slept) \<Rightarrow>
     attempts \<le> 4 \<and> slept \<le> 70 \<and>
     (\<forall>pid. r = Inr pid \<longleftrightarrow> (\<exists>k\<le>3. start k = Inr pid \<and>
        (\<forall>j<k. \<exists>e. start j = Inl e \<and> is_transient_spawn_err e))))"
proof -
  have ex: "(\<exists>k\<le>3. P k \<and> (\<forall>j<k. Q j)) \<longleftrightarrow>
      P 0 \<or> Q 0 \<and> P 1 \<or> Q 0 \<and> Q 1 \<and> P 2 \<or> Q 0 \<and> Q 1 \<and> Q 2 \<and> P 3" for P Q :: "nat \<Rightarrow> bool"
  proof -
    have "k \<le> 3 \<longleftrightarrow> k = 0 \<or> k = 1 \<or> k = 2 \<or> k = 3" for k :: nat by arith
    moreover have "(\<forall>j<(1::nat). Q j) = Q 0" "(\<forall>j<(2::nat). Q j) = (Q 0 \<and> Q 1)" "(\<forall>j<(3::nat). Q j) = (Q 0 \<and> Q 1 \<and> Q 2)"
      by (auto simp: less_Suc_eq numeral_2_eq_2 numeral_3_eq_3)
    ultimately show ?thesis by auto
  qed
  show ?thesis
    unfolding ex start_pty_with_retry_def
    by (simp add: start_loop.simps ptySpawnRetries_def ptySpawnRetryDelay_def Let_def numeral_2_eq_2 numeral_3_eq_3 split: sum.split)
qed

theorem spawn_retry_bounded_witness:
  "fst (start_pty_with_retry (\<lambda>k. if k < 2 then Inl (Errno ENXIO) else Inr 7)) = Inr 7"
proof -
  let ?start = "\<lambda>k::nat. if k < 2 then Inl (Errno ENXIO) else Inr (7::int)"
  obtain r attempts slept where r: "start_pty_with_retry ?start = (r, attempts, slept)" by (metis prod_cases3)
  have "\<exists>k\<le>3. ?start k = Inr 7 \<and> (\<forall>j<k. \<exists>e. ?start j = Inl e \<and> is_transient_spawn_err e)"
    by (intro exI[of _ 2]) (simp add: is_transient_spawn_err_def)
  then show ?thesis using spawn_retry_bounded[of ?start] unfolding r prod.case by simp
qed

section \<open>A concrete session\<close>

definition demo_cfg :: spawn_config where
  "demo_cfg = \<lparr>sc_cmd = ''sh'', sc_args = [], sc_cwd = [], sc_env = [], sc_cols = 80, sc_rows = 24,
     sc_name = [], sc_meta = [], sc_annotations = [], sc_ring_bytes = 4, sc_log_path = [],
     sc_silence_after = 0, sc_linger = True\<rparr>"

definition demo_spawn_env :: spawn_env where
  "demo_spawn_env = \<lparr>en_osw = (\<lambda>disk p. length p), en_open_log = True, en_start = (\<lambda>k. Inr 7),
     en_pollable = True, en_now_ms = 5\<rparr>"

definition demo_env :: session_env where
  "demo_env = \<lparr>ne_osw = (\<lambda>disk p. length p), ne_msg = [], ne_signal_text = (\<lambda>n. []), ne_fadd = (\<lambda>a b. None)\<rparr>"

definition demo_session :: session where
  "demo_session = new_session ''s'' demo_cfg \<lparr>r_buf = replicate 4 0, r_end = 0, r_filled = 0, r_next = 0\<rparr> None 7 5"

lemma demo_spawn: "host_spawn demo_spawn_env ''s'' demo_cfg = Inr demo_session"
  by (simp add: host_spawn_def demo_cfg_def demo_spawn_env_def demo_session_def spawn_log_def
      start_pty_with_retry_def start_loop.simps new_ring_def ptySpawnRetries_def)

lemma demo_wf [simp]: "session_wf demo_session"
  using spawn_wf[OF demo_spawn] by simp

lemma demo_doc: "se_meta_doc demo_session = []" "se_meta_version demo_session = 0"
    "se_write_lock_holder demo_session = []" "se_state demo_session = StateRunning"
  by (simp_all add: demo_session_def new_session_def demo_cfg_def initial_meta_doc_def Let_def)




text \<open>A first meta write on the concrete session.\<close>

lemma demo_doc_merge: "merge_patch [] ''{}'' = Some ''{}''" "json_decode ''{}'' = Some (JObj [])" "is_object ''{}''"
proof -
  have d: "json_decode ''{}'' = Some (JObj [])" and v: "doc_value [] = Some JNull"
    by (simp_all add: decode_eval doc_value_def)
  then show "json_decode ''{}'' = Some (JObj [])" by simp
  show m: "merge_patch [] ''{}'' = Some ''{}''"
    unfolding merge_patch_value[OF d v] by (simp add: json_encode_def)
  show "is_object ''{}''" using merge_patch_text[OF d v] m by fastforce
qed

lemma demo_meta_write:
  "session_set_meta_json (\<lambda>a b. None) demo_session [] ''{}'' (Some 0) =
     (demo_session\<lparr>se_meta_doc := ''{}'', se_meta_version := 1\<rparr>, 1, None, [(EventMetaChanged, meta_change_data 1 [])])"
  using demo_doc_merge
  by (simp add: session_set_meta_json_def demo_doc reserved_key_error_def top_level_keys_def meta_next_def
      MaxMetaBytes_def Let_def)

theorem meta_write_atomic_witness:
  "\<exists>s1 evs. session_set_meta_json (\<lambda>a b. None) demo_session [] ''{}'' (Some 0) = (s1, 1, None, evs) \<and>
     is_object (se_meta_doc s1)"
  using meta_write_atomic[OF demo_meta_write] demo_meta_write by auto

theorem meta_cas_witness:
  "\<exists>s1. session_set_meta_json (\<lambda>a b. None) s1 [] ''{}'' (Some 0) = (s1, 1, Some MetaConflict, [])"
  using meta_cas[OF demo_meta_write, of "[]" "''{}''"] by auto

theorem reserved_keys_survive_merge_witness:
  "\<exists>d. doc_value (se_meta_doc (fst (session_set_meta_json (\<lambda>a b. None) demo_session [] ''{}'' (Some 0)))) = Some d \<and> mget (obj_of d) ''rpty.host'' = None"
proof -
  have "doc_value (se_meta_doc demo_session) = Some JNull" by (simp add: demo_doc doc_value_def)
  from reserved_keys_survive_merge[OF demo_meta_write _ this, of "''rpty.host''"] show ?thesis
    by (auto simp: is_reserved_meta_key_def demo_meta_write)
qed

end
