(* ===== verification/Handover.thy ===== *)
theory Handover
  imports Session
begin

text \<open>
  The engine side of a daemon upgrade, \<open>pkg/host/handover.go\<close>: what the old daemon says of a
  session, and the session that the new daemon builds from it. The file descriptor of the PTY
  travels with the state and is the same PTY afterwards.
\<close>

section \<open>The transferable state\<close>

record handover_state =
  hs_id :: string
  hs_name :: string
  hs_cmd :: string
  hs_args :: "string list"
  hs_cwd :: string
  hs_cols :: u16
  hs_rows :: u16
  hs_meta :: "(string, string) gomap"
  hs_meta_doc :: string
  hs_meta_version :: u64
  hs_pid :: int
  hs_started_at_ms :: int
  hs_ring_cap :: int
  hs_ring_end_seq :: u64
  hs_bytes_in :: u64
  hs_log_path :: string
  hs_linger :: bool
  hs_silence_ms :: int
  hs_stream_pos :: u64

definition handover_of :: "session \<Rightarrow> handover_state \<times> byte list" where
  "handover_of s =
     (let (ringData, endSeq) = ring_snapshot (se_ring s)
      in (\<lparr>hs_id = se_id s, hs_name = se_name s, hs_cmd = sc_cmd (se_cfg s), hs_args = sc_args (se_cfg s),
           hs_cwd = sc_cwd (se_cfg s), hs_cols = se_cols s, hs_rows = se_rows s,
           hs_meta = project (se_meta_doc s), hs_meta_doc = se_meta_doc s,
           hs_meta_version = se_meta_version s, hs_pid = se_pid s, hs_started_at_ms = se_started_at s,
           hs_ring_cap = int (ring_cap_bytes (se_ring s)), hs_ring_end_seq = endSeq,
           hs_bytes_in = se_bytes_in s, hs_log_path = sc_log_path (se_cfg s),
           hs_linger = sc_linger (se_cfg s),
           hs_silence_ms = mo_silence_after (se_mon s) div 1000000, hs_stream_pos = endSeq\<rparr>,
          ringData))"

text \<open>
  \<open>reopen\<close> is the outcome of opening the log again: an error text, or the content of the file.
  \<open>now\<close> is in nanoseconds. \<open>None\<close> is the panic of a ring without capacity.
\<close>

definition adopted_cfg :: "handover_state \<Rightarrow> spawn_config" where
  "adopted_cfg st =
     \<lparr>sc_cmd = hs_cmd st, sc_args = hs_args st, sc_cwd = hs_cwd st, sc_env = [],
      sc_cols = hs_cols st, sc_rows = hs_rows st, sc_name = hs_name st, sc_meta = hs_meta st,
      sc_annotations = [], sc_ring_bytes = hs_ring_cap st, sc_log_path = hs_log_path st,
      sc_silence_after = 0, sc_linger = hs_linger st\<rparr>"

definition adopt_session ::
  "(string + byte list) \<Rightarrow> int \<Rightarrow> handover_state \<Rightarrow> byte list \<Rightarrow> (session \<times> mon_event list) option" where
  "adopt_session reopen now st ringData =
     (let ringCap = (if hs_ring_cap st \<le> 0 then DefaultRingBytes else hs_ring_cap st);
          (logw, evs) =
            (if hs_log_path st = [] then (None, [])
             else case reopen of
                 Inr disk \<Rightarrow> (Some (reopen_session_log_writer disk (now div 1000000)), [])
               | Inl msg \<Rightarrow> (None, [(EventMetaChanged, [(DataKeyLogBroken, msg)])]))
      in map_option (\<lambda>rng.
           (\<lparr>se_id = hs_id st, se_ring = rng,
             se_mon = set_stream_pos (new_monitor (hs_id st) (hs_silence_ms st * 1000000)) (hs_stream_pos st) now,
             se_subscribers = 0, se_cfg = adopted_cfg st, se_name = hs_name st,
             se_meta_doc = adopt_meta_doc (hs_meta_doc st) (hs_meta st),
             se_meta_version = hs_meta_version st, se_state = StateRunning, se_pid = hs_pid st,
             se_cols = hs_cols st, se_rows = hs_rows st, se_bytes_in = hs_bytes_in st,
             se_write_lock_holder = [], se_started_at = hs_started_at_ms st,
             se_exit_code = 0, se_exit_sig = [], se_exited_at = 0,
             se_logw = logw, se_log_broken = False, se_paused = False, se_adopted = True,
             se_reader = True, se_input = []\<rparr>, evs))
         (ring_from_snapshot ringCap ringData (hs_ring_end_seq st)))"

section \<open>What survives\<close>

lemma trim_left_skip_ws: "trim_left s = [] \<Longrightarrow> trim_left (skip_ws s) = []"
proof (induction s)
  case (Cons c s)
  show ?case
  proof (cases "is_space c")
    case True
    then have "space_width (c # s) = 1" by (auto simp: space_width_def space1_def is_space_def)
    with Cons True show ?thesis by (subst (asm) (2) trim_left.simps) simp
  qed (use Cons in simp)
qed simp

lemma zero_digit: "is_digit (CHR ''0'')" by (simp add: is_digit_def)

lemma blank_no_json: "trim_left s = [] \<Longrightarrow> json_decode s = None"
proof (cases "skip_ws s")
  case (Cons c r)
  assume "trim_left s = []"
  then have "trim_left (c # r) = []" using trim_left_skip_ws[of s] Cons by simp
  then have w: "space_width (c # r) \<noteq> 0" by (subst (asm) trim_left.simps) (auto split: if_splits)
  have "\<not> is_space c" using hd_dropWhile[of is_space s] Cons by simp
  have "space1 c \<or> byte_of c \<in> {0xC2, 0xE1, 0xE2, 0xE3}"
    using w unfolding space_width_def space2_def space3_def Let_def
    by (simp split: list.splits if_splits) blast+
  moreover have "\<not> space1 d \<and> byte_of d \<notin> {0xC2, 0xE1, 0xE2, 0xE3 :: nat}"
    if "is_digit d \<or> d \<in> {CHR 0x22, CHR ''{'', CHR ''['', CHR ''t'', CHR ''f'', CHR ''n'', CHR ''-''}" for d
    using that by (auto simp: space1_def is_digit_def)
  ultimately have "c \<notin> {CHR 0x22, CHR ''{'', CHR ''['', CHR ''t'', CHR ''f'', CHR ''n'', CHR ''-''}" "\<not> is_digit c"
    by blast+
  then show ?thesis
    using zero_digit by (auto simp add: json_decode_def Cons parse_number_def num_int_def)
qed (simp add: json_decode_def del: dropWhile_eq_Nil_conv)

lemma trim_right_Nil: "trim_right s = [] \<Longrightarrow> trim_left s = [] \<or> s = []"
  by (cases s) (auto split: if_splits)

lemma trim_left_idem: "trim_left (trim_left s) = trim_left s"
proof (induction s rule: trim_left.induct)
  case (1 s)
  then show ?case by (cases "space_width s = 0") (simp_all add: trim_left_id trim_left.simps[of s])
qed

lemma project_blank: "trim_space doc = [] \<Longrightarrow> project doc = []"
  using trim_right_Nil[of "trim_left doc"] blank_no_json[of doc]
  by (auto simp: trim_space_def project_def trim_left_idem)

lemma adopted_annotations:
  "annotations_for_wire (adopt_meta_doc doc (project doc)) = annotations_for_wire doc"
  "project (adopt_meta_doc doc (project doc)) = project doc"
  by (auto simp: adopt_meta_doc_def annotations_for_wire_def project_blank)

lemma set_stream_pos_view [simp]:
  "mo_stream_pos (set_stream_pos m p now) = p"
  "mon_wf m \<Longrightarrow> mon_wf (set_stream_pos m p now)"
  by (simp_all add: set_stream_pos_def mon_wf_def)

text \<open>The ring on both sides of the handover, for any history that it holds.\<close>

lemma handover_ring:
  assumes "ring_rep (se_ring s) h" "handover_of s = (st, data)"
  obtains r' where "ring_from_snapshot (hs_ring_cap st) data (hs_ring_end_seq st) = Some r'" "ring_rep r' h"
    "r_filled r' = r_filled (se_ring s)" "length (r_buf r') = length (r_buf (se_ring s))" "0 < hs_ring_cap st"
    "hs_ring_end_seq st = of_nat (length h)"
proof -
  let ?r = "se_ring s"
  have st: "hs_ring_cap st = int (ring_cap_bytes ?r)" "data = drop (length h - r_filled ?r) h"
      "hs_ring_end_seq st = of_nat (length h)"
    using assms(2) ring_snapshot_eq[OF assms(1)] by (auto simp: handover_of_def)
  have c: "0 < length (r_buf ?r)" "length h < 2 ^ 64" "r_filled ?r \<le> length (r_buf ?r)" "r_filled ?r \<le> length h"
    using assms(1) by (auto simp: ring_rep_def)
  obtain r0 where r0: "new_ring (hs_ring_cap st) = Some r0" "r_filled r0 = 0"
      "length (r_buf r0) = length (r_buf ?r)" "r_next r0 = 0"
    using c(1) by (simp add: new_ring_def st(1) ring_cap_bytes_def)
  let ?r' = "(ring_write r0 data)\<lparr>r_end := hs_ring_end_seq st\<rparr>"
  have "ring_rep ?r' h" using ring_rep_restore[OF r0(1) _ c(2)] by (simp add: st suffix_drop)
  moreover have "r_filled ?r' = r_filled ?r" "length (r_buf ?r') = length (r_buf ?r)"
    using r0 c by (simp_all add: ring_write_filled st(2))
  ultimately show ?thesis
    using that[of ?r'] r0(1) c(1) by (simp add: ring_from_snapshot_def st(1,3) ring_cap_bytes_def)
qed

lemma adopt_Some:
  assumes "0 < hs_ring_cap st" "ring_from_snapshot (hs_ring_cap st) data (hs_ring_end_seq st) = Some r"
  shows "\<exists>s' evs. adopt_session reopen now st data = Some (s', evs) \<and> se_ring s' = r"
  using assms by (auto simp: adopt_session_def Let_def split: sum.split)

lemma adopt_fields:
  assumes "adopt_session reopen now st data = Some (s', evs)"
  shows "se_id s' = hs_id st" "se_name s' = hs_name st" "se_state s' = StateRunning" "se_reader s'"
    "se_cfg s' = adopted_cfg st" "se_meta_version s' = hs_meta_version st" "se_pid s' = hs_pid st"
    "se_meta_doc s' = adopt_meta_doc (hs_meta_doc st) (hs_meta st)" "se_cols s' = hs_cols st"
    "se_rows s' = hs_rows st" "se_bytes_in s' = hs_bytes_in st" "se_started_at s' = hs_started_at_ms st"
    "se_write_lock_holder s' = []" "se_subscribers s' = 0" "se_adopted s'" "\<not> se_paused s'"
    "se_mon s' = set_stream_pos (new_monitor (hs_id st) (hs_silence_ms st * 1000000)) (hs_stream_pos st) now"
    "se_logw s' = (if hs_log_path st = [] then None
       else (case reopen of Inl _ \<Rightarrow> None | Inr disk \<Rightarrow> Some (reopen_session_log_writer disk (now div 1000000))))"
  using assms by (auto simp: adopt_session_def Let_def split: prod.splits if_splits sum.splits)

text \<open>C6. A running session survives the upgrade: the new daemon's session answers every replay
  request and every INFO as the old one did, with nobody attached and the write lock free, and
  it is a well-formed session whose reader runs.\<close>

theorem handover_preserves:
  assumes "session_wf s" "se_state s = StateRunning" "ring_rep (se_ring s) h" "handover_of s = (st, data)"
  shows "\<exists>s' evs. adopt_session reopen now st data = Some (s', evs) \<and> session_wf s' \<and> se_reader s' \<and>
    ring_rep (se_ring s') h \<and>
    (\<forall>since. session_replay_from s' since = session_replay_from s since) \<and>
    session_info_of live s' = (session_info_of live s)\<lparr>si_subscribers := 0, si_write_lock_holder := []\<rparr>"
proof -
  obtain r' where r': "ring_from_snapshot (hs_ring_cap st) data (hs_ring_end_seq st) = Some r'" "ring_rep r' h"
      "r_filled r' = r_filled (se_ring s)" "0 < hs_ring_cap st" "hs_ring_end_seq st = of_nat (length h)"
    using handover_ring[OF assms(3,4)] by metis
  obtain s' evs where s': "adopt_session reopen now st data = Some (s', evs)" "se_ring s' = r'"
    using adopt_Some[OF r'(4,1)] by blast
  note f = adopt_fields[OF s'(1)]
  have st: "st = fst (handover_of s)" using assms(4) by simp
  have pos: "hs_stream_pos st = hs_ring_end_seq st" "hs_cols st = se_cols s" "hs_rows st = se_rows s"
    by (simp_all add: st handover_of_def split_beta)
  have last: "ring_last_seq r' = ring_last_seq (se_ring s)" "ring_last_seq r' = of_nat (length h)"
    using ring_rep_last[OF r'(2)] ring_rep_last[OF assms(3)] by simp_all
  have "session_wf s'"
    using assms(1) by (auto simp: session_wf_def f pos s'(2) last(2) r'(5) intro: mon_wf_new set_stream_pos_view)
  moreover have "session_replay_from s' since = session_replay_from s since" for since
    by (simp add: session_replay_from_def s'(2) ring_rep_replay[OF r'(2)] ring_rep_replay[OF assms(3)] r'(3) ring_len_def)
  moreover have "session_info_of live s' = (session_info_of live s)\<lparr>si_subscribers := 0, si_write_lock_holder := []\<rparr>"
    using assms(2) by (simp add: session_info_of_def Let_def f adopted_cfg_def session_last_seq_def s'(2) last(1)
        split: option.split)
      (simp add: st handover_of_def split_beta adopted_annotations split: option.split)
  ultimately show ?thesis using s' f r'(2) by blast
qed

text \<open>The log's buffer does not survive: nothing flushes it before the old daemon leaves, so
  the adopted session goes on after what had reached the file, and what the old daemon had
  buffered, up to 64 KiB of records and at first the header itself, is lost.\<close>

theorem handover_loses_buffer:
  assumes "se_logw s = Some l1" "sc_log_path (se_cfg s) \<noteq> []" "handover_of s = (st, data)"
    and "adopt_session (Inr (bw_disk (sl_w l1))) now st data = Some (s', evs)"
    and "se_logw s' = Some l2" "seslog_appends osw l2 ys = (l3, False)" "seslog_close osw l3 = (l4, False)"
  shows "bw_disk (sl_w l4) = bw_disk (sl_w l1) @ concat (map enc_record (append_records (now div 1000000) ys))"
proof -
  have "st = fst (handover_of s)" using assms(3) by simp
  then have "hs_log_path st = sc_log_path (se_cfg s)" by (simp add: handover_of_def split_beta)
  then have "l2 = reopen_session_log_writer (bw_disk (sl_w l1)) (now div 1000000)"
    using adopt_fields(18)[OF assms(4)] assms(2,5) by simp
  then have l2: "bw_all (sl_w l2) = bw_disk (sl_w l1)" "\<not> sl_closed l2" "sl_last_ms l2 = now div 1000000"
    by (simp_all add: reopen_session_log_writer_def bw_all_def)
  then have "bw_all (sl_w l3) = bw_disk (sl_w l1) @ concat (map enc_record (append_records (now div 1000000) ys))"
      "\<not> sl_closed l3"
    using seslog_appends_all[OF l2(2) assms(6)] by auto
  then show ?thesis using close_flushed[OF assms(7)] by simp
qed

text \<open>A session that had already exited comes back as running: the new daemon reports it
  without its exit code and time, and its end of output is reported as a second exit.\<close>

theorem handover_revives_exited:
  assumes "se_state s = StateExited" "handover_of s = (st, data)" "adopt_session reopen now st data = Some (s', evs)"
  shows "exit_code s = Some (se_exit_code s, se_exit_sig s) \<and> exit_code s' = None \<and>
    exit_code (fst (pump_error osw msg signal_text s' nowMs False w)) = Some (-1, [])"
  using assms(1) adopt_fields(3,15,16)[OF assms(3)]
  by (simp add: exit_code_def pump_error_def session_finish_def exit_status_def Let_def split_beta)

section \<open>A concrete handover\<close>

definition demo_logged :: session where
  "demo_logged = demo_session\<lparr>se_cfg := demo_cfg\<lparr>sc_log_path := ''/l''\<rparr>,
     se_logw := Some \<lparr>sl_w = \<lparr>bw_disk = [], bw_buf = log_header 5, bw_failed = False\<rparr>, sl_last_ms = 5, sl_closed = False\<rparr>\<rparr>"

lemma demo_logged_ring: "ring_rep (se_ring demo_logged) []"
  by (auto simp: demo_logged_def demo_session_def new_session_def intro!: ring_rep_new[of 4] simp: new_ring_def)

lemma demo_logged_wf: "session_wf demo_logged" "se_state demo_logged = StateRunning"
    "se_logw demo_logged = Some \<lparr>sl_w = \<lparr>bw_disk = [], bw_buf = log_header 5, bw_failed = False\<rparr>, sl_last_ms = 5, sl_closed = False\<rparr>"
    "sc_log_path (se_cfg demo_logged) = ''/l''" "hs_log_path (fst (handover_of demo_logged)) = ''/l''"
  using demo_wf by (simp_all add: demo_logged_def session_wf_def demo_doc handover_of_def split_beta)

lemma demo_adopt:
  obtains st data s' evs where "handover_of demo_logged = (st, data)"
    "adopt_session reopen now st data = Some (s', evs)" "hs_log_path st = ''/l''"
proof -
  obtain st data where st: "handover_of demo_logged = (st, data)" by fastforce
  obtain r' where "ring_from_snapshot (hs_ring_cap st) data (hs_ring_end_seq st) = Some r'" "0 < hs_ring_cap st"
    using handover_ring[OF demo_logged_ring st] by metis
  from adopt_Some[OF this(2,1), of reopen now] obtain s' evs where "adopt_session reopen now st data = Some (s', evs)"
    by blast
  with st demo_logged_wf(5) show ?thesis by (intro that) auto
qed

theorem handover_preserves_witness:
  "\<exists>s'. session_replay_from s' 0 = session_replay_from demo_logged 0 \<and> se_reader s'"
proof -
  obtain st data where st: "handover_of demo_logged = (st, data)" by fastforce
  from handover_preserves[OF demo_logged_wf(1,2) demo_logged_ring st] show ?thesis by blast
qed

theorem handover_loses_buffer_witness:
  "\<exists>content. content \<noteq> log_header 5 @ [2, 1, 0x41] \<and> read_session_log (\<lambda>n. True) content = LogError BadFrame"
proof -
  obtain st data s' evs where a: "handover_of demo_logged = (st, data)"
      "adopt_session (Inr []) 7000000 st data = Some (s', evs)" "hs_log_path st = ''/l''" by (rule demo_adopt)
  have l: "se_logw s' = Some (reopen_session_log_writer [] 7)"
    using adopt_fields(18)[OF a(2)] a(3) by simp
  let ?osw = "\<lambda>disk p. length p"
  obtain l3 where l3: "seslog_appends ?osw (reopen_session_log_writer [] 7) [(9, [0x41])] = (l3, False)"
      "sl_w l3 = \<lparr>bw_disk = [], bw_buf = [2, 1, 0x41], bw_failed = False\<rparr>" "\<not> sl_closed l3"
    by (simp add: reopen_session_log_writer_def log_eval)
  obtain l4 where l4: "seslog_close ?osw l3 = (l4, False)"
    using l3(2,3) by (simp add: log_eval)
  have d: "bw_disk (sl_w \<lparr>sl_w = \<lparr>bw_disk = [], bw_buf = log_header 5, bw_failed = False\<rparr>, sl_last_ms = 5, sl_closed = False\<rparr>) = []"
    by simp
  from handover_loses_buffer[OF demo_logged_wf(3) _ a(1) _ l l3(1) l4, of 7000000 evs] a(2) demo_logged_wf(4)
  have "bw_disk (sl_w l4) = [2, 1, 0x41]" by (simp add: d log_eval enc_record_def record_head_def)
  then have "read_session_log (\<lambda>n. True) (bw_disk (sl_w l4)) = LogError BadFrame"
    by (simp add: read_session_log_def log_eval)
  then show ?thesis by (intro exI[of _ "[2, 1, 0x41]"]) (simp add: \<open>bw_disk (sl_w l4) = [2, 1, 0x41]\<close> log_eval)
qed

theorem handover_revives_exited_witness:
  "\<exists>s'. exit_code s' = None \<and> exit_code (fst (pump_error (\<lambda>d p. length p) [] (\<lambda>n. []) s' 9 False (WaitExited 3))) = Some (-1, [])"
proof -
  let ?s = "demo_logged\<lparr>se_state := StateExited\<rparr>"
  have h: "handover_of ?s = handover_of demo_logged" by (simp add: handover_of_def)
  obtain st data s' evs where a: "handover_of demo_logged = (st, data)"
      "adopt_session (Inl ''x'') 0 st data = Some (s', evs)" by (rule demo_adopt)
  from handover_revives_exited[of ?s st data "Inl ''x''" 0 s' evs "\<lambda>d p. length p" "[]" "\<lambda>n. []" 9 "WaitExited 3"] h a
  show ?thesis by auto
qed

end
