(* ===== verification/Ids.thy ===== *)
theory Ids
  imports Prelude
begin

text \<open>
  The opaque ids of \<open>pkg/ids\<close>: a three-letter prefix, an underscore, and the 32 lower-case
  hexadecimal digits of a version 7 UUID. The UUID library is a parameter: \<open>u\<close> is the text of
  a new UUID (\<open>None\<close> when there is no entropy), \<open>uv\<close> reads the version of a UUID's text.
\<close>

section \<open>Prefixes\<close>

abbreviation "PrefixSession \<equiv> ''ses''"
abbreviation "PrefixClient \<equiv> ''cli''"
abbreviation "PrefixToken \<equiv> ''tok''"
abbreviation "PrefixWatch \<equiv> ''wch''"

definition all_prefixes :: "string list" where
  "all_prefixes = [PrefixSession, PrefixClient, PrefixToken, PrefixWatch]"

definition is_lower :: "char \<Rightarrow> bool" where
  "is_lower c \<longleftrightarrow> (97 :: nat) \<le> of_char c \<and> of_char c \<le> (122 :: nat)"

definition is_hex :: "char \<Rightarrow> bool" where
  "is_hex c \<longleftrightarrow> (48 :: nat) \<le> of_char c \<and> of_char c \<le> (57 :: nat) \<or> (97 :: nat) \<le> of_char c \<and> of_char c \<le> (102 :: nat)"

definition validate_prefix :: "string \<Rightarrow> bool" where
  "validate_prefix p \<longleftrightarrow> length p = 3 \<and> list_all is_lower p"

section \<open>Making and checking ids\<close>

definition id_pattern :: "string \<Rightarrow> bool" where
  "id_pattern s \<longleftrightarrow> length s = 36 \<and> list_all is_lower (take 3 s) \<and> s ! 3 = CHR ''_'' \<and> list_all is_hex (drop 4 s)"

definition new_id :: "string \<Rightarrow> string option \<Rightarrow> string option" where
  "new_id p u =
     (if \<not> validate_prefix p then None
      else map_option (\<lambda>t. p @ ''_'' @ filter (\<lambda>c. c \<noteq> CHR ''-'') t) u)"

definition dashed :: "string \<Rightarrow> string" where
  "dashed hex = sub_slice 0 8 hex @ ''-'' @ sub_slice 8 12 hex @ ''-'' @ sub_slice 12 16 hex @ ''-'' @
     sub_slice 16 20 hex @ ''-'' @ sub_slice 20 32 hex"

text \<open>Whether \<open>parseUUID\<close> succeeds.\<close>

definition parse_uuid :: "(string \<Rightarrow> nat option) \<Rightarrow> string \<Rightarrow> bool" where
  "parse_uuid uv i \<longleftrightarrow> id_pattern i \<and> uv (dashed (drop 4 i)) = Some 7"

definition ids_validate :: "(string \<Rightarrow> nat option) \<Rightarrow> string \<Rightarrow> string \<Rightarrow> bool" where
  "ids_validate uv i expected \<longleftrightarrow>
     i \<noteq> [] \<and> id_pattern i \<and> prefix (expected @ ''_'') i \<and> parse_uuid uv i"

definition ids_validate_any :: "(string \<Rightarrow> nat option) \<Rightarrow> string \<Rightarrow> bool" where
  "ids_validate_any uv i \<longleftrightarrow>
     i \<noteq> [] \<and> id_pattern i \<and> take 3 i \<in> set all_prefixes \<and> parse_uuid uv i"

definition prefix_of :: "string \<Rightarrow> string" where
  "prefix_of i = (if length i < 3 then [] else take 3 i)"

section \<open>What the library promises\<close>

text \<open>The text form of a version 7 UUID: 8-4-4-4-12 lower-case digits, the version digit first in
  the third group; reading it back gives version 7.\<close>

definition uuid7_text :: "string \<Rightarrow> bool" where
  "uuid7_text t \<longleftrightarrow> (\<exists>a b c d e. t = a @ ''-'' @ b @ ''-'' @ (CHR ''7'' # c) @ ''-'' @ d @ ''-'' @ e \<and>
     length a = 8 \<and> length b = 4 \<and> length c = 3 \<and> length d = 4 \<and> length e = 12 \<and>
     list_all is_hex (a @ b @ c @ d @ e))"

definition reads_v7 :: "(string \<Rightarrow> nat option) \<Rightarrow> bool" where
  "reads_v7 uv \<longleftrightarrow> (\<forall>t. uuid7_text t \<longrightarrow> uv t = Some 7)"

lemma no_dash: "list_all is_hex s \<Longrightarrow> filter (\<lambda>c. c \<noteq> CHR ''-'') s = s"
  by (induction s) (auto simp: is_hex_def)

lemma new_id_valid:
  assumes "uuid7_text t" "reads_v7 uv" "new_id p (Some t) = Some i"
  shows "ids_validate uv i p \<and> length i = 36 \<and> prefix_of i = p"
proof -
  obtain a b c d e where t: "t = a @ ''-'' @ b @ ''-'' @ (CHR ''7'' # c) @ ''-'' @ d @ ''-'' @ e"
      and len: "length a = 8" "length b = 4" "length c = 3" "length d = 4" "length e = 12"
      and hex: "list_all is_hex a" "list_all is_hex b" "list_all is_hex c" "list_all is_hex d" "list_all is_hex e"
    using assms(1) by (auto simp: uuid7_text_def)
  let ?h = "a @ b @ (CHR ''7'' # c) @ d @ e"
  have i: "i = p @ ''_'' @ ?h" and p: "length p = 3" "list_all is_lower p"
    using assms(3) hex by (auto simp: new_id_def validate_prefix_def t no_dash split: if_splits)
  have h: "length ?h = 32" "list_all is_hex ?h" using len hex by (simp_all add: is_hex_def)
  have "dashed ?h = t" using len by (simp add: dashed_def sub_slice_def t)
  moreover have "drop 4 i = ?h" using p(1) by (simp add: i)
  moreover have "id_pattern i" using p h by (simp add: id_pattern_def i nth_append)
  ultimately show ?thesis
    using p h(1) assms(1,2) by (auto simp: ids_validate_def parse_uuid_def reads_v7_def prefix_of_def i)
qed

text \<open>A new id is valid for its own prefix and for no other, and shows that prefix; an id of a
  registered kind is valid for exactly one kind.\<close>

theorem new_id_validates:
  assumes "uuid7_text t" "reads_v7 uv" "new_id p (Some t) = Some i"
  shows "(\<forall>q. length q = 3 \<longrightarrow> (ids_validate uv i q \<longleftrightarrow> q = p)) \<and> prefix_of i = p \<and>
    (ids_validate_any uv i \<longleftrightarrow> p \<in> set all_prefixes)"
proof -
  note v = new_id_valid[OF assms]
  then have i: "id_pattern i" "parse_uuid uv i" "i \<noteq> []" "take 3 i = p"
    by (auto simp: ids_validate_def prefix_of_def)
  have "q = p" if "length q = 3" "prefix (q @ ''_'') i" for q
  proof -
    from that(2) obtain r where "i = q @ ''_'' @ r" by (auto elim: prefixE)
    with that(1) i(4) show ?thesis by simp
  qed
  then show ?thesis using v i by (auto simp: ids_validate_def ids_validate_any_def)
qed

definition demo_uuid :: string where
  "demo_uuid = ''01234567-89ab-7def-0123-456789abcdef''"

lemma demo_uuid7: "uuid7_text demo_uuid"
  unfolding uuid7_text_def demo_uuid_def
  by (rule exI[of _ "''01234567''"], rule exI[of _ "''89ab''"], rule exI[of _ "''def''"],
      rule exI[of _ "''0123''"], rule exI[of _ "''456789abcdef''"]) (simp add: is_hex_def)

text \<open>A reader of the version: the digit's value.\<close>

definition uuid_version :: "string \<Rightarrow> nat option" where
  "uuid_version t = (if length t = 36 then Some (of_char (t ! 14) - 48) else None)"

lemma uuid_version_reads: "reads_v7 uuid_version"
proof -
  have "uuid_version t = Some 7" if "uuid7_text t" for t
  proof -
    from that obtain a b c d e where t: "t = a @ ''-'' @ b @ ''-'' @ (CHR ''7'' # c) @ ''-'' @ d @ ''-'' @ e"
      and len: "length a = 8" "length b = 4" "length c = 3" "length d = 4" "length e = 12"
      by (auto simp: uuid7_text_def)
    have "t = (a @ ''-'' @ b @ ''-'') @ (CHR ''7'' # c @ ''-'' @ d @ ''-'' @ e)" by (simp add: t)
    moreover have "length (a @ ''-'' @ b @ ''-'') = 14" using len by simp
    ultimately have "t ! 14 = CHR ''7''" by (metis nth_append_length)
    then show ?thesis using len by (simp add: uuid_version_def t)
  qed
  then show ?thesis by (simp add: reads_v7_def)
qed

theorem new_id_validates_witness:
  "\<exists>i. new_id PrefixWatch (Some demo_uuid) = Some i \<and> ids_validate uuid_version i PrefixWatch \<and>
     \<not> ids_validate uuid_version i PrefixSession"
proof -
  have "validate_prefix PrefixWatch" by (simp add: validate_prefix_def is_lower_def)
  then obtain i where i: "new_id PrefixWatch (Some demo_uuid) = Some i" by (simp add: new_id_def)
  from new_id_validates[OF demo_uuid7 uuid_version_reads i] i show ?thesis by auto
qed

end
