(* ===== verification/Registry.thy ===== *)
theory Registry
  imports Handover Ids "HOL-Library.Char_ord" "HOL-Library.List_Lexorder"
begin

text \<open>
  The registry of sessions, \<open>pkg/host/registry.go\<close>. A \<open>*Session\<close> is an index into the heap
  \<open>rg_heap\<close>, so that the two indexes, the connections and a spawn in flight can share one
  session; an index entry \<open>None\<close> is the nil placeholder of a spawn in flight. Each operation
  is one critical section, \<open>Spawn\<close> is two with the slow start of the process between them.
\<close>

section \<open>State\<close>

definition MaxRingBytes :: int where
  "MaxRingBytes = 64 * 1024 * 1024"

definition DefaultRingTotalBytes :: int where
  "DefaultRingTotalBytes = 512 * 1024 * 1024"

definition DefaultMaxSessions :: int where
  "DefaultMaxSessions = 256"

type_synonym sref = nat

record registry =
  rg_heap :: "session list"
  rg_byID :: "(string, sref option) gomap"
  rg_byName :: "(string, sref option) gomap"
  rg_maxSessions :: int
  rg_ringTotalCap :: int
  rg_ringReserved :: int
  rg_ringByID :: "(string, int) gomap"

type_synonym reg_event = "string \<times> mon_event"

definition new_registry :: "int \<Rightarrow> registry" where
  "new_registry maxSessions =
     \<lparr>rg_heap = [], rg_byID = [], rg_byName = [],
      rg_maxSessions = (if maxSessions \<le> 0 then DefaultMaxSessions else maxSessions),
      rg_ringTotalCap = DefaultRingTotalBytes, rg_ringReserved = 0, rg_ringByID = []\<rparr>"

definition set_ring_total_cap :: "registry \<Rightarrow> int \<Rightarrow> registry" where
  "set_ring_total_cap r capBytes = (if 0 < capBytes then r\<lparr>rg_ringTotalCap := capBytes\<rparr> else r)"

text \<open>\<open>nameRe\<close>: 1 to 64 of \<open>[A-Za-z0-9._-]\<close>, the first a letter or a digit.\<close>

definition is_alnum :: "char \<Rightarrow> bool" where
  "is_alnum c \<longleftrightarrow> (let n = of_char c :: nat in 48 \<le> n \<and> n \<le> 57 \<or> 65 \<le> n \<and> n \<le> 90 \<or> 97 \<le> n \<and> n \<le> 122)"

definition valid_name :: "string \<Rightarrow> bool" where
  "valid_name n = (case n of
      [] \<Rightarrow> False
    | c # cs \<Rightarrow> is_alnum c \<and> length cs \<le> 63 \<and>
        list_all (\<lambda>d. is_alnum d \<or> d = CHR ''.'' \<or> d = CHR ''_'' \<or> d = CHR ''-'') cs)"

abbreviation session_at :: "registry \<Rightarrow> sref \<Rightarrow> session" where
  "session_at r p \<equiv> rg_heap r ! p"

abbreviation set_session :: "registry \<Rightarrow> sref \<Rightarrow> session \<Rightarrow> registry" where
  "set_session r p s \<equiv> r\<lparr>rg_heap := (rg_heap r)[p := s]\<rparr>"

section \<open>Operations\<close>

definition ring_reservation :: "spawn_config \<Rightarrow> int" where
  "ring_reservation cfg = (if sc_ring_bytes cfg \<le> 0 then DefaultRingBytes else sc_ring_bytes cfg)"

text \<open>\<open>minted\<close> is the outcome of \<open>mintSessionID\<close>.\<close>

definition spawn_begin :: "registry \<Rightarrow> spawn_config \<Rightarrow> string option \<Rightarrow> registry \<times> (err + string)" where
  "spawn_begin r cfg minted =
     (let ringBytes = ring_reservation cfg
      in if sc_name cfg \<noteq> [] \<and> \<not> valid_name (sc_name cfg) then (r, Inl (Coded InvalidName))
         else if rg_maxSessions r \<le> int (length (rg_byID r)) then (r, Inl (Coded LimitExceeded))
         else if rg_ringTotalCap r < wrap_i64 (rg_ringReserved r + ringBytes) then (r, Inl (Coded LimitExceeded))
         else if sc_name cfg \<noteq> [] \<and> mget (rg_byName r) (sc_name cfg) \<noteq> None then (r, Inl (Coded NameTaken))
         else (case minted of
             None \<Rightarrow> (r, Inl (Coded Internal))
           | Some i \<Rightarrow>
               (r\<lparr>rg_byID := mput i None (rg_byID r),
                  rg_byName := (if sc_name cfg \<noteq> [] then mput (sc_name cfg) None (rg_byName r) else rg_byName r),
                  rg_ringReserved := wrap_i64 (rg_ringReserved r + ringBytes),
                  rg_ringByID := mput i ringBytes (rg_ringByID r)\<rparr>, Inr i)))"

definition release_ring :: "registry \<Rightarrow> string \<Rightarrow> registry" where
  "release_ring r i =
     r\<lparr>rg_ringReserved := wrap_i64 (rg_ringReserved r - (case mget (rg_ringByID r) i of Some b \<Rightarrow> b | None \<Rightarrow> 0)),
       rg_ringByID := mdel i (rg_ringByID r)\<rparr>"

definition spawn_finish ::
  "registry \<Rightarrow> spawn_config \<Rightarrow> string \<Rightarrow> err + session \<Rightarrow> registry \<times> (err + sref) \<times> reg_event list" where
  "spawn_finish r cfg i started =
     (case started of
        Inl e \<Rightarrow>
          (release_ring (r\<lparr>rg_byID := mdel i (rg_byID r),
             rg_byName := (if sc_name cfg \<noteq> [] then mdel (sc_name cfg) (rg_byName r) else rg_byName r)\<rparr>) i,
           Inl e, [])
      | Inr s \<Rightarrow>
          let p = length (rg_heap r)
          in (r\<lparr>rg_heap := rg_heap r @ [s], rg_byID := mput i (Some p) (rg_byID r),
                rg_byName := (if sc_name cfg \<noteq> [] then mput (sc_name cfg) (Some p) (rg_byName r) else rg_byName r)\<rparr>,
              Inr p, [(i, EventCreated, [(DataKeyCmd, sc_cmd cfg), (DataKeyName, sc_name cfg)])]))"

text \<open>\<open>Spawn\<close> with nothing between its two critical sections.\<close>

definition registry_spawn ::
  "spawn_env \<Rightarrow> registry \<Rightarrow> spawn_config \<Rightarrow> string option \<Rightarrow> registry \<times> (err + sref) \<times> reg_event list" where
  "registry_spawn env r cfg minted =
     (case spawn_begin r cfg minted of
        (r', Inl e) \<Rightarrow> (r', Inl e, [])
      | (r', Inr i) \<Rightarrow> spawn_finish r' cfg i (host_spawn env i cfg))"

definition registry_adopt :: "registry \<Rightarrow> session \<Rightarrow> registry \<times> err option" where
  "registry_adopt r s =
     (let ringBytes = max (int (ring_len (se_ring s))) (int (ring_cap_bytes (se_ring s)));
          p = length (rg_heap r)
      in if mget (rg_byID r) (se_id s) \<noteq> None then (r, Some (Coded Internal))
         else if se_name s \<noteq> [] \<and> mget (rg_byName r) (se_name s) \<noteq> None then (r, Some (Coded NameTaken))
         else (r\<lparr>rg_heap := rg_heap r @ [s],
                 rg_byName := (if se_name s \<noteq> [] then mput (se_name s) (Some p) (rg_byName r) else rg_byName r),
                 rg_byID := mput (se_id s) (Some p) (rg_byID r),
                 rg_ringReserved := wrap_i64 (rg_ringReserved r + ringBytes),
                 rg_ringByID := mput (se_id s) ringBytes (rg_ringByID r)\<rparr>, None))"

text \<open>The lookup of both indexes; a placeholder counts as absent.\<close>

definition find_session :: "(string \<Rightarrow> nat option) \<Rightarrow> registry \<Rightarrow> string \<Rightarrow> sref option" where
  "find_session uv r idOrName =
     Option.bind (mget (if ids_validate uv idOrName PrefixSession then rg_byID r else rg_byName r) idOrName) (\<lambda>p. p)"

definition registry_lookup :: "(string \<Rightarrow> nat option) \<Rightarrow> registry \<Rightarrow> string \<Rightarrow> err + sref" where
  "registry_lookup uv r idOrName =
     (case find_session uv r idOrName of None \<Rightarrow> Inl (Coded SessionNotFound) | Some p \<Rightarrow> Inr p)"

definition registry_rename ::
  "(string \<Rightarrow> nat option) \<Rightarrow> registry \<Rightarrow> string \<Rightarrow> string \<Rightarrow> registry \<times> err option \<times> reg_event list" where
  "registry_rename uv r idOrName newName =
     (if newName \<noteq> [] \<and> \<not> valid_name newName then (r, Some (Coded InvalidName), [])
      else (case find_session uv r idOrName of
          None \<Rightarrow> (r, Some (Coded SessionNotFound), [])
        | Some p \<Rightarrow>
            if newName \<noteq> [] \<and> mget (rg_byName r) newName \<noteq> None \<and> mget (rg_byName r) newName \<noteq> Some (Some p)
            then (r, Some (Coded NameTaken), [])
            else
              let s = session_at r p;
                  names1 = (if se_name s \<noteq> [] then mdel (se_name s) (rg_byName r) else rg_byName r);
                  names2 = (if newName \<noteq> [] then mput newName (Some p) names1 else names1)
              in ((set_session r p (set_name s newName))\<lparr>rg_byName := names2\<rparr>, None,
                  [(se_id s, EventRenamed, [(DataKeyName, newName)])])))"

definition registry_remove :: "registry \<Rightarrow> string \<Rightarrow> registry" where
  "registry_remove r i =
     (case mget (rg_byID r) i of
        None \<Rightarrow> r
      | Some ps \<Rightarrow>
          let r1 = release_ring (r\<lparr>rg_byID := mdel i (rg_byID r)\<rparr>) i
          in (case ps of
                None \<Rightarrow> r1
              | Some p \<Rightarrow>
                  (let n = se_name (session_at r p)
                   in if n \<noteq> [] then r1\<lparr>rg_byName := mdel n (rg_byName r)\<rparr> else r1)))"

definition registry_list :: "registry \<Rightarrow> sref list" where
  "registry_list r = sort_key (\<lambda>p. se_id (session_at r p)) (List.map_filter snd (rg_byID r))"

definition registry_count :: "registry \<Rightarrow> nat" where
  "registry_count r = length (rg_byID r)"

definition expired :: "int \<Rightarrow> int \<Rightarrow> session \<Rightarrow> bool" where
  "expired now ttl s \<longleftrightarrow> (case exited_at s of None \<Rightarrow> False | Some t \<Rightarrow> ttl \<le> now - t)"

fun reap_loop :: "int \<Rightarrow> int \<Rightarrow> registry \<Rightarrow> sref list \<Rightarrow> registry \<times> string list" where
  "reap_loop now ttl r [] = (r, [])"
| "reap_loop now ttl r (p # ps) =
     (let i = se_id (session_at r p)
      in if expired now ttl (session_at r p)
         then (case reap_loop now ttl (registry_remove r i) ps of (r', is) \<Rightarrow> (r', i # is))
         else reap_loop now ttl r ps)"

definition reap_expired :: "int \<Rightarrow> int \<Rightarrow> registry \<Rightarrow> registry \<times> string list" where
  "reap_expired now ttl r = reap_loop now ttl r (registry_list r)"

section \<open>The invariant\<close>

text \<open>
  The first part speaks of the two indexes: an entry points to the session of that id, every
  named session is in the name index and nothing else is, and the placeholders are exactly the
  spawns in flight \<open>ps\<close>. The second part is the accounting.
\<close>

type_synonym pending = "(string \<times> spawn_config) list"

definition index_inv :: "registry \<Rightarrow> pending \<Rightarrow> bool" where
  "index_inv r ps \<longleftrightarrow>
     mwf (rg_byID r) \<and> mwf (rg_byName r) \<and>
     (\<forall>i p. mget (rg_byID r) i = Some (Some p) \<longrightarrow>
        p < length (rg_heap r) \<and> se_id (session_at r p) = i \<and>
        (se_name (session_at r p) \<noteq> [] \<longrightarrow> mget (rg_byName r) (se_name (session_at r p)) = Some (Some p))) \<and>
     (\<forall>n p. mget (rg_byName r) n = Some (Some p) \<longrightarrow>
        n \<noteq> [] \<and> se_name (session_at r p) = n \<and> mget (rg_byID r) (se_id (session_at r p)) = Some (Some p)) \<and>
     (\<forall>i. mget (rg_byID r) i = Some None \<longleftrightarrow> (\<exists>cfg. (i, cfg) \<in> set ps)) \<and>
     (\<forall>n. mget (rg_byName r) n = Some None \<longleftrightarrow> (\<exists>i cfg. (i, cfg) \<in> set ps \<and> sc_name cfg = n \<and> n \<noteq> [])) \<and>
     (\<forall>i cfg cfg'. (i, cfg) \<in> set ps \<longrightarrow> (i, cfg') \<in> set ps \<longrightarrow> cfg = cfg') \<and>
     (\<forall>i cfg j cfg'. (i, cfg) \<in> set ps \<longrightarrow> (j, cfg') \<in> set ps \<longrightarrow> sc_name cfg = sc_name cfg' \<longrightarrow>
        sc_name cfg \<noteq> [] \<longrightarrow> i = j) \<and>
     distinct ps"

definition account_inv :: "registry \<Rightarrow> bool" where
  "account_inv r \<longleftrightarrow>
     mwf (rg_ringByID r) \<and> fst ` set (rg_ringByID r) = fst ` set (rg_byID r) \<and>
     rg_ringReserved r = sum_list (map snd (rg_ringByID r)) \<and>
     (\<forall>x\<in>set (rg_ringByID r). 0 < snd x) \<and>
     rg_ringReserved r \<le> rg_ringTotalCap r \<and> rg_ringTotalCap r + MaxRingBytes < 2 ^ 63 \<and>
     0 < rg_maxSessions r \<and> int (length (rg_byID r)) \<le> rg_maxSessions r"

text \<open>Sums over association lists.\<close>

lemma sum_mput_new: "mget m k = None \<Longrightarrow> sum_list (map snd (mput k v m)) = sum_list (map snd m) + (v :: int)"
  unfolding mget_def mput_def by (induction m) (auto split: if_splits)

lemma mdel_absent: "mget m k = None \<Longrightarrow> mdel k m = m"
  by (metis delete_id mdel_def mget_None_iff)

lemma sum_mdel: "mwf m \<Longrightarrow> sum_list (map snd (mdel k m)) =
    sum_list (map snd m) - (case mget m k of Some b \<Rightarrow> b | None \<Rightarrow> (0 :: int))"
proof (induction m)
  case (Cons x m)
  obtain j v where x: "x = (j, v)" by fastforce
  have m: "mwf m" "mget m j = None" using Cons.prems by (auto simp: mwf_def mget_None_iff x)
  show ?case
  proof (cases "j = k")
    case True
    have "mdel k (x # m) = mdel k m" by (simp add: mdel_def x True)
    moreover have "mdel k m = m" using mdel_absent[of m k] m(2) True by simp
    moreover have "mget (x # m) k = Some v" by (simp add: mget_def x True)
    ultimately show ?thesis by (simp add: x)
  next
    case False
    then have "mdel k (x # m) = x # mdel k m" "mget (x # m) k = mget m k" by (simp_all add: mdel_def mget_def x)
    then show ?thesis using Cons.IH[OF m(1)] by simp
  qed
qed (simp add: mdel_def)

lemma sum_list_pos: "(\<forall>x\<in>set m. 0 < snd x) \<Longrightarrow> 0 \<le> sum_list (map snd (m :: (string \<times> int) list))"
  by (induction m) auto

lemma member_le_sum:
  "(\<forall>x\<in>set m. 0 < snd x) \<Longrightarrow> (k, v) \<in> set m \<Longrightarrow> v \<le> sum_list (map snd (m :: (string \<times> int) list))"
proof (induction m)
  case (Cons x m)
  then have "0 \<le> sum_list (map snd m)" by (intro sum_list_pos) simp
  with Cons show ?case by auto
qed simp

lemma mget_None_fst: "fst ` set m = fst ` set m' \<Longrightarrow> mget m k = None \<longleftrightarrow> mget m' k = None"
  by (simp add: mget_None_iff)

text \<open>Giving a reservation back, as \<open>Remove\<close> and a failed spawn do.\<close>

lemma account_release:
  assumes "account_inv r" "rg_ringByID r' = rg_ringByID r" "rg_ringReserved r' = rg_ringReserved r"
    and "rg_byID r' = mdel i (rg_byID r)" "rg_ringTotalCap r' = rg_ringTotalCap r" "rg_maxSessions r' = rg_maxSessions r"
    and "mwf (rg_byID r)"
  shows "account_inv (release_ring r' i)"
proof -
  let ?m = "rg_ringByID r"
  define b where "b = (case mget ?m i of Some b \<Rightarrow> b | None \<Rightarrow> 0)"
  have inv: "mwf ?m" "\<forall>x\<in>set ?m. 0 < snd x" "rg_ringReserved r = sum_list (map snd ?m)"
      "rg_ringReserved r \<le> rg_ringTotalCap r" "rg_ringTotalCap r + MaxRingBytes < 2 ^ 63"
      "fst ` set ?m = fst ` set (rg_byID r)" "0 < rg_maxSessions r" "int (length (rg_byID r)) \<le> rg_maxSessions r"
    using assms(1) by (simp_all add: account_inv_def)
  have b: "0 \<le> b" "b \<le> rg_ringReserved r"
    unfolding b_def inv(3) using member_le_sum[OF inv(2), of i] inv(2) sum_list_pos[OF inv(2)]
    by (force split: option.split dest: mget_SomeD)+
  have w: "wrap_i64 (rg_ringReserved r - b) = rg_ringReserved r - b"
    by (rule wrap_i64_id) (use b inv(4,5) in \<open>simp_all add: MaxRingBytes_def\<close>)
  have sum: "sum_list (map snd (mdel i ?m)) = rg_ringReserved r - b"
    unfolding b_def inv(3) using sum_mdel[OF inv(1)] .
  have len: "int (length (mdel i (rg_byID r))) \<le> rg_maxSessions r"
    using inv(8) length_mdel[OF assms(7), of i] by (auto split: if_splits)
  have pos: "\<forall>x\<in>set (mdel i ?m). 0 < snd x" using inv(2) by (auto dest: set_mdel[OF inv(1)])
  have keys: "fst ` set (mdel i ?m) = fst ` set (mdel i (rg_byID r))" by (simp add: fst_set_mdel inv(6))
  have r': "release_ring r' i = r'\<lparr>rg_ringReserved := rg_ringReserved r - b, rg_ringByID := mdel i ?m\<rparr>"
    using w by (simp add: release_ring_def assms(2,3) b_def)
  show ?thesis
    unfolding account_inv_def r' using sum len pos keys inv(1,4,5,7) b assms(4-6) by simp
qed

lemma account_reserve:
  assumes "account_inv r" "mget (rg_byID r) i = None" "sc_ring_bytes cfg \<le> MaxRingBytes"
    and "spawn_begin r cfg (Some i) = (r', Inr j)"
  shows "account_inv r'"
proof -
  let ?b = "ring_reservation cfg"
  have b: "0 < ?b" "?b \<le> MaxRingBytes"
    using assms(3) by (auto simp: ring_reservation_def DefaultRingBytes_def MaxRingBytes_def)
  have inv: "mwf (rg_ringByID r)" "\<forall>x\<in>set (rg_ringByID r). 0 < snd x" "rg_ringReserved r = sum_list (map snd (rg_ringByID r))"
      "rg_ringReserved r \<le> rg_ringTotalCap r" "rg_ringTotalCap r + MaxRingBytes < 2 ^ 63"
      "fst ` set (rg_ringByID r) = fst ` set (rg_byID r)"
    using assms(1) by (auto simp: account_inv_def)
  have "0 \<le> rg_ringReserved r" using sum_list_pos[OF inv(2)] inv(3) by simp
  then have w: "wrap_i64 (rg_ringReserved r + ?b) = rg_ringReserved r + ?b"
    using b inv(4,5) by (intro wrap_i64_id) auto
  have new: "mget (rg_ringByID r) i = None" using assms(2) mget_None_fst[OF inv(6)] by simp
  have r': "r' = r\<lparr>rg_byID := mput i None (rg_byID r),
        rg_byName := (if sc_name cfg \<noteq> [] then mput (sc_name cfg) None (rg_byName r) else rg_byName r),
        rg_ringReserved := rg_ringReserved r + ?b, rg_ringByID := mput i ?b (rg_ringByID r)\<rparr>"
      and cap: "rg_ringReserved r + ?b \<le> rg_ringTotalCap r" "int (length (rg_byID r)) < rg_maxSessions r"
    using assms(4) w by (auto simp: spawn_begin_def Let_def split: if_splits)
  have "\<forall>x\<in>set (mput i ?b (rg_ringByID r)). 0 < snd x"
    using inv(2) b(1) by (auto dest!: set_mput[OF inv(1)])
  moreover have "sum_list (map snd (mput i ?b (rg_ringByID r))) = rg_ringReserved r + ?b"
    by (simp add: sum_mput_new[OF new] inv(3))
  ultimately show ?thesis
    unfolding account_inv_def r' using inv(1,5,6) cap assms(2) by (simp add: length_mput fst_set_mput)
qed

section \<open>Every operation keeps the indexes\<close>

lemma index_invD:
  assumes "index_inv r ps"
  shows "mwf (rg_byID r)" "mwf (rg_byName r)"
    "mget (rg_byID r) i = Some (Some p) \<Longrightarrow> p < length (rg_heap r)"
    "mget (rg_byID r) i = Some (Some p) \<Longrightarrow> se_id (session_at r p) = i"
    "mget (rg_byID r) i = Some (Some p) \<Longrightarrow> se_name (session_at r p) \<noteq> [] \<Longrightarrow>
       mget (rg_byName r) (se_name (session_at r p)) = Some (Some p)"
    "mget (rg_byName r) n = Some (Some p) \<Longrightarrow> n \<noteq> []"
    "mget (rg_byName r) n = Some (Some p) \<Longrightarrow> se_name (session_at r p) = n"
    "mget (rg_byName r) n = Some (Some p) \<Longrightarrow> mget (rg_byID r) (se_id (session_at r p)) = Some (Some p)"
    "mget (rg_byID r) i = Some None \<longleftrightarrow> (\<exists>cfg. (i, cfg) \<in> set ps)"
    "mget (rg_byName r) n = Some None \<longleftrightarrow> (\<exists>i cfg. (i, cfg) \<in> set ps \<and> sc_name cfg = n \<and> n \<noteq> [])"
    "(i, cfg) \<in> set ps \<Longrightarrow> (i, cfg') \<in> set ps \<Longrightarrow> cfg = cfg'"
    "(i, cfg) \<in> set ps \<Longrightarrow> (j, cfg') \<in> set ps \<Longrightarrow> sc_name cfg = sc_name cfg' \<Longrightarrow> sc_name cfg \<noteq> [] \<Longrightarrow> i = j"
    "distinct ps"
proof -
  note c = assms[unfolded index_inv_def]
  note c1 = conjunct1[OF c] and c2 = conjunct2[OF c]
  note d1 = conjunct1[OF c2] and d2 = conjunct2[OF c2]
  note e1 = conjunct1[OF d2] and e2 = conjunct2[OF d2]
  note f1 = conjunct1[OF e2] and f2 = conjunct2[OF e2]
  note g1 = conjunct1[OF f2] and g2 = conjunct2[OF f2]
  note h1 = conjunct1[OF g2] and h2 = conjunct2[OF g2]
  note i1 = conjunct1[OF h2] and i2 = conjunct2[OF h2]
  note j1 = conjunct1[OF i2] and j2 = conjunct2[OF i2]
  show "mwf (rg_byID r)" by (rule c1)
  show "mwf (rg_byName r)" by (rule d1)
  show "mget (rg_byID r) i = Some (Some p) \<Longrightarrow> p < length (rg_heap r)" using e1 by simp
  show "mget (rg_byID r) i = Some (Some p) \<Longrightarrow> se_id (session_at r p) = i" using e1 by simp
  show "mget (rg_byID r) i = Some (Some p) \<Longrightarrow> se_name (session_at r p) \<noteq> [] \<Longrightarrow>
       mget (rg_byName r) (se_name (session_at r p)) = Some (Some p)" using e1 by simp
  show "mget (rg_byName r) n = Some (Some p) \<Longrightarrow> n \<noteq> []" using f1 by blast
  show "mget (rg_byName r) n = Some (Some p) \<Longrightarrow> se_name (session_at r p) = n" using f1 by simp
  show "mget (rg_byName r) n = Some (Some p) \<Longrightarrow> mget (rg_byID r) (se_id (session_at r p)) = Some (Some p)"
    using f1 by simp
  show "mget (rg_byID r) i = Some None \<longleftrightarrow> (\<exists>cfg. (i, cfg) \<in> set ps)" by (rule spec[OF g1])
  show "mget (rg_byName r) n = Some None \<longleftrightarrow> (\<exists>i cfg. (i, cfg) \<in> set ps \<and> sc_name cfg = n \<and> n \<noteq> [])"
    by (rule spec[OF h1])
  show "(i, cfg) \<in> set ps \<Longrightarrow> (i, cfg') \<in> set ps \<Longrightarrow> cfg = cfg'" using i1 by blast
  show "(i, cfg) \<in> set ps \<Longrightarrow> (j, cfg') \<in> set ps \<Longrightarrow> sc_name cfg = sc_name cfg' \<Longrightarrow> sc_name cfg \<noteq> [] \<Longrightarrow> i = j"
    using j1 by blast
  show "distinct ps" by (rule j2)
qed

lemma index_begin:
  assumes inv: "index_inv r ps" and new: "mget (rg_byID r) i = None"
    and started: "spawn_begin r cfg (Some i) = (r', Inr j)"
  shows "j = i \<and> index_inv r' ((i, cfg) # ps)"
proof -
  have free: "sc_name cfg \<noteq> [] \<Longrightarrow> mget (rg_byName r) (sc_name cfg) = None" and j: "j = i"
      and heap: "rg_heap r' = rg_heap r" and ids: "rg_byID r' = mput i None (rg_byID r)"
      and names: "rg_byName r' = (if sc_name cfg \<noteq> [] then mput (sc_name cfg) None (rg_byName r) else rg_byName r)"
    using started by (auto simp: spawn_begin_def Let_def split: if_splits)
  note D = index_invD[OF inv]
  have notin: "(i, c) \<notin> set ps" for c using D(9)[of i] new by auto
  have other: "sc_name c \<noteq> sc_name cfg" if "(k, c) \<in> set ps" "sc_name cfg \<noteq> []" for k c
    using D(10)[of "sc_name cfg"] free that by auto
  have "index_inv r' ((i, cfg) # ps)"
    unfolding index_inv_def
  proof (intro conjI allI impI)
    fix k p assume "mget (rg_byID r') k = Some (Some p)"
    then have "mget (rg_byID r) k = Some (Some p)" by (simp add: ids split: if_splits)
    note E = D(3-5)[OF this]
    show "p < length (rg_heap r')" "se_id (session_at r' p) = k" using E by (simp_all add: heap)
    show "mget (rg_byName r') (se_name (session_at r' p)) = Some (Some p)" if "se_name (session_at r' p) \<noteq> []"
      using E(3) that free by (auto simp: heap names)
  next
    fix n p assume "mget (rg_byName r') n = Some (Some p)"
    then have "mget (rg_byName r) n = Some (Some p)" by (simp add: names split: if_splits)
    note E = D(6-8)[OF this]
    show "n \<noteq> []" "se_name (session_at r' p) = n" "mget (rg_byID r') (se_id (session_at r' p)) = Some (Some p)"
      using E new by (auto simp: heap ids)
  next
    show "mget (rg_byID r') k = Some None \<longleftrightarrow> (\<exists>c. (k, c) \<in> set ((i, cfg) # ps))" for k
      using D(9)[of k] by (auto simp: ids)
    show "mget (rg_byName r') n = Some None \<longleftrightarrow> (\<exists>k c. (k, c) \<in> set ((i, cfg) # ps) \<and> sc_name c = n \<and> n \<noteq> [])" for n
      using D(10)[of n] by (auto simp: names)
    show "c = c'" if "(k, c) \<in> set ((i, cfg) # ps)" "(k, c') \<in> set ((i, cfg) # ps)" for k c c'
      using that D(11) notin by auto
    show "k = l" if "(k, c) \<in> set ((i, cfg) # ps)" "(l, c') \<in> set ((i, cfg) # ps)" "sc_name c = sc_name c'" "sc_name c \<noteq> []"
      for k c l c' using that D(12)[of k c l c'] other[of k c] other[of l c'] by auto
    show "distinct ((i, cfg) # ps)" using D(13) notin by simp
    show "mwf (rg_byID r')" "mwf (rg_byName r')" using D(1,2) by (simp_all add: ids names)
  qed
  with j show ?thesis by simp
qed

text \<open>A spawn that ends takes its entry out of the spawns in flight.\<close>

lemma index_fail:
  assumes inv: "index_inv r ps" and mem: "(i, cfg) \<in> set ps"
    and heap: "rg_heap r' = rg_heap r" and ids: "rg_byID r' = mdel i (rg_byID r)"
    and names: "rg_byName r' = (if sc_name cfg \<noteq> [] then mdel (sc_name cfg) (rg_byName r) else rg_byName r)"
  shows "index_inv r' (remove1 (i, cfg) ps)"
proof -
  note D = index_invD[OF inv]
  have set: "set (remove1 (i, cfg) ps) = set ps - {(i, cfg)}" using D(13) by simp
  have i: "mget (rg_byID r) i = Some None" using D(9)[of i] mem by auto
  have nm: "sc_name cfg \<noteq> [] \<Longrightarrow> mget (rg_byName r) (sc_name cfg) = Some None" using D(10)[of "sc_name cfg"] mem by auto
  have only: "c = cfg" if "(i, c) \<in> set ps" for c using D(11)[OF that mem] .
  have uniq: "k = i \<and> c = cfg" if "(k, c) \<in> set ps" "sc_name c = sc_name cfg" "sc_name cfg \<noteq> []" for k c
    using D(12)[OF that(1) mem] that only by auto
  show ?thesis
    unfolding index_inv_def
  proof (intro conjI allI impI)
    fix k p assume "mget (rg_byID r') k = Some (Some p)"
    then have "mget (rg_byID r) k = Some (Some p)" by (simp add: ids split: if_splits)
    note E = D(3-5)[OF this]
    show "p < length (rg_heap r')" "se_id (session_at r' p) = k" using E by (simp_all add: heap)
    show "mget (rg_byName r') (se_name (session_at r' p)) = Some (Some p)" if "se_name (session_at r' p) \<noteq> []"
      using E(3) that nm by (auto simp: heap names)
  next
    fix n p assume "mget (rg_byName r') n = Some (Some p)"
    then have "mget (rg_byName r) n = Some (Some p)" by (simp add: names split: if_splits)
    note E = D(6-8)[OF this]
    show "n \<noteq> []" "se_name (session_at r' p) = n" "mget (rg_byID r') (se_id (session_at r' p)) = Some (Some p)"
      using E i by (auto simp: heap ids)
  next
    show "mget (rg_byID r') k = Some None \<longleftrightarrow> (\<exists>c. (k, c) \<in> set (remove1 (i, cfg) ps))" for k
      using D(9)[of k] only by (auto simp: ids set)
    show "mget (rg_byName r') n = Some None \<longleftrightarrow> (\<exists>k c. (k, c) \<in> set (remove1 (i, cfg) ps) \<and> sc_name c = n \<and> n \<noteq> [])" for n
      using D(10)[of n] uniq by (auto simp: names set)
    show "c = c'" if "(k, c) \<in> set (remove1 (i, cfg) ps)" "(k, c') \<in> set (remove1 (i, cfg) ps)" for k c c'
      using that D(11) by (auto simp: set)
    show "k = l" if "(k, c) \<in> set (remove1 (i, cfg) ps)" "(l, c') \<in> set (remove1 (i, cfg) ps)" "sc_name c = sc_name c'" "sc_name c \<noteq> []"
      for k c l c' using that D(12)[of k c l c'] by (auto simp: set)
    show "distinct (remove1 (i, cfg) ps)" using D(13) by simp
    show "mwf (rg_byID r')" "mwf (rg_byName r')" using D(1,2) by (simp_all add: ids names)
  qed
qed

lemma index_done:
  assumes inv: "index_inv r ps" and mem: "(i, cfg) \<in> set ps" and s: "se_id s = i" "se_name s = sc_name cfg"
  shows "index_inv (r\<lparr>rg_heap := rg_heap r @ [s], rg_byID := mput i (Some (length (rg_heap r))) (rg_byID r),
      rg_byName := (if sc_name cfg \<noteq> [] then mput (sc_name cfg) (Some (length (rg_heap r))) (rg_byName r) else rg_byName r)\<rparr>)
    (remove1 (i, cfg) ps)" (is "index_inv ?r _")
proof -
  note D = index_invD[OF inv]
  have set: "set (remove1 (i, cfg) ps) = set ps - {(i, cfg)}" using D(13) by simp
  have i: "mget (rg_byID r) i = Some None" using D(9)[of i] mem by auto
  have nm: "sc_name cfg \<noteq> [] \<Longrightarrow> mget (rg_byName r) (sc_name cfg) = Some None" using D(10)[of "sc_name cfg"] mem by auto
  have only: "c = cfg" if "(i, c) \<in> set ps" for c using D(11)[OF that mem] .
  have uniq: "k = i \<and> c = cfg" if "(k, c) \<in> set ps" "sc_name c = sc_name cfg" "sc_name cfg \<noteq> []" for k c
    using D(12)[OF that(1) mem] that only by auto
  have old: "session_at ?r p = session_at r p" if "p < length (rg_heap r)" for p
    using that by (simp add: nth_append)
  have new: "session_at ?r (length (rg_heap r)) = s" by simp
  show ?thesis
    unfolding index_inv_def
  proof (intro conjI allI impI)
    fix k p assume a: "mget (rg_byID ?r) k = Some (Some p)"
    show "p < length (rg_heap ?r)"
      using a D(3)[of k p] by (auto split: if_splits)
    show "se_id (session_at ?r p) = k"
      using a D(3,4)[of k p] s new old by (auto split: if_splits)
    show "mget (rg_byName ?r) (se_name (session_at ?r p)) = Some (Some p)" if n: "se_name (session_at ?r p) \<noteq> []"
    proof (cases "k = i")
      case False
      then have k: "mget (rg_byID r) k = Some (Some p)" using a by simp
      then show ?thesis using D(5)[OF k] n nm old[OF D(3)[OF k]] by (auto simp del: select_convs)
    qed (use a n new s in simp)
  next
    fix n p assume a: "mget (rg_byName ?r) n = Some (Some p)"
    show "n \<noteq> []" using a D(6)[of n p] by (auto split: if_splits)
    show "se_name (session_at ?r p) = n"
      using a D(3,7,8)[of _ p] s new old by (fastforce split: if_splits)
    show "mget (rg_byID ?r) (se_id (session_at ?r p)) = Some (Some p)"
      using a D(3,8)[of _ p] s i new old by (fastforce split: if_splits)
  next
    show "mget (rg_byID ?r) k = Some None \<longleftrightarrow> (\<exists>c. (k, c) \<in> set (remove1 (i, cfg) ps))" for k
      using D(9)[of k] only by (auto simp: set)
    show "mget (rg_byName ?r) n = Some None \<longleftrightarrow> (\<exists>k c. (k, c) \<in> set (remove1 (i, cfg) ps) \<and> sc_name c = n \<and> n \<noteq> [])" for n
      using D(10)[of n] uniq by (auto simp: set)
    show "c = c'" if "(k, c) \<in> set (remove1 (i, cfg) ps)" "(k, c') \<in> set (remove1 (i, cfg) ps)" for k c c'
      using that D(11) by (auto simp: set)
    show "k = l" if "(k, c) \<in> set (remove1 (i, cfg) ps)" "(l, c') \<in> set (remove1 (i, cfg) ps)" "sc_name c = sc_name c'" "sc_name c \<noteq> []"
      for k c l c' using that D(12)[of k c l c'] by (auto simp: set)
    show "distinct (remove1 (i, cfg) ps)" using D(13) by simp
    show "mwf (rg_byID ?r)" "mwf (rg_byName ?r)" using D(1,2) by simp_all
  qed
qed

text \<open>Any change of a session that keeps its id and its name.\<close>

lemma index_cong:
  assumes "length (rg_heap r') = length (rg_heap r)" "rg_byID r' = rg_byID r" "rg_byName r' = rg_byName r"
    and "\<And>q. se_id (session_at r' q) = se_id (session_at r q)" "\<And>q. se_name (session_at r' q) = se_name (session_at r q)"
  shows "index_inv r' ps = index_inv r ps"
  unfolding index_inv_def assms ..

lemma index_touch:
  assumes inv: "index_inv r ps" and s: "se_id s = se_id (session_at r p)" "se_name s = se_name (session_at r p)"
  shows "index_inv (set_session r p s) ps"
proof -
  have "(rg_heap r)[p := s] ! q = s \<and> q = p \<or> (rg_heap r)[p := s] ! q = rg_heap r ! q" for q
    by (cases "p < length (rg_heap r)"; cases "q = p") (auto simp: list_update_beyond not_less)
  then have same: "se_id ((rg_heap r)[p := s] ! q) = se_id (rg_heap r ! q)"
      "se_name ((rg_heap r)[p := s] ! q) = se_name (rg_heap r ! q)" for q
    using s by metis+
  show ?thesis by (subst index_cong[of _ r]) (simp_all add: same inv)
qed

lemma index_rename:
  assumes inv: "index_inv r ps" and p: "mget (rg_byID r) i = Some (Some p)"
    and free: "n = [] \<or> mget (rg_byName r) n = None \<or> mget (rg_byName r) n = Some (Some p)"
    and names1: "names1 = (if se_name (session_at r p) \<noteq> [] then mdel (se_name (session_at r p)) (rg_byName r) else rg_byName r)"
    and r': "rg_heap r' = (rg_heap r)[p := set_name (session_at r p) n]" "rg_byID r' = rg_byID r"
      "rg_byName r' = (if n \<noteq> [] then mput n (Some p) names1 else names1)"
  shows "index_inv r' ps"
proof -
  note D = index_invD[OF inv]
  let ?old = "se_name (session_at r p)"
  have len: "p < length (rg_heap r)" and idp: "se_id (session_at r p) = i" using D(3,4)[OF p] by auto
  have new: "se_id (session_at r' p) = i" "se_name (session_at r' p) = n"
    using len idp by (simp_all add: set_name_def r'(1))
  have other: "session_at r' q = session_at r q" if "q \<noteq> p" for q using that by (simp add: r'(1))
  have lenq: "length (rg_heap r') = length (rg_heap r)" by (simp add: r'(1))
  have names: "mget (rg_byName r') m = (if n \<noteq> [] \<and> m = n then Some (Some p)
      else if m \<noteq> [] \<and> m = ?old then None else mget (rg_byName r) m)" for m
    by (simp add: r'(3) names1)
  have pname: "?old = m" if "mget (rg_byName r) m = Some (Some p)" for m using D(7)[OF that] .
  have nopend: "mget (rg_byName r) ?old \<noteq> Some None" if "?old \<noteq> []" using D(5)[OF p that] by simp
  have mine: "mget (rg_byName r') m = Some (Some p) \<longleftrightarrow> n \<noteq> [] \<and> m = n" for m
    using pname[of m] D(6)[of m p] unfolding names by auto
  have theirs: "mget (rg_byName r') m = Some (Some q) \<longleftrightarrow> mget (rg_byName r) m = Some (Some q)" if "q \<noteq> p" for m q
  proof -
    have "m \<noteq> ?old \<and> \<not> (n \<noteq> [] \<and> m = n)" if "mget (rg_byName r) m = Some (Some q)"
      using that D(5)[OF p] D(6)[OF that] free \<open>q \<noteq> p\<close> by auto
    then show ?thesis using that unfolding names by auto
  qed
  have pend: "mget (rg_byName r') m = Some None \<longleftrightarrow> mget (rg_byName r) m = Some None" for m
    using free nopend unfolding names by auto
  show ?thesis
    unfolding index_inv_def r'(2) pend lenq
  proof (intro conjI allI impI)
    fix k q assume a: "mget (rg_byID r) k = Some (Some q)"
    show "q < length (rg_heap r)" using D(3)[OF a] .
    show "se_id (session_at r' q) = k"
      using D(4)[OF a] new(1) idp other[of q] by (cases "q = p") simp_all
    show "mget (rg_byName r') (se_name (session_at r' q)) = Some (Some q)" if "se_name (session_at r' q) \<noteq> []"
      using that mine theirs[of q] D(5)[OF a] new(2) other[of q] by (cases "q = p") simp_all
  next
    fix m q assume a: "mget (rg_byName r') m = Some (Some q)"
    show "m \<noteq> []" using a mine theirs[of q m] D(6)[of m q] by (cases "q = p") simp_all
    show "se_name (session_at r' q) = m"
      using a mine theirs[of q m] D(7)[of m q] new(2) other[of q] by (cases "q = p") simp_all
    show "mget (rg_byID r) (se_id (session_at r' q)) = Some (Some q)"
      using a theirs[of q m] D(8)[of m q] new(1) p other[of q] by (cases "q = p") simp_all
  next
    show "mget (rg_byID r) k = Some None \<longleftrightarrow> (\<exists>c. (k, c) \<in> set ps)" for k using D(9)[of k] .
    show "mget (rg_byName r) m = Some None \<longleftrightarrow> (\<exists>k c. (k, c) \<in> set ps \<and> sc_name c = m \<and> m \<noteq> [])" for m
      using D(10)[of m] .
    show "mwf (rg_byID r)" "mwf (rg_byName r')" using D(1,2) by (simp_all add: names1 r'(3))
    show "c = c'" if "(k, c) \<in> set ps" "(k, c') \<in> set ps" for k c c' using that by (rule D(11))
    show "k = l" if "(k, c) \<in> set ps" "(l, c') \<in> set ps" "sc_name c = sc_name c'" "sc_name c \<noteq> []" for k c l c'
      using that by (rule D(12))
    show "distinct ps" by (rule D(13))
  qed
qed

lemma index_remove:
  assumes inv: "index_inv r ps" and p: "mget (rg_byID r) i = Some (Some p)"
    and r': "rg_heap r' = rg_heap r" "rg_byID r' = mdel i (rg_byID r)"
      "rg_byName r' = (if se_name (session_at r p) \<noteq> [] then mdel (se_name (session_at r p)) (rg_byName r) else rg_byName r)"
  shows "index_inv r' ps"
proof -
  note D = index_invD[OF inv]
  have idp: "se_id (session_at r p) = i" using D(4)[OF p] .
  have names: "mget (rg_byName r') m = (if m \<noteq> [] \<and> m = se_name (session_at r p) then None else mget (rg_byName r) m)" for m
    by (auto simp: r'(3))
  have nopend: "mget (rg_byName r) (se_name (session_at r p)) \<noteq> Some None" if "se_name (session_at r p) \<noteq> []"
    using D(5)[OF p that] by simp
  show ?thesis
    unfolding index_inv_def
  proof (intro conjI allI impI)
    fix k q assume a: "mget (rg_byID r') k = Some (Some q)"
    then have a: "mget (rg_byID r) k = Some (Some q)" and k: "k \<noteq> i" by (auto simp: r' split: if_splits)
    show "q < length (rg_heap r')" "se_id (session_at r' q) = k" using D(3,4)[OF a] by (simp_all add: r')
    show "mget (rg_byName r') (se_name (session_at r' q)) = Some (Some q)" if m: "se_name (session_at r' q) \<noteq> []"
    proof -
      have E: "mget (rg_byName r) (se_name (session_at r q)) = Some (Some q)" using D(5)[OF a] m by (simp add: r')
      have "q \<noteq> p" using D(4)[OF a] idp k by auto
      then show ?thesis using E D(5)[OF p] unfolding names r'(1) by auto
    qed
  next
    fix m q assume a: "mget (rg_byName r') m = Some (Some q)"
    then have a: "mget (rg_byName r) m = Some (Some q)" and m: "m \<noteq> se_name (session_at r p)"
      using D(6)[of m q] unfolding names by (auto split: if_splits)
    have "q \<noteq> p" using D(7)[OF a] m by auto
    then have "se_id (session_at r q) \<noteq> i" using D(8)[OF a] p by auto
    then show "m \<noteq> []" "se_name (session_at r' q) = m" "mget (rg_byID r') (se_id (session_at r' q)) = Some (Some q)"
      using D(6-8)[OF a] by (simp_all add: r')
  next
    show "mget (rg_byID r') k = Some None \<longleftrightarrow> (\<exists>c. (k, c) \<in> set ps)" for k using D(9)[of k] p by (auto simp: r')
    have "mget (rg_byName r') m = Some None \<longleftrightarrow> mget (rg_byName r) m = Some None" for m
      using nopend unfolding names by auto
    then show "mget (rg_byName r') m = Some None \<longleftrightarrow> (\<exists>k c. (k, c) \<in> set ps \<and> sc_name c = m \<and> m \<noteq> [])" for m
      using D(10)[of m] by blast
    show "mwf (rg_byID r')" "mwf (rg_byName r')" using D(1,2) by (simp_all add: r')
    show "c = c'" if "(k, c) \<in> set ps" "(k, c') \<in> set ps" for k c c' using that by (rule D(11))
    show "k = l" if "(k, c) \<in> set ps" "(l, c') \<in> set ps" "sc_name c = sc_name c'" "sc_name c \<noteq> []" for k c l c'
      using that by (rule D(12))
    show "distinct ps" by (rule D(13))
  qed
qed

section \<open>The registry as a transition system\<close>

text \<open>
  The critical sections of any number of goroutines in any order, with the spawns in flight.
  A new id comes from a UUID that no session has; the daemon clamps the ring size of a spawn to
  \<open>MaxRingBytes\<close>; sessions change on their own between the registry's operations.
\<close>

inductive registry_step ::
  "(string \<Rightarrow> nat option) \<Rightarrow> registry \<times> pending \<Rightarrow> registry \<times> pending \<Rightarrow> bool" for uv where
  Begin: "uuid7_text u \<Longrightarrow> new_id PrefixSession (Some u) = Some i \<Longrightarrow> mget (rg_byID r) i = None \<Longrightarrow>
    sc_ring_bytes cfg \<le> MaxRingBytes \<Longrightarrow> spawn_begin r cfg (Some i) = (r', Inr j) \<Longrightarrow>
    registry_step uv (r, ps) (r', (i, cfg) # ps)"
| Refuse: "spawn_begin r cfg m = (r', Inl e) \<Longrightarrow> registry_step uv (r, ps) (r', ps)"
| Finish: "(i, cfg) \<in> set ps \<Longrightarrow> spawn_finish r cfg i (host_spawn env i cfg) = (r', res, evs) \<Longrightarrow>
    registry_step uv (r, ps) (r', remove1 (i, cfg) ps)"
| Rename: "registry_rename uv r x n = (r', e, evs) \<Longrightarrow> registry_step uv (r, ps) (r', ps)"
| Reap: "reap_expired now ttl r = (r', ids) \<Longrightarrow> registry_step uv (r, ps) (r', ps)"
| Touch: "\<forall>n. op \<noteq> OpRename n \<Longrightarrow>
    registry_step uv (r, ps) (set_session r p (session_step env (session_at r p) op), ps)"

inductive_cases registry_stepE: "registry_step uv (r, ps) (r', ps')"

definition registry_inv :: "registry \<times> pending \<Rightarrow> bool" where
  "registry_inv x \<longleftrightarrow> index_inv (fst x) (snd x) \<and> account_inv (fst x)"

lemma account_cong:
  "rg_byID r' = rg_byID r \<Longrightarrow> rg_ringByID r' = rg_ringByID r \<Longrightarrow> rg_ringReserved r' = rg_ringReserved r \<Longrightarrow>
   rg_ringTotalCap r' = rg_ringTotalCap r \<Longrightarrow> rg_maxSessions r' = rg_maxSessions r \<Longrightarrow> account_inv r' = account_inv r"
  by (simp add: account_inv_def)

lemma release_ring_fields [simp]:
  "rg_heap (release_ring r i) = rg_heap r" "rg_byID (release_ring r i) = rg_byID r"
  "rg_byName (release_ring r i) = rg_byName r" "rg_maxSessions (release_ring r i) = rg_maxSessions r"
  "rg_ringTotalCap (release_ring r i) = rg_ringTotalCap r"
  by (simp_all add: release_ring_def)

lemma find_session_byID:
  assumes "index_inv r ps" "find_session uv r x = Some p"
  shows "mget (rg_byID r) (se_id (session_at r p)) = Some (Some p)"
  using assms(2) index_invD(4)[OF assms(1), of x p] index_invD(8)[OF assms(1), of x p]
  by (auto simp: find_session_def split: if_splits bind_splits)

lemma remove_inv:
  assumes "index_inv r ps" "account_inv r" "mget (rg_byID r) i \<noteq> Some None"
  shows "index_inv (registry_remove r i) ps \<and> account_inv (registry_remove r i)"
proof (cases "mget (rg_byID r) i")
  case (Some q)
  then obtain p where p: "mget (rg_byID r) i = Some (Some p)" using assms(3) by (cases q) auto
  let ?r1 = "release_ring (r\<lparr>rg_byID := mdel i (rg_byID r)\<rparr>) i"
  have a1: "account_inv ?r1"
    using index_invD(1)[OF assms(1)] by (intro account_release[OF assms(2)]) simp_all
  have eq: "registry_remove r i = (if se_name (session_at r p) \<noteq> []
      then ?r1\<lparr>rg_byName := mdel (se_name (session_at r p)) (rg_byName r)\<rparr> else ?r1)"
    by (simp add: registry_remove_def p Let_def)
  have "account_inv (registry_remove r i)"
    unfolding eq using a1 by (simp add: account_cong[of "?r1\<lparr>rg_byName := _\<rparr>" ?r1])
  moreover have "index_inv (registry_remove r i) ps"
    by (rule index_remove[OF assms(1) p]) (simp_all add: eq)
  ultimately show ?thesis by simp
qed (simp add: registry_remove_def assms)

lemma remove_frame:
  "rg_heap (registry_remove r i) = rg_heap r" "rg_byID (registry_remove r i) = mdel i (rg_byID r)"
  by (auto simp: registry_remove_def mdel_absent Let_def split: option.split)

lemma reap_loop_inv:
  assumes "index_inv r ps" "account_inv r" "\<forall>p\<in>set refs. mget (rg_byID r) (se_id (session_at r p)) \<noteq> Some None"
  shows "index_inv (fst (reap_loop now ttl r refs)) ps \<and> account_inv (fst (reap_loop now ttl r refs))"
  using assms
proof (induction refs arbitrary: r)
  case (Cons p refs)
  let ?i = "se_id (session_at r p)"
  have "index_inv (registry_remove r ?i) ps \<and> account_inv (registry_remove r ?i)"
    using Cons.prems by (intro remove_inv) auto
  moreover have "\<forall>q\<in>set refs. mget (rg_byID (registry_remove r ?i)) (se_id (session_at (registry_remove r ?i) q)) \<noteq> Some None"
    using Cons.prems(3) by (simp add: remove_frame)
  ultimately show ?case
    using Cons.IH[of "registry_remove r ?i"] Cons.IH[of r] Cons.prems by (simp add: Let_def split_beta)
qed simp

lemma mem_registry_list: "mwf (rg_byID r) \<Longrightarrow> p \<in> set (registry_list r) \<longleftrightarrow> (\<exists>i. mget (rg_byID r) i = Some (Some p))"
  by (force simp: registry_list_def List.map_filter_def mget_iff_mem)

lemma listed_iff:
  assumes "index_inv r ps"
  shows "p \<in> set (registry_list r) \<longleftrightarrow> mget (rg_byID r) (se_id (session_at r p)) = Some (Some p)"
  unfolding mem_registry_list[OF index_invD(1)[OF assms]] using index_invD(4)[OF assms] by metis

text \<open>The operations of a session keep its id and, but for the registry's own, its name.\<close>

lemma pump_names [simp]:
  "se_name (fst (append_log osw msg s now q)) = se_name s" "se_name (fst (finish_log osw msg s)) = se_name s"
  "se_id (fst (session_finish osw msg st s now w)) = se_id s" "se_name (fst (session_finish osw msg st s now w)) = se_name s"
  "se_name (fst (pump_chunk osw msg s now q)) = se_name s"
  by (auto simp: append_log_def finish_log_def session_finish_def pump_chunk_def Let_def split_beta split: option.split)

lemma session_step_id: "se_id (session_step env s x) = se_id s"
proof (cases x)
  case (OpMetaJSON mode patch ifv)
  then show ?thesis using set_meta_json_cases[of "ne_fadd env" s mode patch ifv] by auto
next
  case (OpMeta m)
  then show ?thesis using set_meta_cases[of s m] by auto
qed (simp_all add: session_ops split_beta)

lemma session_step_name: "\<forall>n. x \<noteq> OpRename n \<Longrightarrow> se_name (session_step env s x) = se_name s"
proof (cases x)
  case (OpMetaJSON mode patch ifv)
  then show ?thesis using set_meta_json_cases[of "ne_fadd env" s mode patch ifv] by auto
next
  case (OpMeta m)
  then show ?thesis using set_meta_cases[of s m] by auto
qed (simp_all add: session_ops split_beta)

lemma spawned_session: "host_spawn env i cfg = Inr s \<Longrightarrow> se_id s = i \<and> se_name s = sc_name cfg"
  by (auto simp: host_spawn_def Let_def new_session_def split: if_splits sum.splits option.splits)

lemma registry_step_inv: "registry_step uv x y \<Longrightarrow> registry_inv x \<Longrightarrow> registry_inv y"
proof (induction rule: registry_step.induct)
  case (Begin u i r cfg r' j ps)
  then show ?case using index_begin[of r ps i cfg r' j] account_reserve[of r i cfg r' j] by (simp add: registry_inv_def)
next
  case (Refuse r cfg m r' e ps)
  then have "r' = r" by (auto simp: spawn_begin_def Let_def split: if_splits option.splits)
  with Refuse show ?case by simp
next
  case (Finish i cfg ps r env r' res evs)
  then have inv: "index_inv r ps" "account_inv r" by (simp_all add: registry_inv_def)
  have none: "mget (rg_byID r) i \<noteq> None" using index_invD(9)[OF inv(1), of i] Finish(1) by auto
  show ?case
  proof (cases "host_spawn env i cfg")
    case (Inl e)
    then have r': "r' = release_ring (r\<lparr>rg_byID := mdel i (rg_byID r),
        rg_byName := (if sc_name cfg \<noteq> [] then mdel (sc_name cfg) (rg_byName r) else rg_byName r)\<rparr>) i"
      using Finish(2) by (simp add: spawn_finish_def)
    have "index_inv r' (remove1 (i, cfg) ps)"
      by (rule index_fail[OF inv(1) Finish(1)]) (simp_all add: r')
    moreover have "account_inv r'"
      unfolding r' using index_invD(1)[OF inv(1)] by (intro account_release[OF inv(2)]) simp_all
    ultimately show ?thesis by (simp add: registry_inv_def)
  next
    case (Inr s)
    note s = spawned_session[OF Inr]
    have r': "r' = r\<lparr>rg_heap := rg_heap r @ [s], rg_byID := mput i (Some (length (rg_heap r))) (rg_byID r),
        rg_byName := (if sc_name cfg \<noteq> [] then mput (sc_name cfg) (Some (length (rg_heap r))) (rg_byName r) else rg_byName r)\<rparr>"
      using Finish(2) by (simp add: spawn_finish_def Inr Let_def)
    have "index_inv r' (remove1 (i, cfg) ps)"
      unfolding r' using s by (intro index_done[OF inv(1) Finish(1)]) simp_all
    moreover from none obtain y where y: "mget (rg_byID r) i = Some y" by auto
    then have "i \<in> fst ` set (rg_byID r)" by (metis mget_None_iff option.distinct(1))
    then have "account_inv r'"
      using inv(2) y by (simp add: account_inv_def r' length_mput fst_set_mput insert_absorb)
    ultimately show ?thesis by (simp add: registry_inv_def)
  qed
next
  case (Rename r x n r' e evs ps)
  then have inv: "index_inv r ps" "account_inv r" by (simp_all add: registry_inv_def)
  show ?case
  proof (cases "r' = r")
    case False
    then obtain p where p: "find_session uv r x = Some p"
      and free: "n = [] \<or> mget (rg_byName r) n = None \<or> mget (rg_byName r) n = Some (Some p)"
      and r': "r' = (set_session r p (set_name (session_at r p) n))\<lparr>rg_byName := (if n \<noteq> [] then mput n (Some p)
          (if se_name (session_at r p) \<noteq> [] then mdel (se_name (session_at r p)) (rg_byName r) else rg_byName r) else
          (if se_name (session_at r p) \<noteq> [] then mdel (se_name (session_at r p)) (rg_byName r) else rg_byName r))\<rparr>"
      using Rename(1) unfolding registry_rename_def Let_def
      by (cases "find_session uv r x") (auto simp del: registry.update_convs split: if_split_asm)
    have "index_inv r' ps"
      by (rule index_rename[OF inv(1) find_session_byID[OF inv(1) p] free refl]) (simp_all add: r')
    moreover have "account_inv r'" using inv(2) by (simp add: account_inv_def r')
    ultimately show ?thesis by (simp add: registry_inv_def)
  qed (use Rename in simp)
next
  case (Reap now ttl r r' ids ps)
  then have inv: "index_inv r ps" "account_inv r" by (simp_all add: registry_inv_def)
  have "\<forall>p\<in>set (registry_list r). mget (rg_byID r) (se_id (session_at r p)) \<noteq> Some None"
    using index_invD(4)[OF inv(1)] by (fastforce simp: mem_registry_list[OF index_invD(1)[OF inv(1)]])
  from reap_loop_inv[OF inv this, of now ttl] Reap(1) show ?case
    by (simp add: registry_inv_def reap_expired_def)
next
  case (Touch op r ps p env)
  then show ?case
    using index_touch[of r ps "session_step env (session_at r p) op" p]
    by (simp add: registry_inv_def session_step_id session_step_name account_inv_def)
qed

section \<open>Properties\<close>

lemma registry_reachable_inv:
  assumes "(registry_step uv)\<^sup>*\<^sup>* x y" "registry_inv x"
  shows "registry_inv y"
  using assms by (induction rule: rtranclp_induct) (auto intro: registry_step_inv)

lemma new_registry_inv: "cap + MaxRingBytes < 2 ^ 63 \<Longrightarrow> registry_inv (set_ring_total_cap (new_registry mx) cap, [])"
  by (auto simp: registry_inv_def index_inv_def account_inv_def new_registry_def set_ring_total_cap_def
      DefaultMaxSessions_def DefaultRingTotalBytes_def MaxRingBytes_def)

text \<open>Every id of the registry is a valid session id.\<close>

lemma reap_loop_ids:
  "mget (rg_byID (fst (reap_loop now ttl r refs))) i \<noteq> None \<Longrightarrow> mget (rg_byID r) i \<noteq> None"
proof (induction now ttl r refs rule: reap_loop.induct)
  case (2 now ttl r p ps)
  then show ?case by (auto simp: Let_def split_beta remove_frame split: if_splits)
qed simp

lemma registry_step_ids:
  "registry_step uv x y \<Longrightarrow> registry_inv x \<Longrightarrow> reads_v7 uv \<Longrightarrow> \<forall>i. mget (rg_byID (fst x)) i \<noteq> None \<longrightarrow> ids_validate uv i PrefixSession \<Longrightarrow>
   \<forall>i. mget (rg_byID (fst y)) i \<noteq> None \<longrightarrow> ids_validate uv i PrefixSession"
proof (induction rule: registry_step.induct)
  case (Begin u i r cfg r' j ps)
  have "ids_validate uv i PrefixSession" using new_id_valid[OF Begin(1) _ Begin(2)] Begin.prems by simp
  moreover have "rg_byID r' = mput i None (rg_byID r)"
    using Begin(5) by (auto simp: spawn_begin_def Let_def split: if_splits)
  ultimately show ?case using Begin.prems by simp
next
  case (Refuse r cfg m r' e ps)
  then show ?case by (auto simp: spawn_begin_def Let_def split: if_splits option.splits)
next
  case (Finish i cfg ps r env r' res evs)
  then have "mget (rg_byID r) i \<noteq> None" using index_invD(9)[of r ps i] by (auto simp: registry_inv_def)
  with Finish show ?case
    by (cases "host_spawn env i cfg") (auto simp: spawn_finish_def Let_def split: if_splits)
next
  case (Rename r x n r' e evs ps)
  then have "rg_byID r' = rg_byID r"
    by (cases "find_session uv r x") (auto simp: registry_rename_def Let_def split: if_splits)
  with Rename show ?case by simp
next
  case (Reap now ttl r r' ids ps)
  then show ?case using reap_loop_ids[of now ttl r "registry_list r"] by (simp add: reap_expired_def)
qed simp

lemma registry_reachable_ids:
  assumes "(registry_step uv)\<^sup>*\<^sup>* (set_ring_total_cap (new_registry mx) cap, []) (r, ps)"
    and "cap + MaxRingBytes < 2 ^ 63" "reads_v7 uv"
  shows "index_inv r ps \<and> (\<forall>i. mget (rg_byID r) i \<noteq> None \<longrightarrow> ids_validate uv i PrefixSession)"
proof -
  have "registry_inv y \<and> (\<forall>i. mget (rg_byID (fst y)) i \<noteq> None \<longrightarrow> ids_validate uv i PrefixSession)"
    if "(registry_step uv)\<^sup>*\<^sup>* x y" "x = (set_ring_total_cap (new_registry mx) cap, [])" for x y
    using that
  proof (induction rule: rtranclp_induct)
    case base
    then show ?case using new_registry_inv[OF assms(2)] by (simp add: new_registry_def set_ring_total_cap_def)
  next
    case (step y z)
    then show ?case using registry_step_inv[OF step(2)] registry_step_ids[OF step(2) _ assms(3)] by blast
  qed
  from this[OF assms(1) refl] show ?thesis by (simp add: registry_inv_def)
qed

text \<open>C8. The caps hold however spawns, renames, reaps and exits interleave: never more sessions,
  spawns in flight included, than \<open>maxSessions\<close>, and the reserved ring memory is exactly the sum
  of the reservations of the registered sessions and never above the total cap.\<close>

theorem registry_capped:
  assumes "(registry_step uv)\<^sup>*\<^sup>* (set_ring_total_cap (new_registry mx) cap, []) (r, ps)"
    and "cap + MaxRingBytes < 2 ^ 63"
  shows "int (registry_count r) \<le> rg_maxSessions r \<and> rg_ringReserved r \<le> rg_ringTotalCap r \<and>
    rg_ringReserved r = sum_list (map snd (rg_ringByID r)) \<and>
    fst ` set (rg_ringByID r) = fst ` set (rg_byID r) \<and>
    registry_count r = length (registry_list r) + length ps"
proof -
  have inv: "index_inv r ps" "account_inv r"
    using registry_reachable_inv[OF assms(1) new_registry_inv[OF assms(2)]] by (simp_all add: registry_inv_def)
  note D = index_invD[OF inv(1)]
  have split_len: "length m = length (List.map_filter snd m) + length (filter (\<lambda>x. snd x = None) m)" for m :: "(string, sref option) gomap"
    by (induction m) (auto simp: List.map_filter_def split: option.splits)
  have c: "length (rg_byID r) = length (registry_list r) + length (filter (\<lambda>x. snd x = None) (rg_byID r))"
    unfolding registry_list_def length_sort by (rule split_len)
  have "inj_on fst (set ps)" using D(11) by (auto simp: inj_on_def)
  then have "distinct (map fst ps)" using D(13) by (simp add: distinct_map)
  then have "length ps = card (fst ` set ps)" by (metis distinct_card length_map list.set_map)
  moreover have "distinct (map fst (filter (\<lambda>x. snd x = None) (rg_byID r)))"
    using D(1) by (simp add: mwf_def distinct_map_filter)
  then have "length (filter (\<lambda>x. snd x = None) (rg_byID r)) = card (fst ` set (filter (\<lambda>x. snd x = None) (rg_byID r)))"
    by (metis distinct_card length_map list.set_map)
  moreover have "fst ` set (filter (\<lambda>x. snd x = None) (rg_byID r)) = fst ` set ps"
  proof (rule set_eqI)
    fix i
    have "i \<in> fst ` set (filter (\<lambda>x. snd x = None) (rg_byID r)) \<longleftrightarrow> (i, None) \<in> set (rg_byID r)" by force
    also have "\<dots> \<longleftrightarrow> (\<exists>cfg. (i, cfg) \<in> set ps)" using D(9)[of i] by (simp add: mget_iff_mem[OF D(1)])
    also have "\<dots> \<longleftrightarrow> i \<in> fst ` set ps" by force
    finally show "i \<in> fst ` set (filter (\<lambda>x. snd x = None) (rg_byID r)) \<longleftrightarrow> i \<in> fst ` set ps" .
  qed
  ultimately have "length (rg_byID r) = length (registry_list r) + length ps" using c by simp
  then show ?thesis using inv(2) by (simp add: account_inv_def registry_count_def)
qed


lemma list_remove:
  assumes "index_inv r ps" "mget (rg_byID r) i = Some (Some p)"
  shows "registry_list (registry_remove r i) = filter (\<lambda>q. q \<noteq> p) (registry_list r)"
proof -
  have mf: "List.map_filter snd (mdel i m) = filter (\<lambda>q. q \<noteq> p) (List.map_filter snd m)"
    if "mwf m" "mget m i = Some (Some p)" "\<And>k. mget m k = Some (Some p) \<Longrightarrow> k = i" for m
  proof -
    note m = that
    have "mdel i m = filter (\<lambda>x. fst x \<noteq> i) m" by (induction m) (simp_all add: mdel_def)
    moreover have "fst x = i \<longleftrightarrow> snd x = Some p" if x: "x \<in> set m" for x
    proof -
      have "mget m (fst x) = Some (snd x)" using x m(1) by (simp add: mget_iff_mem)
      then show ?thesis using m(2) m(3)[of "fst x"] by (metis option.inject)
    qed
    ultimately have "mdel i m = filter (\<lambda>x. snd x \<noteq> Some p) m" by (simp cong: filter_cong)
    moreover have "List.map_filter snd (filter (\<lambda>x. snd x \<noteq> Some p) m) = filter (\<lambda>q. q \<noteq> p) (List.map_filter snd m)"
    proof (induction m)
      case (Cons x m)
      then show ?case by (cases x; cases "snd x") (auto simp: List.map_filter_def)
    qed (simp add: List.map_filter_def)
    ultimately show ?thesis by simp
  qed
  have "k = i" if "mget (rg_byID r) k = Some (Some p)" for k
    using index_invD(4)[OF assms(1) that] index_invD(4)[OF assms] by simp
  from mf[OF index_invD(1)[OF assms(1)] assms(2) this] show ?thesis
    by (simp add: registry_list_def remove_frame filter_sort)
qed

lemma reap_loop_exact:
  assumes "index_inv r ps" "account_inv r" "\<forall>p\<in>set refs. mget (rg_byID r) (se_id (session_at r p)) = Some (Some p)" "distinct refs"
  shows "registry_list (fst (reap_loop now ttl r refs)) =
      filter (\<lambda>p. \<not> (p \<in> set refs \<and> expired now ttl (session_at r p))) (registry_list r) \<and>
    snd (reap_loop now ttl r refs) = map (\<lambda>p. se_id (session_at r p)) (filter (\<lambda>p. expired now ttl (session_at r p)) refs) \<and>
    rg_heap (fst (reap_loop now ttl r refs)) = rg_heap r"
  using assms
proof (induction refs arbitrary: r)
  case (Cons p refs)
  let ?i = "se_id (session_at r p)"
  have p: "mget (rg_byID r) ?i = Some (Some p)" using Cons.prems(3) by simp
  show ?case
  proof (cases "expired now ttl (session_at r p)")
    case True
    have inv: "index_inv (registry_remove r ?i) ps" "account_inv (registry_remove r ?i)"
      using remove_inv[OF Cons.prems(1,2), of ?i] p by auto
    have keep: "\<forall>q\<in>set refs. mget (rg_byID (registry_remove r ?i)) (se_id (session_at (registry_remove r ?i) q)) = Some (Some q)"
    proof
      fix q assume q: "q \<in> set refs"
      then have "mget (rg_byID r) (se_id (session_at r q)) = Some (Some q)" "q \<noteq> p" using Cons.prems(3,4) by auto
      then show "mget (rg_byID (registry_remove r ?i)) (se_id (session_at (registry_remove r ?i) q)) = Some (Some q)"
        using p by (auto simp: remove_frame)
    qed
    from Cons.IH[OF inv keep] Cons.prems(4) show ?thesis
      by (simp add: Let_def split_beta True remove_frame list_remove[OF Cons.prems(1) p])
        (rule filter_cong, auto simp: True)
  next
    case False
    with Cons.IH[OF Cons.prems(1,2)] Cons.prems(3,4) show ?thesis
      by (simp add: Let_def) (rule filter_cong, auto)
  qed
qed simp

lemma distinct_registry_list:
  assumes "index_inv r ps"
  shows "distinct (registry_list r)"
proof -
  note D = index_invD[OF assms]
  have "distinct (map fst (rg_byID r))" using D(1) by (simp add: mwf_def)
  then have "distinct (List.map_filter snd m)" if "set m \<subseteq> set (rg_byID r)" "distinct (map fst m)" for m
    using that
  proof (induction m)
    case (Cons x m)
    have "(k, Some p) \<notin> set m" if "x = (i, Some p)" for i p k
    proof
      assume k: "(k, Some p) \<in> set m"
      then have "k = i" using Cons.prems that D(4)[of i p] D(4)[of k p] by (simp add: mget_iff_mem[OF D(1)] subset_iff)
      then show False using k that Cons.prems(3) by force
    qed
    with Cons show ?case by (cases x; cases "snd x") (auto simp: List.map_filter_def)
  qed (simp add: List.map_filter_def)
  then show ?thesis using D(1) by (simp add: registry_list_def mwf_def)
qed

text \<open>A reap takes exactly the sessions that exited at least the retention time ago, in the
  order of their ids, and the list of the others is unchanged.\<close>

theorem reap_exact:
  assumes "registry_inv (r, ps)" "reap_expired now ttl r = (r', ids)"
  shows "registry_list r' = filter (\<lambda>p. \<not> expired now ttl (session_at r p)) (registry_list r) \<and>
    ids = map (\<lambda>p. se_id (session_at r p)) (filter (\<lambda>p. expired now ttl (session_at r p)) (registry_list r)) \<and>
    sorted ids \<and> registry_inv (r', ps)"
proof -
  have inv: "index_inv r ps" "account_inv r" using assms(1) by (simp_all add: registry_inv_def)
  note D = index_invD[OF inv(1)]
  have mem: "\<forall>p\<in>set (registry_list r). mget (rg_byID r) (se_id (session_at r p)) = Some (Some p)"
    using listed_iff[OF inv(1)] by blast
  note loop = reap_loop_exact[OF inv mem distinct_registry_list[OF inv(1)], of now ttl]
  have "registry_inv (r', ps)"
    using registry_step_inv[OF Reap[OF assms(2)] assms(1)] .
  moreover have "sorted (map (\<lambda>p. se_id (session_at r p)) (filter P (registry_list r)))" for P
    by (simp add: registry_list_def filter_sort)
  ultimately show ?thesis
    using loop assms(2) by (auto simp: reap_expired_def intro: filter_cong)
qed

section \<open>A concrete run\<close>

definition demo_id :: string where
  "demo_id = ''ses_0123456789ab7def0123456789abcdef''"

definition demo_registry :: registry where
  "demo_registry = \<lparr>rg_heap = [demo_session\<lparr>se_id := demo_id, se_mon := new_monitor demo_id 0\<rparr>],
     rg_byID = [(demo_id, Some 0)], rg_byName = [], rg_maxSessions = 256,
     rg_ringTotalCap = 512 * 1024 * 1024, rg_ringReserved = 4, rg_ringByID = [(demo_id, 4)]\<rparr>"

lemma demo_new_id: "new_id PrefixSession (Some demo_uuid) = Some demo_id"
  by (simp add: new_id_def validate_prefix_def is_lower_def demo_uuid_def demo_id_def)

lemma demo_host_spawn: "host_spawn demo_spawn_env demo_id demo_cfg =
    Inr (demo_session\<lparr>se_id := demo_id, se_mon := new_monitor demo_id 0\<rparr>)"
  by (simp add: host_spawn_def demo_cfg_def demo_spawn_env_def demo_session_def spawn_log_def new_session_def
      start_pty_with_retry_def start_loop.simps new_ring_def ptySpawnRetries_def)

lemma demo_run:
  "(registry_step uuid_version)\<^sup>*\<^sup>* (set_ring_total_cap (new_registry 0) 0, []) (demo_registry, [])"
proof -
  let ?r0 = "set_ring_total_cap (new_registry 0) 0"
  let ?r1 = "?r0\<lparr>rg_byID := [(demo_id, None)], rg_ringReserved := 4, rg_ringByID := [(demo_id, 4)]\<rparr>"
  have r0: "?r0 = \<lparr>rg_heap = [], rg_byID = [], rg_byName = [], rg_maxSessions = 256,
      rg_ringTotalCap = 512 * 1024 * 1024, rg_ringReserved = 0, rg_ringByID = []\<rparr>"
    by (simp add: set_ring_total_cap_def new_registry_def DefaultMaxSessions_def DefaultRingTotalBytes_def)
  have cfg: "sc_name demo_cfg = []" "ring_reservation demo_cfg = 4" "sc_ring_bytes demo_cfg \<le> MaxRingBytes"
    by (simp_all add: demo_cfg_def ring_reservation_def MaxRingBytes_def)
  have "wrap_i64 4 = 4" by (rule wrap_i64_id) simp_all
  then have b: "spawn_begin ?r0 demo_cfg (Some demo_id) = (?r1, Inr demo_id)"
    by (simp add: spawn_begin_def r0 cfg mput_def)
  have "registry_step uuid_version (?r0, []) (?r1, [(demo_id, demo_cfg)])"
    by (rule Begin[OF demo_uuid7 demo_new_id _ cfg(3) b]) (simp add: r0)
  moreover have f: "spawn_finish ?r1 demo_cfg demo_id (host_spawn demo_spawn_env demo_id demo_cfg) =
      (demo_registry, Inr 0, [(demo_id, EventCreated, [(DataKeyCmd, sc_cmd demo_cfg), (DataKeyName, [])])])"
    by (simp add: spawn_finish_def demo_host_spawn r0 cfg mput_def demo_registry_def)
  have "registry_step uuid_version (?r1, [(demo_id, demo_cfg)]) (demo_registry, remove1 (demo_id, demo_cfg) [(demo_id, demo_cfg)])"
    by (rule Finish[OF _ f]) simp
  ultimately show ?thesis by simp
qed

lemma demo_list: "registry_list demo_registry = [0]"
  by (simp add: registry_list_def demo_registry_def List.map_filter_def)

theorem registry_capped_witness:
  "rg_ringReserved demo_registry = sum_list (map snd (rg_ringByID demo_registry)) \<and> registry_count demo_registry = 1"
  using registry_capped[OF demo_run] by (simp add: demo_list MaxRingBytes_def)


theorem reap_exact_witness:
  "\<exists>r'. reap_expired 700 600 (set_session demo_registry 0 ((session_at demo_registry 0)\<lparr>se_state := StateExited, se_exited_at := 50\<rparr>)) = (r', [demo_id]) \<and>
     registry_list r' = []"
proof -
  let ?s = "(session_at demo_registry 0)\<lparr>se_state := StateExited, se_exited_at := 50\<rparr>"
  let ?r = "set_session demo_registry 0 ?s"
  have "registry_inv (demo_registry, [])"
    by (rule registry_reachable_inv[OF demo_run new_registry_inv]) (simp add: MaxRingBytes_def)
  then have "registry_inv (?r, [])"
    using index_touch[of demo_registry "[]" ?s 0] by (simp add: registry_inv_def account_inv_def)
  then have inv: "registry_inv (?r, [])" .
  obtain r' ids where r: "reap_expired 700 600 ?r = (r', ids)" by fastforce
  have "registry_list ?r = [0]" "se_id (session_at ?r 0) = demo_id" "expired 700 600 (session_at ?r 0)"
    by (simp_all add: registry_list_def demo_registry_def List.map_filter_def expired_def exited_at_def)
  with reap_exact[OF inv r] r show ?thesis by simp
qed

end
