(* ===== verification/Codec.thy ===== *)
theory Codec
  imports Frame Wire Errcodes
begin

text \<open>
  The frame encoder and decoder of \<open>pkg/proto/codec.go\<close>, over a reader that delivers the
  byte stream in arbitrary chunks, and the round-trip, rejection and robustness facts.
\<close>

section \<open>encoding/binary and io.ReadFull\<close>

text \<open>\<open>binary.BigEndian\<close>.\<close>

definition be_put32 :: "u32 \<Rightarrow> byte list" where
  "be_put32 v = [ucast (drop_bit 24 v), ucast (drop_bit 16 v), ucast (drop_bit 8 v), ucast v]"

definition be_put16 :: "u16 \<Rightarrow> byte list" where
  "be_put16 v = [ucast (drop_bit 8 v), ucast v]"

fun be_get32 :: "byte list \<Rightarrow> u32" where
  "be_get32 [a, b, c, d] =
     or (ucast d) (or (push_bit 8 (ucast c)) (or (push_bit 16 (ucast b)) (push_bit 24 (ucast a))))"
| "be_get32 _ = 0"

fun be_get16 :: "byte list \<Rightarrow> u16" where
  "be_get16 [a, b] = or (ucast b) (push_bit 8 (ucast a))"
| "be_get16 _ = 0"

lemma length_be_put [simp]: "length (be_put32 v) = 4" "length (be_put16 w) = 2"
  by (simp_all add: be_put32_def be_put16_def)

lemma be_get_put32 [simp]: "be_get32 (be_put32 v) = v"
proof (rule bit_word_eqI)
  fix n assume "n < LENGTH(32)"
  then consider "n < 8" | "8 \<le> n" "n < 16" | "16 \<le> n" "n < 24" | "24 \<le> n" "n < 32"
    by fastforce
  then show "bit (be_get32 (be_put32 v)) n = bit v n"
    by cases (auto simp: be_put32_def bit_simps)
qed

lemma be_get_put16 [simp]: "be_get16 (be_put16 v) = v"
  by (rule bit_word_eqI) (auto simp: be_put16_def bit_simps)

lemma be_put_get32 [simp]: "be_put32 (be_get32 [a, b, c, d]) = [a, b, c, d]"
  by (auto simp: be_put32_def bit_simps intro!: bit_word_eqI)

lemma be_put_get16 [simp]: "be_put16 (be_get16 [x, y]) = [x, y]"
  by (auto simp: be_put16_def bit_simps intro!: bit_word_eqI)

text \<open>
  A reader is the chunks its \<open>Read\<close> calls will deliver and the error after the last one.
  One \<open>Read\<close> into a buffer of \<open>k\<close> bytes returns at most one chunk; \<open>read_loop\<close> is the loop
  of \<open>io.ReadAtLeast\<close>, \<open>read_full\<close> is \<open>io.ReadFull\<close>.
\<close>

datatype io_err = IoEOF | IoUnexpectedEOF | IoOther string

record reader =
  rd_chunks :: "byte list list"
  rd_end :: io_err

fun read_loop :: "nat \<Rightarrow> byte list \<Rightarrow> byte list list \<Rightarrow> byte list option \<times> byte list \<times> byte list list" where
  "read_loop 0 acc cs = (Some acc, acc, cs)"
| "read_loop (Suc k) acc [] = (None, acc, [])"
| "read_loop (Suc k) acc (c # cs) =
     (if length c \<le> Suc k then read_loop (Suc k - length c) (acc @ c) cs
      else (Some (acc @ take (Suc k) c), acc @ take (Suc k) c, drop (Suc k) c # cs))"

definition read_full :: "nat \<Rightarrow> reader \<Rightarrow> (io_err + byte list) \<times> reader" where
  "read_full n rd =
     (case read_loop n [] (rd_chunks rd) of
        (Some bs, _, cs) \<Rightarrow> (Inr bs, rd\<lparr>rd_chunks := cs\<rparr>)
      | (None, got, cs) \<Rightarrow>
          (Inl (if rd_end rd = IoEOF \<and> got \<noteq> [] then IoUnexpectedEOF else rd_end rd),
           rd\<lparr>rd_chunks := cs\<rparr>))"

definition rd_bytes :: "reader \<Rightarrow> byte list" where
  "rd_bytes rd = concat (rd_chunks rd)"

lemma read_loop_spec:
  "fst (read_loop n acc cs) =
     (if n \<le> length (concat cs) then Some (acc @ take n (concat cs)) else None) \<and>
   (\<not> n \<le> length (concat cs) \<longrightarrow> snd (read_loop n acc cs) = (acc @ concat cs, [])) \<and>
   concat (snd (snd (read_loop n acc cs))) = drop n (concat cs)"
proof (induction n acc cs rule: read_loop.induct)
  case (3 k acc c cs)
  show ?case
  proof (cases "length c \<le> Suc k")
    case True
    then have "Suc k \<le> length (concat (c # cs)) \<longleftrightarrow> Suc k - length c \<le> length (concat cs)" by auto
    with True "3.IH"[OF True] show ?thesis by simp
  next
    case False
    then show ?thesis by simp
  qed
qed auto

lemma read_full_ok:
  assumes "n \<le> length (rd_bytes rd)"
  shows "\<exists>rd'. read_full n rd = (Inr (take n (rd_bytes rd)), rd') \<and>
    rd_bytes rd' = drop n (rd_bytes rd) \<and> rd_end rd' = rd_end rd"
proof (cases "read_loop n [] (rd_chunks rd)")
  case (fields a b c)
  then show ?thesis
    using read_loop_spec[of n "[]" "rd_chunks rd"] assms
    by (auto simp: read_full_def rd_bytes_def)
qed

lemma read_full_short:
  assumes "\<not> n \<le> length (rd_bytes rd)"
  shows "read_full n rd =
    (Inl (if rd_end rd = IoEOF \<and> rd_bytes rd \<noteq> [] then IoUnexpectedEOF else rd_end rd),
     rd\<lparr>rd_chunks := []\<rparr>)"
proof (cases "read_loop n [] (rd_chunks rd)")
  case (fields a b c)
  then show ?thesis
    using read_loop_spec[of n "[]" "rd_chunks rd"] assms
    by (auto simp: read_full_def rd_bytes_def)
qed

section \<open>Frames and the encoder\<close>

record frame =
  f_type :: frame_type
  f_header :: "byte list"
  f_payload :: "byte list"

text \<open>\<open>NewFrame\<close>: the first argument is the result of \<open>json.Marshal(msg)\<close>.\<close>

definition new_frame :: "byte list option \<Rightarrow> frame_type \<Rightarrow> byte list \<Rightarrow> err + frame" where
  "new_frame marshalled t payload =
     (case marshalled of
        None \<Rightarrow> Inl (OtherErr ''marshal header'')
      | Some h \<Rightarrow>
          if length h > MaxHeaderLen then Inl (Coded FrameTooLarge)
          else Inr \<lparr>f_type = t, f_header = h, f_payload = payload\<rparr>)"

definition wire_len :: "frame \<Rightarrow> nat" where
  "wire_len f = frameOverhead + length (f_header f) + length (f_payload f)"

definition append_wire :: "byte list \<Rightarrow> frame \<Rightarrow> err + byte list" where
  "append_wire dst f =
     (if length (f_header f) > MaxHeaderLen then Inl (Coded FrameTooLarge)
      else
        let total = wire_len f
        in if total > MaxFrameLen then Inl (Coded FrameTooLarge)
           else Inr (dst @ be_put32 (of_nat total) @ [f_type f]
                     @ be_put16 (of_nat (length (f_header f))) @ f_header f @ f_payload f))"

text \<open>
  \<open>Encoder.Write\<close>: under the encoder's mutex, the frame is assembled in the reused buffer and
  handed to the writer in one call. The state is the list of byte strings given to the writer,
  one per call, and the reused buffer; \<open>wr_err\<close> is the error the writer returns, if any.
\<close>

record encoder =
  e_writes :: "byte list list"
  e_buf :: "byte list"

definition encoder_write :: "io_err option \<Rightarrow> encoder \<Rightarrow> frame \<Rightarrow> (err + unit) \<times> encoder" where
  "encoder_write wr_err e f =
     (case append_wire [] f of
        Inl er \<Rightarrow> (Inl er, e\<lparr>e_buf := []\<rparr>)
      | Inr buf \<Rightarrow>
          (case wr_err of
             Some _ \<Rightarrow> (Inl (OtherErr ''write frame''), e\<lparr>e_buf := buf, e_writes := e_writes e @ [buf]\<rparr>)
           | None \<Rightarrow> (Inr (), e\<lparr>e_buf := buf, e_writes := e_writes e @ [buf]\<rparr>)))"

definition encoder_write_msg ::
  "io_err option \<Rightarrow> byte list option \<Rightarrow> encoder \<Rightarrow> frame_type \<Rightarrow> byte list \<Rightarrow> (err + unit) \<times> encoder" where
  "encoder_write_msg wr_err marshalled e t payload =
     (case new_frame marshalled t payload of
        Inl er \<Rightarrow> (Inl er, e)
      | Inr f \<Rightarrow> encoder_write wr_err e f)"

section \<open>The decoder\<close>

text \<open>
  What \<open>Decoder.Read\<close> returns instead of a frame: \<open>io.EOF\<close> itself, a wrapped reader error
  (\<open>fmt.Errorf("proto: read ...: %w", err)\<close>), or a coded error.
\<close>

datatype dec_err = DecEOF | DecWrap string io_err | DecCoded code

definition decoder_read :: "reader \<Rightarrow> (dec_err + frame) \<times> reader" where
  "decoder_read rd =
     (case read_full 4 rd of
        (Inl e, rd1) \<Rightarrow> (Inl (if e = IoEOF then DecEOF else DecWrap ''proto: read length'' e), rd1)
      | (Inr head, rd1) \<Rightarrow>
          let total = unat (be_get32 head)
          in if total > MaxFrameLen then (Inl (DecCoded FrameTooLarge), rd1)
             else if total < frameOverhead then (Inl (DecCoded BadFrame), rd1)
             else
               (case read_full total rd1 of
                  (Inl e, rd2) \<Rightarrow> (Inl (DecWrap ''proto: read body'' e), rd2)
                | (Inr body, rd2) \<Rightarrow>
                    let headerLen = unat (be_get16 (sub_slice 1 3 body))
                    in if frameOverhead + headerLen > total then (Inl (DecCoded BadFrame), rd2)
                       else (Inr \<lparr>f_type = body ! 0,
                                  f_header = sub_slice frameOverhead (frameOverhead + headerLen) body,
                                  f_payload = drop (frameOverhead + headerLen) body\<rparr>, rd2)))"

text \<open>The decode loop of a connection: frames until the first error.\<close>

fun decode_frames :: "nat \<Rightarrow> reader \<Rightarrow> frame list \<times> dec_err option \<times> reader" where
  "decode_frames 0 rd = ([], None, rd)"
| "decode_frames (Suc n) rd =
     (case decoder_read rd of
        (Inl e, rd') \<Rightarrow> ([], Some e, rd')
      | (Inr f, rd') \<Rightarrow> (case decode_frames n rd' of (fs, e, r) \<Rightarrow> (f # fs, e, r)))"

section \<open>What the decoder computes on bytes\<close>

text \<open>\<open>dec_bytes\<close> is the decoder as a function of the byte stream, whatever the chunks.\<close>

definition dec_bytes :: "io_err \<Rightarrow> byte list \<Rightarrow> (dec_err + frame) \<times> byte list" where
  "dec_bytes fin bs =
     (if length bs < 4
      then (Inl (if fin = IoEOF \<and> bs = [] then DecEOF
                 else DecWrap ''proto: read length'' (if fin = IoEOF then IoUnexpectedEOF else fin)), [])
      else
        let total = unat (be_get32 (take 4 bs)); rest = drop 4 bs; body = take total rest
        in if total > MaxFrameLen then (Inl (DecCoded FrameTooLarge), rest)
           else if total < frameOverhead then (Inl (DecCoded BadFrame), rest)
           else if length rest < total
           then (Inl (DecWrap ''proto: read body''
                       (if fin = IoEOF \<and> rest \<noteq> [] then IoUnexpectedEOF else fin)), [])
           else
             let headerLen = unat (be_get16 (sub_slice 1 3 body))
             in if frameOverhead + headerLen > total then (Inl (DecCoded BadFrame), drop total rest)
                else (Inr \<lparr>f_type = body ! 0,
                           f_header = sub_slice frameOverhead (frameOverhead + headerLen) body,
                           f_payload = drop (frameOverhead + headerLen) body\<rparr>, drop total rest))"

lemma decoder_read_bytes:
  "fst (decoder_read rd) = fst (dec_bytes (rd_end rd) (rd_bytes rd)) \<and>
   rd_bytes (snd (decoder_read rd)) = snd (dec_bytes (rd_end rd) (rd_bytes rd)) \<and>
   rd_end (snd (decoder_read rd)) = rd_end rd"
proof (cases "4 \<le> length (rd_bytes rd)")
  case False
  then show ?thesis
    using read_full_short[OF False]
    by (auto simp: decoder_read_def dec_bytes_def rd_bytes_def split: prod.splits)
next
  case True
  let ?bs = "rd_bytes rd"
  obtain rd1 where 1: "read_full 4 rd = (Inr (take 4 ?bs), rd1)" "rd_bytes rd1 = drop 4 ?bs"
      "rd_end rd1 = rd_end rd"
    using read_full_ok[OF True] by blast
  let ?t = "unat (be_get32 (take 4 ?bs))"
  show ?thesis
  proof (cases "?t \<le> length (rd_bytes rd1)")
    case t: True
    obtain rd2 where 2: "read_full ?t rd1 = (Inr (take ?t (rd_bytes rd1)), rd2)"
        "rd_bytes rd2 = drop ?t (rd_bytes rd1)" "rd_end rd2 = rd_end rd1"
      using read_full_ok[OF t] by blast
    show ?thesis
      using True t 1 2 by (simp add: decoder_read_def dec_bytes_def Let_def)
  next
    case False
    show ?thesis
      using True False 1 read_full_short[OF False]
      by (simp add: decoder_read_def dec_bytes_def Let_def) (simp add: rd_bytes_def)
  qed
qed

definition frame_ok :: "frame \<Rightarrow> bool" where
  "frame_ok f \<longleftrightarrow> length (f_header f) \<le> MaxHeaderLen \<and> wire_len f \<le> MaxFrameLen"

definition frame_bytes :: "frame \<Rightarrow> byte list" where
  "frame_bytes f = be_put32 (of_nat (wire_len f)) @ [f_type f]
     @ be_put16 (of_nat (length (f_header f))) @ f_header f @ f_payload f"

lemma append_wire_ok: "append_wire dst f = Inr w \<longleftrightarrow> frame_ok f \<and> w = dst @ frame_bytes f"
  by (auto simp: append_wire_def frame_ok_def frame_bytes_def Let_def split: if_splits)

lemma append_wire_rejects: "append_wire dst f = Inl e \<longleftrightarrow> \<not> frame_ok f \<and> e = Coded FrameTooLarge"
  by (auto simp: append_wire_def frame_ok_def Let_def split: if_splits)

lemma length_frame_bytes: "length (frame_bytes f) = 4 + wire_len f"
  by (simp add: frame_bytes_def wire_len_def frameOverhead_def)

lemma frame_lengths:
  assumes "frame_ok f"
  shows "unat (of_nat (wire_len f) :: u32) = wire_len f"
    and "unat (of_nat (length (f_header f)) :: u16) = length (f_header f)"
    and "frameOverhead \<le> wire_len f"
proof -
  have "wire_len f < 2 ^ 32" "length (f_header f) < 2 ^ 16"
    using assms by (auto simp: frame_ok_def MaxFrameLen_def MaxHeaderLen_def)
  then show "unat (of_nat (wire_len f) :: u32) = wire_len f"
    and "unat (of_nat (length (f_header f)) :: u16) = length (f_header f)" by simp_all
  show "frameOverhead \<le> wire_len f" by (simp add: wire_len_def)
qed

lemma dec_bytes_frame:
  assumes ok: "frame_ok f"
  shows "dec_bytes fin (frame_bytes f @ rest) = (Inr f, rest)"
proof -
  define body where
    "body = f_type f # be_put16 (of_nat (length (f_header f))) @ f_header f @ f_payload f"
  have b: "frame_bytes f @ rest = be_put32 (of_nat (wire_len f)) @ body @ rest"
    by (simp add: frame_bytes_def body_def)
  have l: "length body = wire_len f" by (simp add: body_def wire_len_def frameOverhead_def)
  have parts: "body ! 0 = f_type f" "sub_slice 1 3 body = be_put16 (of_nat (length (f_header f)))"
      "sub_slice 3 (3 + length (f_header f)) body = f_header f"
      "drop (3 + length (f_header f)) body = f_payload f"
    by (simp_all add: body_def sub_slice_def be_put16_def numeral_3_eq_3)
  have m: "wire_len f \<le> MaxFrameLen" "\<not> wire_len f < 3" "3 + length (f_header f) \<le> wire_len f"
    using ok by (auto simp: frame_ok_def wire_len_def frameOverhead_def)
  show ?thesis
    unfolding b dec_bytes_def Let_def frameOverhead_def
    using frame_lengths(1,2)[OF ok] m by (simp add: parts del: One_nat_def flip: l)
qed

lemma dec_bytes_sound:
  assumes "dec_bytes fin bs = (Inr f, rest)"
  shows "frame_ok f \<and> bs = frame_bytes f @ rest"
proof -
  let ?t = "unat (be_get32 (take 4 bs))" and ?r = "drop 4 bs"
  let ?h = "unat (be_get16 (sub_slice 1 3 (take ?t ?r)))"
  have c: "4 \<le> length bs" "?t \<le> MaxFrameLen" "3 \<le> ?t" "?t \<le> length ?r" "3 + ?h \<le> ?t"
    and f: "f = \<lparr>f_type = take ?t ?r ! 0, f_header = sub_slice 3 (3 + ?h) (take ?t ?r),
                f_payload = drop (3 + ?h) (take ?t ?r)\<rparr>" and rest: "rest = drop ?t ?r"
    using assms by (auto simp: dec_bytes_def Let_def frameOverhead_def split: if_splits)
  obtain a b c' d where h4: "take 4 bs = [a, b, c', d]"
    using c(1) length_eq_4[of "take 4 bs"] by auto
  obtain t x y tl where body: "take ?t ?r = t # x # y # tl"
  proof -
    have "3 \<le> length (take ?t ?r)" using c(3,4) by simp
    then have "\<exists>a b c ys. take ?t ?r = a # b # c # ys" by (simp only: length_ge_3)
    then show ?thesis using that by blast
  qed
  have lt: "length tl = ?t - 3"
  proof -
    have "length (take ?t ?r) = ?t" using c(4) by (simp only: length_take min_absorb2)
    then show ?thesis unfolding body by simp
  qed
  have hl: "?h = unat (be_get16 [x, y])" by (simp add: body sub_slice_def)
  have fh: "f_header f = take ?h tl" "f_payload f = drop ?h tl" "f_type f = t"
    by (simp_all add: f body sub_slice_def numeral_3_eq_3)
  have lh: "length (f_header f) = ?h" using fh lt c(5) by simp
  have wl: "wire_len f = ?t" using fh lt c(3,5) by (simp add: wire_len_def frameOverhead_def)
  have ok: "frame_ok f"
  proof -
    have "?h < 2 ^ 16" using unsigned_less[of "be_get16 [x, y]", where ?'a = nat] by (simp only: hl) simp
    then show ?thesis using wl lh c(2) by (simp add: frame_ok_def MaxHeaderLen_def)
  qed
  have "be_put32 (of_nat ?t) = take 4 bs"
    unfolding h4 by (simp only: of_nat_unat ucast_id be_put_get32)
  moreover have "be_put16 (of_nat ?h) = [x, y]"
    unfolding hl by (simp only: of_nat_unat ucast_id be_put_get16)
  ultimately have "frame_bytes f = take 4 bs @ t # x # y # tl"
    unfolding frame_bytes_def wl lh by (simp only: fh append.simps append_assoc append_take_drop_id)
  moreover have "take 4 bs @ take ?t ?r @ rest = bs" unfolding rest by (simp only: append_take_drop_id)
  ultimately show ?thesis using ok unfolding body by simp
qed

section \<open>The frame codec as a self-delimiting codec\<close>

definition dec_frame :: "byte list \<Rightarrow> (frame \<times> byte list) option" where
  "dec_frame bs = (case dec_bytes IoEOF bs of (Inr f, rest) \<Rightarrow> Some (f, rest) | (Inl e, rest) \<Rightarrow> None)"

lemma dec_bytes_torn:
  assumes "frame_ok f" "strict_prefix p (frame_bytes f)"
  shows "\<exists>e rest. dec_bytes fin p = (Inl e, rest)"
proof (cases "dec_bytes fin p")
  case (Pair x rest)
  show ?thesis
  proof (cases x)
    case (Inr g)
    obtain q where q: "frame_bytes f = p @ q" "q \<noteq> []"
      using assms(2) by (auto simp: strict_prefix_def prefix_def)
    have g: "frame_ok g" "p = frame_bytes g @ rest"
      using dec_bytes_sound[of fin p g rest] Pair Inr by auto
    have "dec_bytes fin (frame_bytes g @ rest @ q) = (Inr f, [])"
      using dec_bytes_frame[OF assms(1), of fin "[]"] q g by simp
    then show ?thesis
      using dec_bytes_frame[OF g(1), of fin "rest @ q"] q by simp
  qed (use Pair in auto)
qed

interpretation frames: self_delimiting frame_bytes dec_frame frame_ok
proof unfold_locales
  show "dec_frame (frame_bytes x @ rest) = Some (x, rest)" if "frame_ok x" for x rest
    using dec_bytes_frame[OF that] by (simp add: dec_frame_def)
  show "frame_bytes x \<noteq> []" if "frame_ok x" for x
    using length_frame_bytes[of x] by auto
  show "dec_frame p = None" if "frame_ok x" "strict_prefix p (frame_bytes x)" for x p
    using dec_bytes_torn[OF that, of IoEOF] by (auto simp: dec_frame_def)
qed

section \<open>Properties\<close>

text \<open>C5. Encode/decode round trip over any transport fragmentation: however the bytes of an
  encoded frame and what follows it are cut into reads, the decoder returns that frame and
  leaves exactly what follows.\<close>

theorem codec_roundtrip:
  assumes "append_wire [] f = Inr w" "concat chunks = w @ rest"
  shows "\<exists>rd'. decoder_read \<lparr>rd_chunks = chunks, rd_end = fin\<rparr> = (Inr f, rd') \<and>
    concat (rd_chunks rd') = rest \<and> rd_end rd' = fin"
proof -
  let ?rd = "\<lparr>rd_chunks = chunks, rd_end = fin\<rparr>"
  have "frame_ok f" "w = frame_bytes f" using assms(1) by (auto simp: append_wire_ok)
  then have "dec_bytes fin (rd_bytes ?rd) = (Inr f, rest)"
    using assms(2) by (simp add: rd_bytes_def dec_bytes_frame)
  then show ?thesis
    using decoder_read_bytes[of ?rd] by (cases "decoder_read ?rd") (auto simp: rd_bytes_def)
qed

theorem codec_roundtrip_witness:
  "\<exists>rd'. decoder_read \<lparr>rd_chunks = [[0, 0], [], [0, 5, 12, 0], [1, 123, 97, 98], [99]], rd_end = IoEOF\<rparr>
     = (Inr \<lparr>f_type = 12, f_header = [123], f_payload = [97]\<rparr>, rd') \<and>
   concat (rd_chunks rd') = [98, 99] \<and> rd_end rd' = IoEOF"
proof -
  have w: "append_wire [] \<lparr>f_type = 12, f_header = [123], f_payload = [97]\<rparr>
      = Inr [0, 0, 0, 5, 12, 0, 1, 123, 97]"
    by (simp add: append_wire_def wire_len_def MaxHeaderLen_def MaxFrameLen_def frameOverhead_def
        Let_def be_put32_def be_put16_def)
  have "concat [[0, 0], [], [0, 5, 12, 0], [1, 123, 97, 98], [99]]
      = [0, 0, 0, 5, 12, 0, 1, 123, 97] @ [98, 99 :: byte]" by simp
  from codec_roundtrip[OF w this] show ?thesis .
qed

text \<open>Decoder soundness: whatever bytes arrive, a frame the decoder accepts respects both
  size limits, and encoding it again gives exactly the bytes that were consumed.\<close>

theorem decoder_sound:
  assumes "decoder_read rd = (Inr f, rd')"
  shows "length (f_header f) \<le> MaxHeaderLen \<and> wire_len f \<le> MaxFrameLen \<and>
    append_wire [] f = Inr (take (4 + wire_len f) (rd_bytes rd)) \<and>
    rd_bytes rd' = drop (4 + wire_len f) (rd_bytes rd)"
proof -
  have "dec_bytes (rd_end rd) (rd_bytes rd) = (Inr f, rd_bytes rd')"
    using decoder_read_bytes[of rd] assms by (cases "dec_bytes (rd_end rd) (rd_bytes rd)") auto
  from dec_bytes_sound[OF this] show ?thesis
    by (simp add: append_wire_ok length_frame_bytes) (simp add: frame_ok_def)
qed

theorem decoder_sound_witness:
  "append_wire [] \<lparr>f_type = 29, f_header = [], f_payload = []\<rparr> = Inr [0, 0, 0, 3, 29, 0, 0]"
proof -
  let ?f = "\<lparr>f_type = 29, f_header = [], f_payload = []\<rparr>"
  have "append_wire [] ?f = Inr [0, 0, 0, 3, 29, 0, 0]"
    by (simp add: append_wire_def wire_len_def MaxHeaderLen_def MaxFrameLen_def frameOverhead_def
        Let_def be_put32_def be_put16_def)
  moreover have "concat [[0, 0, 0, 3, 29, 0, 0]] = [0, 0, 0, 3, 29, 0, 0] @ ([] :: byte list)" by simp
  ultimately obtain rd' where
    "decoder_read \<lparr>rd_chunks = [[0, 0, 0, 3, 29, 0, 0]], rd_end = IoEOF\<rparr> = (Inr ?f, rd')"
    using codec_roundtrip by blast
  from decoder_sound[OF this] show ?thesis by (simp add: wire_len_def frameOverhead_def rd_bytes_def)
qed

text \<open>Allocation bound: a length prefix above the frame limit is refused with
  \<open>E_FRAME_TOO_LARGE\<close> after the four prefix bytes, and one below the fixed overhead with
  \<open>E_BAD_FRAME\<close>; in both cases none of the body is read.\<close>

theorem oversize_refused:
  assumes "4 \<le> length (rd_bytes rd)" "len = unat (be_get32 (take 4 (rd_bytes rd)))"
    and "MaxFrameLen < len \<or> len < frameOverhead"
  shows "\<exists>rd'. decoder_read rd =
      (Inl (DecCoded (if MaxFrameLen < len then FrameTooLarge else BadFrame)), rd') \<and>
    rd_bytes rd' = drop 4 (rd_bytes rd)"
proof -
  obtain rd1 where "read_full 4 rd = (Inr (take 4 (rd_bytes rd)), rd1)" "rd_bytes rd1 = drop 4 (rd_bytes rd)"
    using read_full_ok[OF assms(1)] by blast
  then show ?thesis using assms(2,3) by (auto simp: decoder_read_def Let_def)
qed

theorem oversize_refused_witness:
  "\<exists>rd'. decoder_read \<lparr>rd_chunks = [[0, 16], [0, 1, 7, 7]], rd_end = IoEOF\<rparr> =
      (Inl (DecCoded FrameTooLarge), rd') \<and> rd_bytes rd' = [7, 7]"
proof -
  have t: "(1048577 :: nat) = unat (be_get32 (take 4 (rd_bytes \<lparr>rd_chunks = [[0, 16], [0, 1, 7, 7]], rd_end = IoEOF\<rparr>)))"
    by (simp add: rd_bytes_def)
  show ?thesis
    using oversize_refused[OF _ t] by (simp add: rd_bytes_def MaxFrameLen_def)
qed

text \<open>Streams: the decode loop of a connection recovers exactly the frames the peer
  encoded, in order, and then reports a clean end of stream, for any fragmentation.\<close>

theorem decode_stream:
  assumes "list_all frame_ok fs" "concat chunks = concat (map frame_bytes fs)" "length fs < n"
  shows "\<exists>rd'. decode_frames n \<lparr>rd_chunks = chunks, rd_end = IoEOF\<rparr> = (fs, Some DecEOF, rd')"
  using assms
proof (induction fs arbitrary: chunks n)
  case Nil
  then obtain m where "n = Suc m" by (cases n) auto
  moreover have "rd_bytes \<lparr>rd_chunks = chunks, rd_end = IoEOF\<rparr> = []"
    using Nil.prems(2) by (simp only: rd_bytes_def reader.simps list.map concat.simps)
  ultimately show ?case
    using decoder_read_bytes[of "\<lparr>rd_chunks = chunks, rd_end = IoEOF\<rparr>"]
    by (cases "decoder_read \<lparr>rd_chunks = chunks, rd_end = IoEOF\<rparr>") (simp add: dec_bytes_def)
next
  case (Cons f fs)
  then obtain m where n: "n = Suc m" by (cases n) auto
  let ?rd = "\<lparr>rd_chunks = chunks, rd_end = IoEOF\<rparr>"
  have "dec_bytes IoEOF (rd_bytes ?rd) = (Inr f, concat (map frame_bytes fs))"
    using Cons.prems by (simp add: rd_bytes_def dec_bytes_frame)
  then obtain cs where r: "decoder_read ?rd = (Inr f, \<lparr>rd_chunks = cs, rd_end = IoEOF\<rparr>)"
      "concat cs = concat (map frame_bytes fs)"
    using decoder_read_bytes[of ?rd] by (cases "decoder_read ?rd"; cases "snd (decoder_read ?rd)") (auto simp: rd_bytes_def)
  from Cons.IH[OF _ r(2), of m] Cons.prems n r(1) show ?case by auto
qed

theorem decode_stream_witness:
  "\<exists>rd'. decode_frames 3 \<lparr>rd_chunks = [[0, 0, 0, 3], [29, 0, 0, 0], [0, 0, 4, 24, 0, 0, 9]], rd_end = IoEOF\<rparr>
     = ([\<lparr>f_type = 29, f_header = [], f_payload = []\<rparr>, \<lparr>f_type = 24, f_header = [], f_payload = [9]\<rparr>],
        Some DecEOF, rd')"
  by (rule decode_stream)
    (simp_all add: frame_ok_def frame_bytes_def wire_len_def frameOverhead_def MaxFrameLen_def
      MaxHeaderLen_def be_put32_def be_put16_def)

lemma dec_bytes_torn_error:
  assumes "frame_ok f" "strict_prefix p (frame_bytes f)"
  shows "fst (dec_bytes IoEOF p) =
    Inl (if p = [] then DecEOF
         else if length p < 4 then DecWrap ''proto: read length'' IoUnexpectedEOF
         else if length p = 4 then DecWrap ''proto: read body'' IoEOF
         else DecWrap ''proto: read body'' IoUnexpectedEOF)"
proof -
  obtain q where q: "frame_bytes f = p @ q" "q \<noteq> []"
    using assms(2) by (auto simp: strict_prefix_def prefix_def)
  have t4: "take 4 p = be_put32 (of_nat (wire_len f))" if "4 \<le> length p"
  proof -
    have "take 4 (frame_bytes f) = take 4 p" using q that by simp
    then show ?thesis by (simp add: frame_bytes_def)
  qed
  have "length p < 4 + wire_len f"
    using q length_frame_bytes[of f] by (metis length_append length_greater_0_conv less_add_same_cancel1)
  moreover have "wire_len f \<le> MaxFrameLen" "3 \<le> wire_len f"
    using assms(1) by (auto simp: frame_ok_def wire_len_def frameOverhead_def)
  ultimately show ?thesis
    using t4 frame_lengths(1)[OF assms(1)]
    by (cases "length p < 4") (auto simp: dec_bytes_def Let_def frameOverhead_def)
qed

text \<open>C30. A peer that dies in the middle of a frame: the decoder reports an error, never a
  frame, and the error is a clean \<open>io.EOF\<close> only when not a single byte of the frame arrived.
  When it dies right after the four length bytes, the wrapped cause is \<open>io.EOF\<close> and not
  \<open>io.ErrUnexpectedEOF\<close>.\<close>

theorem decoder_torn:
  assumes "frame_ok f" "strict_prefix (concat chunks) (frame_bytes f)"
  shows "fst (decoder_read \<lparr>rd_chunks = chunks, rd_end = IoEOF\<rparr>) =
    Inl (if concat chunks = [] then DecEOF
         else if length (concat chunks) < 4 then DecWrap ''proto: read length'' IoUnexpectedEOF
         else if length (concat chunks) = 4 then DecWrap ''proto: read body'' IoEOF
         else DecWrap ''proto: read body'' IoUnexpectedEOF)"
  using decoder_read_bytes[of "\<lparr>rd_chunks = chunks, rd_end = IoEOF\<rparr>"] dec_bytes_torn_error[OF assms]
  by (simp only: rd_bytes_def reader.simps)

theorem decoder_torn_witness:
  "fst (decoder_read \<lparr>rd_chunks = [[0, 0, 0], [4]], rd_end = IoEOF\<rparr>) =
     Inl (DecWrap ''proto: read body'' IoEOF)"
proof -
  let ?f = "\<lparr>f_type = 24, f_header = [], f_payload = [9]\<rparr>"
  have "frame_ok ?f" and "strict_prefix (concat [[0, 0, 0], [4]]) (frame_bytes ?f)"
    by (simp_all add: frame_ok_def frame_bytes_def wire_len_def frameOverhead_def MaxFrameLen_def
      MaxHeaderLen_def be_put32_def be_put16_def)
  from decoder_torn[OF this] show ?thesis by simp
qed

end
