(* ===== verification/Conn.thy ===== *)
theory Conn
  imports Registry Codec
begin

text \<open>
  One client connection: \<open>pkg/daemon/conn.go\<close>, with the scopes of \<open>ws.go\<close> and the watches of
  \<open>watch.go\<close>. A handler is one step on the server and the connection. Frames come in with
  their headers decoded; what is sent is appended to \<open>cn_out\<close>, if the encoder accepts it.
\<close>

section \<open>State\<close>

datatype conn_scope = ScopeControl | ScopeReadOnly

record tokens =
  tk_control :: string
  tk_read_only :: string

record attachment =
  tt_ref :: sref
  tt_read_only :: bool
  tt_last_seen :: u64
  tt_running :: bool

record watch_reg =
  wg_ref :: sref
  wg_session_id :: string
  wg_pattern :: string
  wg_started :: bool
  wg_last_seen :: u64
  wg_tail :: "byte list"
  wg_tail_start :: u64
  wg_running :: bool

record conn =
  cn_client_id :: string
  cn_needs_token :: bool
  cn_scope :: conn_scope
  cn_hello_done :: bool
  cn_attachments :: "(string, attachment) gomap"
  cn_event_sub :: "nat option"
  cn_watches :: "(string, watch_reg) gomap"
  cn_closed :: bool
  cn_out :: "server_msg list"

text \<open>
  \<open>sv_kills\<close> is the environment's view: the signals sent, \<open>(pid, signal)\<close>. \<open>sv_handovers\<close> are the
  reply paths of the handovers that were started.
\<close>

record server =
  sv_reg :: registry
  sv_bus :: event_bus
  sv_version :: string
  sv_ws_tokens :: tokens
  sv_kills :: "(int \<times> nat) list"
  sv_handovers :: "string list"

definition new_conn :: "string \<Rightarrow> bool \<Rightarrow> conn" where
  "new_conn client needsToken =
     \<lparr>cn_client_id = client, cn_needs_token = needsToken, cn_scope = ScopeControl, cn_hello_done = False,
      cn_attachments = [], cn_event_sub = None, cn_watches = [], cn_closed = False, cn_out = []\<rparr>"

text \<open>
  What a handler is told by its surroundings: \<open>json.Marshal\<close> of each message, the UUID reader,
  the outcome of a spawn and of a mint, of a PTY write, of a resize and of a signal, what the
  platform says of a process, whether a pattern compiles, the clock, and the float addition
  of the metadata increments.
\<close>

record conn_env =
  ce_marshal :: "server_msg \<Rightarrow> byte list option"
  ce_uv :: "string \<Rightarrow> nat option"
  ce_spawn :: spawn_env
  ce_minted :: "string option"
  ce_watch_id :: string
  ce_pty_ok :: bool
  ce_setsize_ok :: bool
  ce_kill :: "int \<Rightarrow> nat \<Rightarrow> u64 option"
  ce_live :: "session \<Rightarrow> string option \<times> (int \<times> string) option"
  ce_compiles :: "string \<Rightarrow> bool"
  ce_now_ms :: int
  ce_fadd :: "string \<Rightarrow> string \<Rightarrow> string option"

section \<open>Sending\<close>

definition server_type :: "server_msg \<Rightarrow> frame_type" where
  "server_type m = (case m of
      SHelloAck _ \<Rightarrow> TypeHelloAck | SError _ \<Rightarrow> TypeError | SSpawnOK _ \<Rightarrow> TypeSpawnOK
    | SOutput _ _ \<Rightarrow> TypeOutput | SListOK _ \<Rightarrow> TypeListOK | SInfoOK _ \<Rightarrow> TypeInfoOK
    | SAttachOK _ \<Rightarrow> TypeAttachOK | SOK _ \<Rightarrow> TypeOK | SEvent _ \<Rightarrow> TypeEvent | SExit _ \<Rightarrow> TypeExit
    | SWatchOK _ \<Rightarrow> TypeWatchOK | SWatchEvent _ \<Rightarrow> TypeWatchEvent
    | SReplayCommandOK _ _ \<Rightarrow> TypeReplayCommandOK)"

definition server_payload :: "server_msg \<Rightarrow> byte list" where
  "server_payload m = (case m of SOutput _ p \<Rightarrow> p | SReplayCommandOK _ p \<Rightarrow> p | _ \<Rightarrow> [])"

text \<open>Whether \<open>WriteMsg\<close> can put the message on the wire.\<close>

definition sendable :: "(server_msg \<Rightarrow> byte list option) \<Rightarrow> server_msg \<Rightarrow> bool" where
  "sendable marshal m =
     (case new_frame (marshal m) (server_type m) (server_payload m) of
        Inl _ \<Rightarrow> False
      | Inr f \<Rightarrow> (case append_wire [] f of Inl _ \<Rightarrow> False | Inr _ \<Rightarrow> True))"

definition conn_send :: "conn_env \<Rightarrow> conn \<Rightarrow> server_msg \<Rightarrow> conn \<times> bool" where
  "conn_send env c m =
     (if \<not> cn_closed c \<and> sendable (ce_marshal env) m then (c\<lparr>cn_out := cn_out c @ [m]\<rparr>, True) else (c, False))"

abbreviation send :: "conn_env \<Rightarrow> conn \<Rightarrow> server_msg \<Rightarrow> conn" where
  "send env c m \<equiv> fst (conn_send env c m)"

definition error_code :: "err \<Rightarrow> code" where
  "error_code e = (case e of Coded k \<Rightarrow> k | OtherErr _ \<Rightarrow> Internal)"

definition send_err :: "conn_env \<Rightarrow> conn \<Rightarrow> string \<Rightarrow> err \<Rightarrow> conn" where
  "send_err env c reqID e = send env c (SError \<lparr>em_req_id = reqID, em_code = error_code e\<rparr>)"

definition send_ok :: "conn_env \<Rightarrow> conn \<Rightarrow> string \<Rightarrow> conn" where
  "send_ok env c reqID = send env c (SOK \<lparr>ok_req_id = reqID\<rparr>)"

definition reply :: "conn_env \<Rightarrow> conn \<Rightarrow> string \<Rightarrow> err option \<Rightarrow> conn" where
  "reply env c reqID e = (case e of Some x \<Rightarrow> send_err env c reqID x | None \<Rightarrow> send_ok env c reqID)"

definition publish :: "conn_env \<Rightarrow> server \<Rightarrow> reg_event list \<Rightarrow> server" where
  "publish env sv evs =
     sv\<lparr>sv_bus := foldl (\<lambda>b (sid, t, data). bus_emit_session b (ce_now_ms env) t sid data) (sv_bus sv) evs\<rparr>"

section \<open>Sessions of the server\<close>

abbreviation sv_session :: "server \<Rightarrow> sref \<Rightarrow> session" where
  "sv_session sv p \<equiv> session_at (sv_reg sv) p"

definition put_session :: "server \<Rightarrow> sref \<Rightarrow> session \<Rightarrow> server" where
  "put_session sv p s = sv\<lparr>sv_reg := set_session (sv_reg sv) p s\<rparr>"

definition sv_lookup :: "conn_env \<Rightarrow> server \<Rightarrow> string \<Rightarrow> err + sref" where
  "sv_lookup env sv x = registry_lookup (ce_uv env) (sv_reg sv) x"

definition sv_kill :: "conn_env \<Rightarrow> server \<Rightarrow> sref \<Rightarrow> string \<Rightarrow> server \<times> err option" where
  "sv_kill env sv p sig =
     (case session_kill (ce_kill env) (sv_session sv p) sig of
        (calls, e) \<Rightarrow> (sv\<lparr>sv_kills := sv_kills sv @ calls\<rparr>, e))"

text \<open>
  \<open>releaseAttachment\<close>: the subscriber count goes down, and the last subscriber of a
  session that does not linger takes it along.
\<close>

definition release_attachment :: "conn_env \<Rightarrow> server \<Rightarrow> conn \<Rightarrow> string \<Rightarrow> server" where
  "release_attachment env sv c sid =
     (case sv_lookup env sv sid of
        Inl _ \<Rightarrow> sv
      | Inr p \<Rightarrow>
          (case remove_subscriber (sv_session sv p) of
             (s, remaining) \<Rightarrow>
               let sv1 = publish env (put_session sv p s) [(sid, EventDetached, [(DataKeyClient, cn_client_id c)])]
               in if remaining = 0 \<and> \<not> sc_linger (se_cfg s) \<and> se_state s = StateRunning
                  then fst (sv_kill env sv1 p SignalTERM) else sv1))"

definition lookup_for_write :: "conn_env \<Rightarrow> server \<Rightarrow> conn \<Rightarrow> string \<Rightarrow> string \<Rightarrow> conn \<times> sref option" where
  "lookup_for_write env sv c reqID sid =
     (case sv_lookup env sv sid of
        Inl e \<Rightarrow> (send_err env c reqID e, None)
      | Inr p \<Rightarrow>
          (case mget (cn_attachments c) (se_id (sv_session sv p)) of
             Some att \<Rightarrow>
               if tt_read_only att then (send_err env c reqID (Coded ReadOnlyAttach), None) else (c, Some p)
           | None \<Rightarrow> (c, Some p)))"

section \<open>Handlers\<close>

text \<open>\<open>scopeFor\<close>: \<open>None\<close> refuses. The comparison takes constant time; its result is equality.\<close>

definition scope_for :: "tokens \<Rightarrow> string \<Rightarrow> conn_scope option" where
  "scope_for t presented =
     (if presented = tk_control t then Some ScopeControl
      else if presented = tk_read_only t then Some ScopeReadOnly
      else None)"

definition on_hello :: "conn_env \<Rightarrow> server \<Rightarrow> conn \<Rightarrow> hello \<Rightarrow> conn \<times> bool" where
  "on_hello env sv c m =
     (if he_protocol_version m \<noteq> ProtocolVersion
      then (send_err env c (he_req_id m) (Coded ProtocolMismatch), False)
      else (case (if cn_needs_token c then scope_for (sv_ws_tokens sv) (he_token m) else Some ScopeControl) of
          None \<Rightarrow> (send_err env c (he_req_id m) (Coded BadToken), False)
        | Some scope \<Rightarrow>
            (send env (c\<lparr>cn_hello_done := True, cn_scope := scope\<rparr>)
               (SHelloAck \<lparr>ha_req_id = he_req_id m, ha_protocol_version = ProtocolVersion,
                  ha_daemon_version = sv_version sv, ha_client_id = cn_client_id c\<rparr>), True)))"

definition spawn_request :: "spawn \<Rightarrow> spawn_config" where
  "spawn_request m =
     \<lparr>sc_cmd = sp_cmd m, sc_args = sp_args m, sc_cwd = sp_cwd m, sc_env = sp_env m, sc_cols = sp_cols m,
      sc_rows = sp_rows m, sc_name = sp_name m, sc_meta = sp_meta m, sc_annotations = sp_annotations m,
      sc_ring_bytes = min (sp_ring_bytes m) MaxRingBytes, sc_log_path = sp_log_path m,
      sc_silence_after = 0, sc_linger = (case sp_linger m of Some l \<Rightarrow> l | None \<Rightarrow> True)\<rparr>"

definition on_spawn :: "conn_env \<Rightarrow> server \<Rightarrow> conn \<Rightarrow> spawn \<Rightarrow> server \<times> conn" where
  "on_spawn env sv c m =
     (case validate_spawn_annotations (sp_annotations m) of
        Some e \<Rightarrow> (sv, send_err env c (sp_req_id m) (Coded e))
      | None \<Rightarrow>
          (case registry_spawn (ce_spawn env) (sv_reg sv) (spawn_request m) (ce_minted env) of
             (r, Inl e, evs) \<Rightarrow> (publish env (sv\<lparr>sv_reg := r\<rparr>) evs, send_err env c (sp_req_id m) e)
           | (r, Inr p, evs) \<Rightarrow>
               (publish env (sv\<lparr>sv_reg := r\<rparr>) evs,
                send env c (SSpawnOK \<lparr>so_req_id = sp_req_id m, so_session_id = se_id (session_at r p),
                  so_pid = se_pid (session_at r p)\<rparr>))))"

definition on_input :: "conn_env \<Rightarrow> server \<Rightarrow> conn \<Rightarrow> input_header \<Rightarrow> byte list \<Rightarrow> server \<times> conn" where
  "on_input env sv c m payload =
     (case lookup_for_write env sv c (in_req_id m) (in_session_id m) of
        (c', None) \<Rightarrow> (sv, c')
      | (c', Some p) \<Rightarrow>
          (case write_input (ce_pty_ok env) (sv_session sv p) (cn_client_id c) payload of
             (s, None) \<Rightarrow> (put_session sv p s, c')
           | (s, Some e) \<Rightarrow> (put_session sv p s, send_err env c' (in_req_id m) e)))"

definition on_input_eof :: "conn_env \<Rightarrow> server \<Rightarrow> conn \<Rightarrow> input_eof \<Rightarrow> server \<times> conn" where
  "on_input_eof env sv c m =
     (case lookup_for_write env sv c (ie_req_id m) (ie_session_id m) of
        (c', None) \<Rightarrow> (sv, c')
      | (c', Some p) \<Rightarrow>
          (case session_input_eof (ce_pty_ok env) (sv_session sv p) (cn_client_id c) of
             (s, e) \<Rightarrow> (put_session sv p s, reply env c' (ie_req_id m) e)))"

definition on_resize :: "conn_env \<Rightarrow> server \<Rightarrow> conn \<Rightarrow> resize \<Rightarrow> server \<times> conn" where
  "on_resize env sv c m =
     (case sv_lookup env sv (rz_session_id m) of
        Inl e \<Rightarrow> (sv, send_err env c (rz_req_id m) e)
      | Inr p \<Rightarrow>
          (case session_resize (ce_setsize_ok env) (sv_session sv p) (rz_cols m) (rz_rows m) of
             (s, e, evs) \<Rightarrow> (publish env (put_session sv p s) (map (Pair (se_id s)) evs), reply env c (rz_req_id m) e)))"

definition on_kill :: "conn_env \<Rightarrow> server \<Rightarrow> conn \<Rightarrow> kill \<Rightarrow> server \<times> conn" where
  "on_kill env sv c m =
     (case sv_lookup env sv (ki_session_id m) of
        Inl e \<Rightarrow> (sv, send_err env c (ki_req_id m) e)
      | Inr p \<Rightarrow>
          (case sv_kill env sv p (ki_signal m) of (sv', e) \<Rightarrow> (sv', reply env c (ki_req_id m) e)))"

definition info_at :: "conn_env \<Rightarrow> server \<Rightarrow> sref \<Rightarrow> session_info" where
  "info_at env sv p = session_info_of (ce_live env (sv_session sv p)) (sv_session sv p)"

definition on_list :: "conn_env \<Rightarrow> server \<Rightarrow> conn \<Rightarrow> list_req \<Rightarrow> conn" where
  "on_list env sv c m =
     send env c (SListOK \<lparr>lo_req_id = li_req_id m, lo_sessions = map (info_at env sv) (registry_list (sv_reg sv))\<rparr>)"

definition on_info :: "conn_env \<Rightarrow> server \<Rightarrow> conn \<Rightarrow> info_req \<Rightarrow> conn" where
  "on_info env sv c m =
     (case sv_lookup env sv (if_session_id m) of
        Inl e \<Rightarrow> send_err env c (if_req_id m) e
      | Inr p \<Rightarrow> send env c (SInfoOK \<lparr>io_req_id = if_req_id m, io_session = info_at env sv p\<rparr>))"

text \<open>\<open>oldest\<close> is computed on \<open>int\<close>, as the code does.\<close>

definition oldest_seq :: "ring \<Rightarrow> u64" where
  "oldest_seq r = ring_last_seq r - word_of_int (min (sint (ring_last_seq r)) (int (ring_len r)))"

definition on_attach :: "conn_env \<Rightarrow> server \<Rightarrow> conn \<Rightarrow> attach \<Rightarrow> server \<times> conn" where
  "on_attach env sv c m =
     (case sv_lookup env sv (at_session_id m) of
        Inl e \<Rightarrow> (sv, send_err env c (at_req_id m) e)
      | Inr p \<Rightarrow>
          let s = sv_session sv p; sid = se_id s;
              readOnly = (cn_scope c = ScopeReadOnly \<or> at_read_only m);
              since = (case at_since_seq m of Some n \<Rightarrow> n | None \<Rightarrow> 0)
          in if mget (cn_attachments c) sid \<noteq> None
             then (sv, send_err env c (at_req_id m) (Coded InvalidInput))
             else
               let att = \<lparr>tt_ref = p, tt_read_only = readOnly, tt_last_seen = since, tt_running = True\<rparr>;
                   c1 = c\<lparr>cn_attachments := mput sid att (cn_attachments c)\<rparr>;
                   sv1 = publish env (put_session sv p (fst (add_subscriber s)))
                           [(sid, EventAttached, [(DataKeyClient, cn_client_id c)])]
               in (sv1, send env c1 (SAttachOK \<lparr>ao_req_id = at_req_id m, ao_session_id = sid,
                     ao_last_seq = session_last_seq s, ao_truncated = (since < oldest_seq (se_ring s))\<rparr>)))"

definition on_detach :: "conn_env \<Rightarrow> server \<Rightarrow> conn \<Rightarrow> detach \<Rightarrow> server \<times> conn" where
  "on_detach env sv c m =
     (case sv_lookup env sv (de_session_id m) of
        Inl e \<Rightarrow> (sv, send_err env c (de_req_id m) e)
      | Inr p \<Rightarrow>
          let sid = se_id (sv_session sv p);
              c1 = c\<lparr>cn_attachments := mdel sid (cn_attachments c)\<rparr>
          in if mget (cn_attachments c) sid = None
             then (sv, send_err env c1 (de_req_id m) (Coded NotAttached))
             else (release_attachment env sv c1 sid, send_ok env c1 (de_req_id m)))"

definition on_rename :: "conn_env \<Rightarrow> server \<Rightarrow> conn \<Rightarrow> rename_req \<Rightarrow> server \<times> conn" where
  "on_rename env sv c m =
     (case registry_rename (ce_uv env) (sv_reg sv) (rn_session_id m) (rn_name m) of
        (r, e, evs) \<Rightarrow> (publish env (sv\<lparr>sv_reg := r\<rparr>) evs, reply env c (rn_req_id m) e))"

definition on_set_meta :: "conn_env \<Rightarrow> server \<Rightarrow> conn \<Rightarrow> set_meta \<Rightarrow> server \<times> conn" where
  "on_set_meta env sv c m =
     (case sv_lookup env sv (sm_session_id m) of
        Inl e \<Rightarrow> (sv, send_err env c (sm_req_id m) e)
      | Inr p \<Rightarrow>
          (case session_set_meta (sv_session sv p) (sm_meta m) of
             (s, evs) \<Rightarrow> (publish env (put_session sv p s) (map (Pair (se_id s)) evs), send_ok env c (sm_req_id m))))"

definition on_set_meta_json :: "conn_env \<Rightarrow> server \<Rightarrow> conn \<Rightarrow> set_meta_json \<Rightarrow> server \<times> conn" where
  "on_set_meta_json env sv c m =
     (case sv_lookup env sv (sj_session_id m) of
        Inl e \<Rightarrow> (sv, send_err env c (sj_req_id m) e)
      | Inr p \<Rightarrow>
          (case session_set_meta_json (ce_fadd env) (sv_session sv p) (sj_mode m) (sj_patch m) (sj_if_version m) of
             (s, version, e, evs) \<Rightarrow>
               (publish env (put_session sv p s) (map (Pair (se_id s)) evs),
                reply env c (sj_req_id m) (map_option Coded e))))"

definition on_take_write :: "conn_env \<Rightarrow> server \<Rightarrow> conn \<Rightarrow> take_write \<Rightarrow> server \<times> conn" where
  "on_take_write env sv c m =
     (case lookup_for_write env sv c (tw_req_id m) (tw_session_id m) of
        (c', None) \<Rightarrow> (sv, c')
      | (c', Some p) \<Rightarrow>
          (put_session sv p (session_take_write (sv_session sv p) (cn_client_id c)), send_ok env c' (tw_req_id m)))"

definition on_release_write :: "conn_env \<Rightarrow> server \<Rightarrow> conn \<Rightarrow> release_write \<Rightarrow> server \<times> conn" where
  "on_release_write env sv c m =
     (case sv_lookup env sv (rw_session_id m) of
        Inl e \<Rightarrow> (sv, send_err env c (rw_req_id m) e)
      | Inr p \<Rightarrow>
          (put_session sv p (session_release_write (sv_session sv p) (cn_client_id c)), send_ok env c (rw_req_id m)))"

text \<open>\<open>onReplayCommand\<close>: the window of the last finished command, clamped as the code clamps it,
  in \<open>uint64\<close> arithmetic. A slice bound beyond the data cannot occur: it is guarded.\<close>

definition command_window_of :: "session \<Rightarrow> (u64 \<times> u64 \<times> bool \<times> byte list) option" where
  "command_window_of s =
     (case last_command (se_mon s) of
        (start, end0, ok) \<Rightarrow>
          if \<not> ok then None
          else (case session_replay_from s start of
              (data, fromSeq, truncated) \<Rightarrow>
                let end1 = (if fromSeq + of_nat (length data) < end0 then fromSeq + of_nat (length data) else end0);
                    data1 = (if end1 - fromSeq < of_nat (length data) then take (unat (end1 - fromSeq)) data else data)
                in Some (fromSeq, end1, truncated, data1)))"

definition on_replay_command :: "conn_env \<Rightarrow> server \<Rightarrow> conn \<Rightarrow> replay_command \<Rightarrow> conn" where
  "on_replay_command env sv c m =
     (case sv_lookup env sv (rc_session_id m) of
        Inl e \<Rightarrow> send_err env c (rc_req_id m) e
      | Inr p \<Rightarrow>
          (case command_window_of (sv_session sv p) of
             None \<Rightarrow> send_err env c (rc_req_id m) (Coded NotFound)
           | Some (fromSeq, endSeq, truncated, data) \<Rightarrow>
               send env c (SReplayCommandOK \<lparr>ro_req_id = rc_req_id m, ro_session_id = se_id (sv_session sv p),
                 ro_start_seq = fromSeq, ro_end_seq = endSeq, ro_truncated = truncated\<rparr> data)))"

definition on_subscribe_events :: "conn_env \<Rightarrow> server \<Rightarrow> conn \<Rightarrow> subscribe_events \<Rightarrow> server \<times> conn" where
  "on_subscribe_events env sv c m =
     (if cn_event_sub c \<noteq> None then (sv, send_err env c (se_req_id m) (Coded InvalidInput))
      else (case bus_subscribe (sv_bus sv) (se_session_id m) of
          (subID, b) \<Rightarrow> (sv\<lparr>sv_bus := b\<rparr>, send_ok env (c\<lparr>cn_event_sub := Some subID\<rparr>) (se_req_id m))))"

definition on_handover_req :: "conn_env \<Rightarrow> server \<Rightarrow> conn \<Rightarrow> handover_req \<Rightarrow> server \<times> conn" where
  "on_handover_req env sv c m =
     (if cn_needs_token c then (sv, send_err env c (hr_req_id m) (Coded Unsupported))
      else (sv\<lparr>sv_handovers := sv_handovers sv @ [hr_reply_path m]\<rparr>, send_ok env c (hr_req_id m)))"

definition maxWatchesPerConn :: nat where
  "maxWatchesPerConn = 16"

definition watchOverlapBytes :: nat where
  "watchOverlapBytes = 1024"

definition watchMatchCap :: nat where
  "watchMatchCap = 256"

definition on_watch :: "conn_env \<Rightarrow> server \<Rightarrow> conn \<Rightarrow> watch \<Rightarrow> conn" where
  "on_watch env sv c m =
     (if \<not> ce_compiles env (wa_pattern m) then send_err env c (wa_req_id m) (Coded InvalidInput)
      else (case sv_lookup env sv (wa_session_id m) of
          Inl e \<Rightarrow> send_err env c (wa_req_id m) e
        | Inr p \<Rightarrow>
            if maxWatchesPerConn \<le> length (cn_watches c) then send_err env c (wa_req_id m) (Coded LimitExceeded)
            else
              let wid = ce_watch_id env;
                  wreg = \<lparr>wg_ref = p, wg_session_id = se_id (sv_session sv p), wg_pattern = wa_pattern m,
                    wg_started = False, wg_last_seen = 0, wg_tail = [], wg_tail_start = 0, wg_running = True\<rparr>
              in send env (c\<lparr>cn_watches := mput wid wreg (cn_watches c)\<rparr>)
                   (SWatchOK \<lparr>wo_req_id = wa_req_id m, wo_watch_id = wid\<rparr>)))"

section \<open>Dispatch\<close>

text \<open>
  A frame as the decode loop sees it: with its header, with a header that does not decode (and
  the request id that can still be read off it), or of a type that no client sends.
\<close>

datatype inbound = InMsg client_msg | InBad frame_type string | InOther frame_type

definition inbound_type :: "inbound \<Rightarrow> frame_type" where
  "inbound_type f = (case f of InMsg m \<Rightarrow> client_type m | InBad t _ \<Rightarrow> t | InOther t \<Rightarrow> t)"

definition probe_req_id :: "inbound \<Rightarrow> string" where
  "probe_req_id f = (case f of InMsg m \<Rightarrow> client_req_id m | InBad _ i \<Rightarrow> i | InOther _ \<Rightarrow> [])"

definition control_only_types :: "frame_type list" where
  "control_only_types =
     [TypeHandoverReq, TypeSpawn, TypeInput, TypeInputEOF, TypeResize, TypeKill, TypeRename,
      TypeSetMeta, TypeSetMetaJSON, TypeTakeWrite, TypeReleaseWrite]"

fun dispatch_msg :: "conn_env \<Rightarrow> server \<Rightarrow> conn \<Rightarrow> client_msg \<Rightarrow> server \<times> conn \<times> bool" where
  "dispatch_msg env sv c (CHello m) = (sv, on_hello env sv c m)"
| "dispatch_msg env sv c (CSpawn m) = (case on_spawn env sv c m of (sv', c') \<Rightarrow> (sv', c', True))"
| "dispatch_msg env sv c (CInput m p) = (case on_input env sv c m p of (sv', c') \<Rightarrow> (sv', c', True))"
| "dispatch_msg env sv c (CInputEOF m) = (case on_input_eof env sv c m of (sv', c') \<Rightarrow> (sv', c', True))"
| "dispatch_msg env sv c (CResize m) = (case on_resize env sv c m of (sv', c') \<Rightarrow> (sv', c', True))"
| "dispatch_msg env sv c (CKill m) = (case on_kill env sv c m of (sv', c') \<Rightarrow> (sv', c', True))"
| "dispatch_msg env sv c (CList m) = (sv, on_list env sv c m, True)"
| "dispatch_msg env sv c (CInfo m) = (sv, on_info env sv c m, True)"
| "dispatch_msg env sv c (CAttach m) = (case on_attach env sv c m of (sv', c') \<Rightarrow> (sv', c', True))"
| "dispatch_msg env sv c (CDetach m) = (case on_detach env sv c m of (sv', c') \<Rightarrow> (sv', c', True))"
| "dispatch_msg env sv c (CRename m) = (case on_rename env sv c m of (sv', c') \<Rightarrow> (sv', c', True))"
| "dispatch_msg env sv c (CSetMeta m) = (case on_set_meta env sv c m of (sv', c') \<Rightarrow> (sv', c', True))"
| "dispatch_msg env sv c (CSetMetaJSON m) = (case on_set_meta_json env sv c m of (sv', c') \<Rightarrow> (sv', c', True))"
| "dispatch_msg env sv c (CTakeWrite m) = (case on_take_write env sv c m of (sv', c') \<Rightarrow> (sv', c', True))"
| "dispatch_msg env sv c (CReleaseWrite m) = (case on_release_write env sv c m of (sv', c') \<Rightarrow> (sv', c', True))"
| "dispatch_msg env sv c (CSubEvents m) = (case on_subscribe_events env sv c m of (sv', c') \<Rightarrow> (sv', c', True))"
| "dispatch_msg env sv c (CReplayCommand m) = (sv, on_replay_command env sv c m, True)"
| "dispatch_msg env sv c (CHandoverReq m) = (case on_handover_req env sv c m of (sv', c') \<Rightarrow> (sv', c', True))"
| "dispatch_msg env sv c (CWatch m) = (sv, on_watch env sv c m, True)"

definition dispatch :: "conn_env \<Rightarrow> server \<Rightarrow> conn \<Rightarrow> inbound \<Rightarrow> server \<times> conn \<times> bool" where
  "dispatch env sv c f =
     (if cn_scope c = ScopeReadOnly \<and> inbound_type f \<in> set control_only_types
      then (sv, send_err env c (probe_req_id f) (Coded ReadOnlyScope), True)
      else (case f of
          InMsg m \<Rightarrow> dispatch_msg env sv c m
        | InBad t _ \<Rightarrow> (sv, send_err env c [] (Coded BadFrame), t \<noteq> TypeHello)
        | InOther _ \<Rightarrow> (sv, c, True)))"

text \<open>One turn of the decode loop. \<open>False\<close> ends the connection, and the deferred cleanup runs.\<close>

definition handle_frame :: "conn_env \<Rightarrow> server \<Rightarrow> conn \<Rightarrow> inbound \<Rightarrow> server \<times> conn \<times> bool" where
  "handle_frame env sv c f =
     (if \<not> cn_hello_done c \<and> inbound_type f \<noteq> TypeHello
      then (sv, send_err env c [] (Coded HandshakeFirst), False)
      else dispatch env sv c f)"

text \<open>A read error: only a coded one, from the decoder, is answered.\<close>

definition handle_read_error :: "conn_env \<Rightarrow> conn \<Rightarrow> dec_err \<Rightarrow> conn" where
  "handle_read_error env c e = (case e of DecCoded k \<Rightarrow> send_err env c [] (Coded k) | _ \<Rightarrow> c)"

section \<open>The end of a connection\<close>

definition release_lock :: "string \<Rightarrow> server \<Rightarrow> sref \<Rightarrow> server" where
  "release_lock client sv p =
     (if se_write_lock_holder (sv_session sv p) = client
      then put_session sv p (session_release_write (sv_session sv p) client) else sv)"

definition release_locks :: "server \<Rightarrow> string \<Rightarrow> server" where
  "release_locks sv client = foldl (release_lock client) sv (registry_list (sv_reg sv))"

definition conn_cleanup :: "conn_env \<Rightarrow> server \<Rightarrow> conn \<Rightarrow> server \<times> conn" where
  "conn_cleanup env sv c =
     (let c1 = c\<lparr>cn_closed := True, cn_attachments := [], cn_event_sub := None, cn_watches := []\<rparr>;
          sv1 = foldl (\<lambda>sv sid. release_attachment env sv c1 sid) sv (map fst (cn_attachments c));
          sv2 = (case cn_event_sub c of None \<Rightarrow> sv1 | Some i \<Rightarrow> sv1\<lparr>sv_bus := bus_unsubscribe (sv_bus sv1) i\<rparr>)
      in (release_locks sv2 (cn_client_id c), c1))"

section \<open>The output pump\<close>

definition outputChunkBytes :: nat where
  "outputChunkBytes = 64 * 1024"

text \<open>The OUTPUT frames of one replay.\<close>

function output_frames :: "string \<Rightarrow> u64 \<Rightarrow> byte list \<Rightarrow> server_msg list" where
  "output_frames sid sq data =
     (if data = [] then []
      else SOutput \<lparr>oh_session_id = sid, oh_seq = sq\<rparr> (take outputChunkBytes data) #
        output_frames sid (sq + of_nat (min outputChunkBytes (length data))) (drop outputChunkBytes data))"
  by auto
termination by (relation "measure (\<lambda>(_, _, data). length data)") (auto simp: outputChunkBytes_def)

declare output_frames.simps [simp del]

text \<open>Sends frames until one fails.\<close>

fun send_all :: "conn_env \<Rightarrow> conn \<Rightarrow> server_msg list \<Rightarrow> conn \<times> bool" where
  "send_all env c [] = (c, True)"
| "send_all env c (m # ms) =
     (case conn_send env c m of (c', sent) \<Rightarrow> if sent then send_all env c' ms else (c', False))"

text \<open>
  One turn of \<open>pumpOutput\<close> for an attachment: replay from the last byte seen, then \<open>WaitOutput\<close>.
  While that waits the pump stays where it is; after the exit, drained, it sends EXIT and ends.
\<close>

definition pump_turn :: "conn_env \<Rightarrow> session \<Rightarrow> conn \<Rightarrow> attachment \<Rightarrow> conn \<times> attachment" where
  "pump_turn env s c att =
     (case session_replay_from s (tt_last_seen att) of
        (data, fromSeq, truncated) \<Rightarrow>
          let c1 = (if truncated \<and> 0 < tt_last_seen att then send_err env c [] (Coded RingGone) else c)
          in (case send_all env c1 (output_frames (se_id s) fromSeq data) of
              (c2, sent) \<Rightarrow>
                if \<not> sent then (c2, att\<lparr>tt_running := False\<rparr>)
                else
                  let seen = (if data \<noteq> [] then fromSeq + of_nat (length data) else tt_last_seen att);
                      att1 = att\<lparr>tt_last_seen := seen\<rparr>
                  in (case wait_output s False seen of
                        None \<Rightarrow> (c2, att1)
                      | Some (latest, exited) \<Rightarrow>
                          if exited \<and> latest = seen
                          then (send env c2 (SExit \<lparr>ex_session_id = se_id s, ex_exit_code = se_exit_code s,
                                  ex_signal = se_exit_sig s\<rparr>), att1\<lparr>tt_running := False\<rparr>)
                          else (c2, att1))))"

definition pump_output :: "conn_env \<Rightarrow> server \<Rightarrow> conn \<Rightarrow> string \<Rightarrow> conn" where
  "pump_output env sv c sid =
     (case mget (cn_attachments c) sid of
        None \<Rightarrow> c
      | Some att \<Rightarrow>
          if \<not> tt_running att then c
          else (case pump_turn env (sv_session sv (tt_ref att)) c att of
              (c', att') \<Rightarrow> c'\<lparr>cn_attachments := mput sid att' (cn_attachments c')\<rparr>))"

section \<open>The event pump\<close>

definition pump_event :: "conn_env \<Rightarrow> server \<Rightarrow> conn \<Rightarrow> server \<times> conn" where
  "pump_event env sv c =
     (case cn_event_sub c of
        None \<Rightarrow> (sv, c)
      | Some i \<Rightarrow>
          (case bus_receive (sv_bus sv) i of
             (None, b) \<Rightarrow> (sv, c)
           | (Some ev, b) \<Rightarrow> (sv\<lparr>sv_bus := b\<rparr>, send env c (SEvent ev))))"

section \<open>The watch scanner\<close>

text \<open>
  \<open>find_all pattern buf\<close> is \<open>FindAllIndex\<close>: the matches, as pairs of offsets. A turn scans the
  overlap and the new output.
\<close>

type_synonym find_all = "string \<Rightarrow> byte list \<Rightarrow> (nat \<times> nat) list"

definition watch_events :: "string \<Rightarrow> string \<Rightarrow> u64 \<Rightarrow> u64 \<Rightarrow> byte list \<Rightarrow> (nat \<times> nat) list \<Rightarrow> server_msg list" where
  "watch_events wid sid seen bufStart buf locs =
     map (\<lambda>(lo, hi). SWatchEvent \<lparr>we_watch_id = wid, we_session_id = sid, we_seq = bufStart + of_nat lo,
            we_match = bytes_string (take watchMatchCap (sub_slice lo hi buf))\<rparr>)
       (filter (\<lambda>(lo, hi). \<not> of_nat hi + bufStart \<le> seen) locs)"

definition watch_start :: "session \<Rightarrow> watch_reg \<Rightarrow> watch_reg" where
  "watch_start s w =
     w\<lparr>wg_started := True, wg_last_seen := session_last_seq s, wg_tail := [], wg_tail_start := session_last_seq s\<rparr>"

definition watch_turn :: "find_all \<Rightarrow> conn_env \<Rightarrow> session \<Rightarrow> conn \<Rightarrow> string \<Rightarrow> watch_reg \<Rightarrow> conn \<times> watch_reg" where
  "watch_turn fa env s c wid w =
     (case session_replay_from s (wg_last_seen w) of
        (data, fromSeq, _) \<Rightarrow>
          let buf = wg_tail w @ data;
              evs = (if data = [] then [] else
                watch_events wid (se_id s) (wg_last_seen w) (wg_tail_start w) buf (fa (wg_pattern w) buf))
          in (case send_all env c evs of
              (c1, sent) \<Rightarrow>
                if \<not> sent then (c1, w\<lparr>wg_running := False\<rparr>)
                else
                  let seen = fromSeq + of_nat (length data);
                      keep = min (length buf) watchOverlapBytes;
                      w1 = (if data = [] then w
                            else w\<lparr>wg_last_seen := seen, wg_tail := drop (length buf - keep) buf,
                                   wg_tail_start := seen - of_nat keep\<rparr>)
                  in (case wait_output s False (wg_last_seen w1) of
                        None \<Rightarrow> (c1, w1)
                      | Some (latest, exited) \<Rightarrow>
                          (c1, if exited \<and> latest = wg_last_seen w1 then w1\<lparr>wg_running := False\<rparr> else w1))))"

definition run_watch :: "find_all \<Rightarrow> conn_env \<Rightarrow> server \<Rightarrow> conn \<Rightarrow> string \<Rightarrow> conn" where
  "run_watch fa env sv c wid =
     (case mget (cn_watches c) wid of
        None \<Rightarrow> c
      | Some w \<Rightarrow>
          let s = sv_session sv (wg_ref w)
          in if \<not> wg_running w then c
             else if \<not> wg_started w then c\<lparr>cn_watches := mput wid (watch_start s w) (cn_watches c)\<rparr>
             else (case watch_turn fa env s c wid w of
                 (c', w') \<Rightarrow> c'\<lparr>cn_watches := mput wid w' (cn_watches c')\<rparr>))"

end
