(* ===== verification/Pump.thy ===== *)
theory Pump
  imports Conn
begin

text \<open>
  What a subscriber receives: the output pump of a connection against the history of a
  session, whatever the interleaving of the session's output and the pump's turns.
\<close>

section \<open>Frames that fit\<close>

text \<open>The documented size of a header: every message marshals into the header limit.\<close>

definition small_headers :: "(server_msg \<Rightarrow> byte list option) \<Rightarrow> bool" where
  "small_headers marshal \<longleftrightarrow> (\<forall>m. \<exists>h. marshal m = Some h \<and> length h \<le> MaxHeaderLen)"

lemma output_fits:
  assumes "small_headers marshal" "length (server_payload m) \<le> outputChunkBytes"
  shows "sendable marshal m"
proof -
  obtain h where "marshal m = Some h" "length h \<le> MaxHeaderLen" using assms(1) by (auto simp: small_headers_def)
  then show ?thesis
    using assms(2) by (simp add: sendable_def new_frame_def append_wire_def wire_len_def Let_def
        MaxHeaderLen_def MaxFrameLen_def frameOverhead_def outputChunkBytes_def)
qed

lemma send_out:
  "\<not> cn_closed c \<Longrightarrow> sendable (ce_marshal env) m \<Longrightarrow> conn_send env c m = (c\<lparr>cn_out := cn_out c @ [m]\<rparr>, True)"
  by (simp add: conn_send_def)

lemma send_all_out:
  "\<not> cn_closed c \<Longrightarrow> \<forall>m\<in>set ms. sendable (ce_marshal env) m \<Longrightarrow>
   send_all env c ms = (c\<lparr>cn_out := cn_out c @ ms\<rparr>, True)"
  by (induction ms arbitrary: c) (simp_all add: send_out)

lemma output_frames_fit:
  "m \<in> set (output_frames sid sq data) \<Longrightarrow> length (server_payload m) \<le> outputChunkBytes"
proof (induction sid sq data rule: output_frames.induct)
  case (1 sid sq data)
  then show ?case
    by (subst (asm) (2) output_frames.simps) (auto simp: server_payload_def split: if_splits)
qed

section \<open>A well-formed stream of frames\<close>

text \<open>
  \<open>stream_ok sid h pos gap ms\<close> reads frames against the history \<open>h\<close>: each OUTPUT carries the
  bytes of \<open>h\<close> at its sequence number, which is where the last one ended, or later when a gap
  was announced. The result is the position reached, and whether a gap is pending.
\<close>

fun stream_ok :: "string \<Rightarrow> byte list \<Rightarrow> nat \<Rightarrow> bool \<Rightarrow> server_msg list \<Rightarrow> (nat \<times> bool) option" where
  "stream_ok sid h pos gap [] = Some (pos, gap)"
| "stream_ok sid h pos gap (m # ms) =
     (case m of
        SOutput oh p \<Rightarrow>
          (let n = unat (oh_seq oh)
           in if oh_session_id oh = sid \<and> p \<noteq> [] \<and> (n = pos \<or> gap \<and> pos < n) \<and> take (length p) (drop n h) = p
              then stream_ok sid h (n + length p) False ms else None)
      | SError e \<Rightarrow> if em_code e = RingGone then stream_ok sid h pos True ms else None
      | _ \<Rightarrow> None)"

lemma stream_ok_append:
  "stream_ok sid h pos gap (xs @ ys) =
     Option.bind (stream_ok sid h pos gap xs) (\<lambda>(q, g). stream_ok sid h q g ys)"
proof (induction sid h pos gap xs rule: stream_ok.induct)
  case (2 sid h pos gap m ms)
  then show ?case by (cases m) (auto simp: Let_def split: if_splits)
qed simp

lemma stream_ok_later:
  "stream_ok sid h pos gap ms = Some r \<Longrightarrow> stream_ok sid (h @ p) pos gap ms = Some r"
proof (induction sid h pos gap ms rule: stream_ok.induct)
  case (2 sid h pos gap m ms)
  have "take (length q) (drop n (h @ p)) = q" if "take (length q) (drop n h) = q" "q \<noteq> []" for q n
  proof -
    have "n + length q \<le> length h" using arg_cong[OF that(1), of length] that(2) by (cases "length h \<le> n") auto
    then show ?thesis using that by simp
  qed
  with 2 show ?case by (auto simp: Let_def split: server_msg.splits if_splits)
qed simp

lemma stream_ok_output:
  assumes "data \<noteq> []" "unat sq = n" "take (length data) (drop n h) = data" "n + length data \<le> length h"
    and "length h < 2 ^ 64" "n = pos \<or> gap \<and> pos < n"
  shows "stream_ok sid h pos gap (output_frames sid sq data) = Some (n + length data, False)"
  using assms
proof (induction sid sq data arbitrary: n pos gap rule: output_frames.induct)
  case (1 sid sq data)
  let ?k = "min outputChunkBytes (length data)"
  let ?rest = "drop outputChunkBytes data"
  have k: "0 < ?k" "?k \<le> length data" "length (take outputChunkBytes data) = ?k"
    using "1.prems"(1) by (auto simp: outputChunkBytes_def)
  have head: "take ?k (drop n h) = take outputChunkBytes data"
    using "1.prems"(3) by (metis length_take min.commute take_take take_all_iff linorder_linear min_def)
  have sq: "unat (sq + of_nat ?k) = n + ?k"
    using "1.prems"(2,4,5) k by (subst unat_plus_if') (simp add: unat_u64)
  show ?case
  proof (cases "?rest = []")
    case True
    then have "?k = length data" by simp
    then show ?thesis
      using "1.prems"(1,2,3,6) True
      by (subst output_frames.simps) (simp add: output_frames.simps[of _ _ "[]"] Let_def)
  next
    case False
    have rest: "take (length ?rest) (drop (n + ?k) h) = ?rest"
    proof -
      have "?rest = drop ?k data" using False by (simp add: min_def)
      also have "\<dots> = drop ?k (take (length data) (drop n h))" using "1.prems"(3) by simp
      also have "\<dots> = take (length data - ?k) (drop ?k (drop n h))" by (simp add: drop_take)
      finally show ?thesis using False by (simp add: min_def add.commute)
    qed
    have "stream_ok sid h (n + ?k) False (output_frames sid (sq + of_nat ?k) ?rest) = Some (n + ?k + length ?rest, False)"
      using "1.prems"(1,4,5) False k
      by (intro "1.IH" sq rest) (auto simp: min_def)
    then show ?thesis
      using "1.prems"(1,2,6) k head False
      by (subst output_frames.simps) (simp add: Let_def min_def)
  qed
qed

section \<open>Turns of the pump between chunks of output\<close>

datatype pump_op = PumpChunk int "byte list" | PumpTurn

fun pump_step :: "os_write \<Rightarrow> conn_env \<Rightarrow> session \<times> conn \<times> attachment \<Rightarrow> pump_op \<Rightarrow> session \<times> conn \<times> attachment" where
  "pump_step osw env (s, c, att) (PumpChunk now p) = (fst (pump_chunk osw [] s now p), c, att)"
| "pump_step osw env (s, c, att) PumpTurn =
     (if tt_running att then (case pump_turn env s c att of (c', att') \<Rightarrow> (s, c', att')) else (s, c, att))"

definition pump_bytes :: "pump_op list \<Rightarrow> byte list" where
  "pump_bytes ops = concat (map (\<lambda>x. case x of PumpChunk _ p \<Rightarrow> p | PumpTurn \<Rightarrow> []) ops)"

text \<open>One turn of the pump of a running session.\<close>

lemma wait_running:
  "se_state s = StateRunning \<Longrightarrow>
   (case wait_output s b x of None \<Rightarrow> A | Some (l, ex) \<Rightarrow> if ex \<and> l = y then B else A) = A"
  by (simp add: wait_output_def)

lemma pump_turn_ok:
  assumes rep: "ring_rep (se_ring s) h" and seen: "unat (tt_last_seen att) \<le> length h"
    and run: "se_state s = StateRunning" and open_: "\<not> cn_closed c" "small_headers (ce_marshal env)"
    and gap: "tt_last_seen att = 0 \<longrightarrow> gap"
    and turn: "pump_turn env s c att = (c', att')"
  shows "\<exists>ms g. cn_out c' = cn_out c @ ms \<and> \<not> cn_closed c' \<and> tt_running att' = tt_running att \<and>
    stream_ok (se_id s) h (unat (tt_last_seen att)) gap ms = Some (unat (tt_last_seen att'), g) \<and>
    unat (tt_last_seen att') \<le> length h \<and> (tt_last_seen att' = 0 \<longrightarrow> g) \<and>
    (0 < ring_len (se_ring s) \<longrightarrow> unat (tt_last_seen att') = length h)"
proof -
  let ?seen = "tt_last_seen att"
  obtain data fr tr where r: "session_replay_from s ?seen = (data, fr, tr)" by (cases "session_replay_from s ?seen") auto
  then have r': "ring_replay_from (se_ring s) ?seen = (data, fr, tr)" by (simp add: session_replay_from_def)
  note ends = ring_store.replay_end[OF rep r' seen] and suf = ring_store.replay_suffix[OF rep r']
    and tr = ring_store.replay_truncated_iff[OF rep r' seen]
  have len: "length h < 2 ^ 64" using rep by (simp add: ring_rep_def)
  let ?err = "if tr \<and> 0 < ?seen then [SError \<lparr>em_req_id = [], em_code = RingGone\<rparr>] else []"
  let ?outs = "output_frames (se_id s) fr data"
  let ?new = "if data \<noteq> [] then fr + of_nat (length data) else ?seen"
  have fits: "sendable (ce_marshal env) m" if "m \<in> set (?err @ ?outs)" for m
    using that output_frames_fit by (intro output_fits[OF open_(2)]) (auto simp: server_payload_def split: if_splits)
  define c1 where "c1 = c\<lparr>cn_out := cn_out c @ ?err\<rparr>"
  have c1: "(if tr \<and> 0 < ?seen then send_err env c [] (Coded RingGone) else c) = c1"
    using fits open_(1) by (simp add: send_err_def send_out error_code_def c1_def)
  have all: "send_all env c1 ?outs = (c1\<lparr>cn_out := cn_out c1 @ ?outs\<rparr>, True)"
    using fits open_(1) by (intro send_all_out) (auto simp: c1_def)
  have turn': "c' = c1\<lparr>cn_out := cn_out c1 @ ?outs\<rparr>" "att' = att\<lparr>tt_last_seen := ?new\<rparr>"
    using turn unfolding pump_turn_def r prod.case Let_def c1 all not_True_eq_False if_False wait_running[OF run]
    by simp_all
  have out: "cn_out c' = cn_out c @ (?err @ ?outs)" "\<not> cn_closed c'"
    using open_(1) by (simp_all add: turn'(1) c1_def)
  show ?thesis
  proof (cases "data = []")
    case True
    then have outs: "?outs = []" by (simp add: output_frames.simps)
    have new: "tt_last_seen att' = ?seen" by (simp add: turn'(2) True)
    have full: "unat ?seen = length h" if "0 < ring_len (se_ring s)"
      using ring_store.replay_empty_iff[OF rep r' seen that] True by simp
    show ?thesis
      using out seen gap full unfolding outs new
      by (intro exI[of _ ?err] exI[of _ "gap \<or> ?err \<noteq> []"]) (auto simp: turn'(2))
  next
    case False
    have new: "unat (tt_last_seen att') = length h"
      using ends(1) len False by (simp add: turn'(2)) (subst unat_plus_if', auto)
    then have pos: "tt_last_seen att' \<noteq> 0" using ends(1) False by auto
    have take: "take (length data) (drop (unat fr) h) = data" using suf by simp
    have "stream_ok (se_id s) h (unat ?seen) (gap \<or> ?err \<noteq> []) ?outs = Some (unat fr + length data, False)"
      using ends tr gap by (intro stream_ok_output[OF False refl take _ len]) (auto simp: word_less_nat_alt word_unat_eq_iff)
    then have "stream_ok (se_id s) h (unat ?seen) gap (?err @ ?outs) = Some (unat fr + length data, False)"
      by (auto split: if_splits)
    then show ?thesis
      using out new pos ends(1) by (intro exI[of _ "?err @ ?outs"] exI[of _ False]) (auto simp: turn'(2))
  qed
qed


text \<open>The end of a session reaches every subscriber: the first turn after the exit sends all
  the bytes that are missing and still retained, then EXIT with the exit code and signal as the
  last frame, and the pump ends.\<close>

theorem pump_drains_and_exits:
  assumes "ring_rep (se_ring s) h" "unat (tt_last_seen att) \<le> length h" "se_state s = StateExited"
    and "0 < ring_len (se_ring s) \<or> h = []" "\<not> cn_closed c" "small_headers (ce_marshal env)"
    and "pump_turn env s c att = (c', att')"
  shows "\<exists>announce. cn_out c' = cn_out c @ announce @
      output_frames (se_id s) (fst (snd (session_replay_from s (tt_last_seen att))))
        (drop (max (unat (tt_last_seen att)) (length h - ring_len (se_ring s))) h) @
      [SExit \<lparr>ex_session_id = se_id s, ex_exit_code = se_exit_code s, ex_signal = se_exit_sig s\<rparr>] \<and>
    set announce \<subseteq> {SError \<lparr>em_req_id = [], em_code = RingGone\<rparr>} \<and> \<not> tt_running att'"
proof -
  let ?seen = "tt_last_seen att"
  obtain data fr tr where r: "session_replay_from s ?seen = (data, fr, tr)" by (cases "session_replay_from s ?seen") auto
  then have r': "ring_replay_from (se_ring s) ?seen = (data, fr, tr)" by (simp add: session_replay_from_def)
  note ends = ring_store.replay_end[OF assms(1) r' assms(2)]
  have len: "length h < 2 ^ 64" using assms(1) by (simp add: ring_rep_def)
  have data: "data = drop (max (unat ?seen) (length h - ring_len (se_ring s))) h"
    using ring_store.replay_data(1)[OF assms(1) r'] assms(2) by auto
  let ?err = "if tr \<and> 0 < ?seen then [SError \<lparr>em_req_id = [], em_code = RingGone\<rparr>] else []"
  let ?outs = "output_frames (se_id s) fr data"
  let ?exit = "SExit \<lparr>ex_session_id = se_id s, ex_exit_code = se_exit_code s, ex_signal = se_exit_sig s\<rparr>"
  let ?new = "if data \<noteq> [] then fr + of_nat (length data) else ?seen"
  have fits: "sendable (ce_marshal env) m" if "m \<in> set (?err @ ?outs) \<or> m = ?exit" for m
    using that output_frames_fit by (intro output_fits[OF assms(6)]) (auto simp: server_payload_def split: if_splits)
  define c1 where "c1 = c\<lparr>cn_out := cn_out c @ ?err\<rparr>"
  have c1: "(if tr \<and> 0 < ?seen then send_err env c [] (Coded RingGone) else c) = c1"
    using fits assms(5) by (simp add: send_err_def send_out error_code_def c1_def)
  define c2 where "c2 = c1\<lparr>cn_out := cn_out c1 @ ?outs\<rparr>"
  have open2: "\<not> cn_closed c1" "\<not> cn_closed c2" using assms(5) by (simp_all add: c1_def c2_def)
  have all: "send_all env c1 ?outs = (c2, True)"
    unfolding c2_def using fits open2(1) by (intro send_all_out) auto
  have new: "?new = session_last_seq s"
  proof (cases "data = []")
    case False
    then have "unat ?new = length h" using ends(1) len by simp (subst unat_plus_if', auto)
    then show ?thesis using ring_rep_last[OF assms(1)] len by (simp add: session_last_seq_def word_unat_eq_iff)
  next
    case True
    then have "unat ?seen = length h"
      using ring_store.replay_empty_iff[OF assms(1) r' assms(2)] assms(2,4) by auto
    then show ?thesis using True ring_rep_last[OF assms(1)] len by (simp add: session_last_seq_def word_unat_eq_iff)
  qed
  have w: "wait_output s False (session_last_seq s) = Some (session_last_seq s, True)" using assms(3) by (simp add: wait_output_def)
  have "conn_send env c2 ?exit = (c2\<lparr>cn_out := cn_out c2 @ [?exit]\<rparr>, True)"
    using fits open2(2) by (intro send_out) auto
  then have "c' = c2\<lparr>cn_out := cn_out c2 @ [?exit]\<rparr>" "\<not> tt_running att'"
    using assms(7) unfolding pump_turn_def r prod.case Let_def c1 all not_True_eq_False if_False w option.case new
    by auto
  then show ?thesis
    by (intro exI[of _ ?err]) (auto simp: c2_def c1_def r data[symmetric])
qed

text \<open>A request from beyond the end spins: the sequence number is not checked, and once such a
  session has exited, a turn of its pump neither sends anything, nor waits, nor ends, so the
  pump runs in a tight loop for as long as the client stays attached.\<close>

theorem pump_spins:
  assumes "ring_rep (se_ring s) h" "length h < unat (tt_last_seen att)" "se_state s = StateExited"
  shows "pump_turn env s c att = (c, att) \<and> wait_output s False (tt_last_seen att) \<noteq> None"
proof -
  have len: "length h < 2 ^ 64" using assms(1) by (simp add: ring_rep_def)
  have "unat (session_last_seq s) = length h"
    by (simp only: session_last_seq_def ring_rep_last[OF assms(1)] unat_u64[OF len])
  then have ne: "session_last_seq s \<noteq> tt_last_seen att" using assms(2) by auto
  have "session_replay_from s (tt_last_seen att) = ([], tt_last_seen att, False)"
    using assms(2) by (simp add: session_replay_from_def ring_rep_replay[OF assms(1)] replay_spec_def)
  then show ?thesis
    using assms(3) ne by (simp add: pump_turn_def output_frames.simps[of _ _ "[]"] wait_output_def)
qed

section \<open>A concrete subscriber\<close>

definition demo_marshal :: "server_msg \<Rightarrow> byte list option" where
  "demo_marshal m = Some []"

definition demo_conn_env :: conn_env where
  "demo_conn_env = \<lparr>ce_marshal = demo_marshal, ce_uv = uuid_version, ce_spawn = demo_spawn_env,
     ce_minted = None, ce_watch_id = ''w'', ce_pty_ok = True, ce_setsize_ok = True,
     ce_kill = (\<lambda>p n. None), ce_live = (\<lambda>s. (None, None)), ce_compiles = (\<lambda>p. True), ce_now_ms = 0,
     ce_fadd = (\<lambda>a b. None)\<rparr>"

lemma demo_small: "small_headers (ce_marshal demo_conn_env)"
  by (simp add: small_headers_def demo_conn_env_def demo_marshal_def)

definition demo_attachment :: "u64 \<Rightarrow> attachment" where
  "demo_attachment since = \<lparr>tt_ref = 0, tt_read_only = False, tt_last_seen = since, tt_running = True\<rparr>"

lemma demo_ring: "ring_rep (se_ring demo_session) []"
  using ring_rep_new[of 4] by (simp add: new_ring_def demo_session_def new_session_def)

lemma demo_ring_ABC:
  "ring_rep (ring_write (se_ring demo_session) [1, 2, 3]) [1, 2, 3]"
  "ring_len (ring_write (se_ring demo_session) [1, 2, 3]) = 3"
  using ring_rep_write[OF demo_ring, of "[1, 2, 3]"]
  by (simp_all add: ring_len_def ring_write_def demo_session_def new_session_def Let_def)


definition demo_exited :: session where
  "demo_exited = demo_session\<lparr>se_ring := ring_write (se_ring demo_session) [1, 2, 3], se_state := StateExited, se_exit_code := 7\<rparr>"

theorem pump_drains_and_exits_witness:
  "\<exists>c' :: conn. last (cn_out c') = SExit \<lparr>ex_session_id = ''s'', ex_exit_code = 7, ex_signal = []\<rparr>"
proof -
  obtain c' att' where t: "pump_turn demo_conn_env demo_exited (new_conn ''cli'' False) (demo_attachment 1) = (c', att')"
    by fastforce
  have rep: "ring_rep (se_ring demo_exited) [1, 2, 3]" and len: "0 < ring_len (se_ring demo_exited)"
    using demo_ring_ABC by (simp_all add: demo_exited_def)
  have "se_id demo_exited = ''s''" "se_state demo_exited = StateExited" "se_exit_code demo_exited = 7" "se_exit_sig demo_exited = []"
    by (simp_all add: demo_exited_def demo_session_def new_session_def)
  with pump_drains_and_exits[OF rep _ _ _ _ demo_small t] len show ?thesis
    by (intro exI[of _ c']) (auto simp: demo_attachment_def new_conn_def)
qed

theorem pump_spins_witness:
  "pump_turn demo_conn_env demo_exited (new_conn ''cli'' False) (demo_attachment 4) =
     (new_conn ''cli'' False, demo_attachment 4)"
proof -
  have rep: "ring_rep (se_ring demo_exited) [1, 2, 3]" "se_state demo_exited = StateExited"
    using demo_ring_ABC by (simp_all add: demo_exited_def)
  then show ?thesis using pump_spins[OF rep(1) _ rep(2), of "demo_attachment 4"] by (simp add: demo_attachment_def)
qed

end
