(* ===== verification/Replies.thy ===== *)
theory Replies
  imports Pump
begin

text \<open>
  The replies of the read-only requests: the window of the last command, and what happens to a
  reply that does not fit into a frame.
\<close>

section \<open>The last command's output\<close>

lemma replay_window:
  assumes "ring_rep (se_ring s) h" "last_command (se_mon s) = (st, en, True)" "unat st \<le> unat en" "unat en \<le> length h"
    and "command_window_of s = Some (fr, en', tr, data)"
  shows "(let oldest = length h - ring_len (se_ring s)
    in en' = en \<and> (tr \<longleftrightarrow> unat st < oldest) \<and> unat fr = max (unat st) oldest \<and>
      data = (if oldest \<le> unat en then take (unat en - unat fr) (drop (unat fr) h) else drop oldest h))"
proof -
  let ?old = "length h - ring_len (se_ring s)"
  have len: "length h < 2 ^ 64" using assms(1) by (simp add: ring_rep_def)
  obtain d f t where r: "session_replay_from s st = (d, f, t)" by (cases "session_replay_from s st") auto
  then have r': "ring_replay_from (se_ring s) st = (d, f, t)" by (simp add: session_replay_from_def)
  have st: "unat st \<le> length h" using assms(3,4) by simp
  note rd = ring_store.replay_data[OF assms(1) r'] and ends = ring_store.replay_end[OF assms(1) r' st]
    and suf = ring_store.replay_suffix[OF assms(1) r']
  have f: "unat f = max (unat st) ?old"
    using rd(2) st ring_rep_bounds[OF assms(1)] by (auto simp: max_def split: if_splits)
  have "unat (f + of_nat (length d)) = length h"
    using ends(1) len by (subst unat_plus_if') auto
  then have stop: "(if f + of_nat (length d) < en then f + of_nat (length d) else en) = en"
    using assms(4) by (simp add: word_less_nat_alt)
  have w: "fr = f" "en' = en" "tr = t"
      "data = (if en - f < of_nat (length d) then take (unat (en - f)) d else d)"
    using assms(5) unfolding command_window_of_def assms(2) prod.case r Let_def stop by auto
  have ld: "unat (of_nat (length d) :: u64) = length d" using ends(1) len by (intro unat_u64) simp
  have "data = (if ?old \<le> unat en then take (unat en - unat f) (drop (unat f) h) else drop ?old h)"
  proof (cases "?old \<le> unat en")
    case True
    then have le: "unat f \<le> unat en" using f assms(3) by simp
    then have "unat (en - f) = unat en - unat f" by (simp add: unat_sub word_le_nat_alt)
    then show ?thesis using w(4) ld True suf by (auto simp: word_less_nat_alt)
  next
    case False
    then have f': "unat f = ?old" "unat en < unat f" using f assms(3) by auto
    have "unat (en - f) = 2 ^ 64 + unat en - unat f"
      using f'(2) by (subst unat_sub_if') (simp add: word_le_nat_alt)
    then have "\<not> en - f < of_nat (length d)"
      using ends(1) ld len f'(2) by (simp add: word_less_nat_alt)
    then show ?thesis using w(4) False suf f'(1) by simp
  qed
  then show ?thesis using w rd(3) f by (simp add: Let_def)
qed

text \<open>REPLAY_COMMAND answers with the part of the last command's output that the ring still
  holds, at its true position and marked as truncated when the beginning is gone. But when
  the whole command fell out of the ring, the unsigned clamp underflows and the answer is the
  entire ring, output of other commands, with a start beyond its end.\<close>

theorem replay_command_window:
  assumes "ring_rep (se_ring s) h" "last_command (se_mon s) = (st, en, True)" "unat st \<le> unat en" "unat en \<le> length h"
    and "command_window_of s = Some (fr, en', tr, data)"
  shows "(let oldest = length h - ring_len (se_ring s)
    in en' = en \<and> (tr \<longleftrightarrow> unat st < oldest) \<and> unat fr = max (unat st) oldest \<and>
      data = (if oldest \<le> unat en then take (unat en - unat fr) (drop (unat fr) h) else drop oldest h))"
  using assms by (rule replay_window)

lemma command_window_total:
  assumes "last_command (se_mon s) = (st, en, True)"
  obtains fr en' tr data where "command_window_of s = Some (fr, en', tr, data)"
  using assms that unfolding command_window_of_def
  by (cases "session_replay_from s st") (simp add: Let_def del: if_split)

section \<open>Replies that do not fit\<close>

lemma unsendable_header: "marshal m = Some hdr \<Longrightarrow> MaxHeaderLen < length hdr \<Longrightarrow> \<not> sendable marshal m"
  by (simp add: sendable_def new_frame_def)

lemma unsendable_payload: "MaxFrameLen < length (server_payload m) \<Longrightarrow> \<not> sendable marshal m"
  by (auto simp: sendable_def new_frame_def append_wire_def wire_len_def Let_def split: option.splits)

text \<open>What is relied on of \<open>json.Marshal\<close>: the raw documents inside a reply are part of its text.\<close>

definition marshals_docs :: "(server_msg \<Rightarrow> byte list option) \<Rightarrow> bool" where
  "marshals_docs marshal \<longleftrightarrow>
     (\<forall>lo hdr si. marshal (SListOK lo) = Some hdr \<longrightarrow> si \<in> set (lo_sessions lo) \<longrightarrow> length (si_annotations si) < length hdr) \<and>
     (\<forall>io hdr. marshal (SInfoOK io) = Some hdr \<longrightarrow> length (si_annotations (io_session io)) < length hdr)"

text \<open>The size limits do not fit together: a metadata document of the allowed 64 KiB makes the
  header of INFO_OK, and of LIST_OK for everybody, larger than a frame header can be; the
  encoder's error is ignored and the request is never answered.\<close>

theorem full_meta_blocks_list:
  assumes "p \<in> set (registry_list (sv_reg sv))" "trim_space (se_meta_doc (sv_session sv p)) \<noteq> []"
    and "length (se_meta_doc (sv_session sv p)) \<ge> MaxHeaderLen" "marshals_docs (ce_marshal env)"
  shows "on_list env sv c m = c \<and>
    (sv_lookup env sv (if_session_id i) = Inr p \<longrightarrow> on_info env sv c i = c)"
proof -
  have ann: "MaxHeaderLen \<le> length (si_annotations (info_at env sv p))"
    using assms(2,3) by (simp add: info_at_def session_info_of_def annotations_for_wire_def Let_def)
  have drop: "send env c x = c" if "\<not> sendable (ce_marshal env) x" for x using that by (simp add: conn_send_def)
  have none: "\<not> sendable (ce_marshal env) x" if "ce_marshal env x = None" for x
    using that by (simp add: sendable_def new_frame_def)
  have list: "\<not> sendable (ce_marshal env) (SListOK lo)" if "info_at env sv p \<in> set (lo_sessions lo)" for lo
  proof (cases "ce_marshal env (SListOK lo)")
    case (Some hdr)
    then have "length (si_annotations (info_at env sv p)) < length hdr" using assms(4) that by (simp add: marshals_docs_def)
    with ann Some show ?thesis by (intro unsendable_header) auto
  qed (rule none)
  have info: "\<not> sendable (ce_marshal env) (SInfoOK io)" if "io_session io = info_at env sv p" for io
  proof (cases "ce_marshal env (SInfoOK io)")
    case (Some hdr)
    then have "length (si_annotations (info_at env sv p)) < length hdr" using assms(4) that by (metis marshals_docs_def)
    with ann Some show ?thesis by (intro unsendable_header) auto
  qed (rule none)
  show ?thesis
    using assms(1) by (auto simp: on_list_def on_info_def intro!: drop list info)
qed

text \<open>A command that wrote more than a frame can carry has no replay: the request is never
  answered, not even with an error.\<close>

theorem large_command_unanswered:
  assumes "sv_lookup env sv (rc_session_id m) = Inr p"
    and "command_window_of (sv_session sv p) = Some (fr, en, tr, data)" "MaxFrameLen < length data"
  shows "on_replay_command env sv c m = c"
  using assms unsendable_payload[of "SReplayCommandOK _ data" "ce_marshal env"]
  by (simp add: on_replay_command_def conn_send_def server_payload_def)

section \<open>Concrete replies\<close>

definition demo_marked :: session where
  "demo_marked = demo_session\<lparr>se_ring := ring_write (ring_write (se_ring demo_session) [1, 2, 3]) [4, 5, 6],
     se_mon := (se_mon demo_session)\<lparr>mo_last_cmd_start := 0, mo_last_cmd_end := 1\<rparr>\<rparr>"

lemma demo_marked_ring: "ring_rep (se_ring demo_marked) [1, 2, 3, 4, 5, 6]" "ring_len (se_ring demo_marked) = 4"
  using ring_rep_write[OF demo_ring_ABC(1), of "[4, 5, 6]"] demo_ring_ABC(2)
  by (simp_all add: demo_marked_def ring_len_def ring_write_def demo_session_def new_session_def Let_def)

theorem replay_command_window_witness:
  "\<exists>fr. command_window_of demo_marked = Some (fr, 1, True, [3, 4, 5, 6]) \<and> unat fr = 2"
proof -
  have mon: "last_command (se_mon demo_marked) = (0, 1, True)"
    by (simp add: last_command_def demo_marked_def)
  then obtain fr en tr data where c: "command_window_of demo_marked = Some (fr, en, tr, data)"
    by (rule command_window_total)
  from replay_command_window[OF demo_marked_ring(1) mon _ _ c] c demo_marked_ring(2) show ?thesis
    by (auto simp: Let_def)
qed

definition demo_full :: server where
  "demo_full = \<lparr>sv_reg = set_session demo_registry 0 ((session_at demo_registry 0)\<lparr>se_meta_doc := replicate 65536 CHR ''x''\<rparr>),
     sv_bus = new_event_bus, sv_version = [], sv_ws_tokens = \<lparr>tk_control = ''a'', tk_read_only = ''b''\<rparr>,
     sv_kills = [], sv_handovers = []\<rparr>"

definition docs_marshal :: "server_msg \<Rightarrow> byte list option" where
  "docs_marshal m = (case m of
      SListOK lo \<Rightarrow> Some (replicate (Suc (sum_list (map (\<lambda>i. length (si_annotations i)) (lo_sessions lo)))) 0)
    | SInfoOK io \<Rightarrow> Some (replicate (Suc (length (si_annotations (io_session io)))) 0)
    | _ \<Rightarrow> Some [])"

lemma docs_marshal_docs: "marshals_docs docs_marshal"
proof -
  have "length (si_annotations i) < Suc (sum_list (map (\<lambda>i. length (si_annotations i)) xs))" if "i \<in> set xs" for i :: session_info and xs
    using that by (induction xs) auto
  then show ?thesis by (simp add: marshals_docs_def docs_marshal_def)
qed

lemma trim_space_nonblank: "space_width (c # s) = 0 \<Longrightarrow> trim_space (c # s) \<noteq> []"
  by (simp add: trim_space_def trim_left_id)

theorem full_meta_blocks_list_witness:
  "on_list (demo_conn_env\<lparr>ce_marshal := docs_marshal\<rparr>) demo_full (new_conn ''cli'' False) \<lparr>li_req_id = ''1''\<rparr> =
     new_conn ''cli'' False"
proof -
  let ?env = "demo_conn_env\<lparr>ce_marshal := docs_marshal\<rparr>"
  have doc: "se_meta_doc (sv_session demo_full 0) = CHR ''x'' # replicate 65535 CHR ''x''"
    using replicate_Suc[of 65535 "CHR ''x''"] by (simp add: demo_full_def demo_registry_def)
  have "space_width (CHR ''x'' # replicate 65535 CHR ''x'') = 0"
    by (auto simp: space_width_def space1_def space2_def space3_def Let_def split: list.split)
  then have trim: "trim_space (se_meta_doc (sv_session demo_full 0)) \<noteq> []" unfolding doc by (rule trim_space_nonblank)
  have len: "MaxHeaderLen \<le> length (se_meta_doc (sv_session demo_full 0))" unfolding doc by (simp add: MaxHeaderLen_def)
  have "0 \<in> set (registry_list (sv_reg demo_full))"
    by (simp add: demo_full_def demo_registry_def registry_list_def List.map_filter_def)
  from full_meta_blocks_list[OF this trim len, of ?env] docs_marshal_docs show ?thesis by simp
qed

definition demo_big :: server where
  "demo_big = demo_full\<lparr>sv_reg := set_session demo_registry 0 ((session_at demo_registry 0)\<lparr>
     se_ring := \<lparr>r_buf = replicate (Suc MaxFrameLen) 0, r_end = of_nat (Suc MaxFrameLen), r_filled = Suc MaxFrameLen, r_next = 0\<rparr>,
     se_mon := (se_mon (session_at demo_registry 0))\<lparr>mo_last_cmd_start := 0, mo_last_cmd_end := of_nat (Suc MaxFrameLen)\<rparr>\<rparr>)\<rparr>"

theorem large_command_unanswered_witness:
  "on_replay_command demo_conn_env demo_big (new_conn ''cli'' False) \<lparr>rc_req_id = ''1'', rc_session_id = demo_id\<rparr> =
     new_conn ''cli'' False"
proof -
  let ?n = "Suc MaxFrameLen" and ?s = "sv_session demo_big 0"
  have n: "?n < 2 ^ 64" by (simp add: MaxFrameLen_def)
  have rep: "ring_rep (se_ring ?s) (replicate ?n 0)" and kept: "ring_len (se_ring ?s) = ?n"
    using n by (simp_all add: demo_big_def demo_registry_def ring_rep_def ring_len_def del: replicate_Suc of_nat_Suc)
  have mon: "last_command (se_mon ?s) = (0, of_nat ?n, True)"
    using n by (simp add: last_command_def demo_big_def demo_registry_def word_unat_eq_iff del: of_nat_Suc)
  have u: "unat (of_nat ?n :: u64) = ?n" using n by (rule unat_u64)
  obtain fr en tr data where c: "command_window_of ?s = Some (fr, en, tr, data)"
    using mon by (rule command_window_total)
  have lookup: "sv_lookup demo_conn_env demo_big demo_id = Inr 0"
  proof -
    have "ids_validate uuid_version demo_id PrefixSession"
      using new_id_valid[OF demo_uuid7 uuid_version_reads demo_new_id] by simp
    then show ?thesis
      by (simp add: sv_lookup_def registry_lookup_def find_session_def demo_big_def demo_registry_def demo_conn_env_def mget_def)
  qed
  have "data = replicate ?n 0"
    using replay_window[OF rep mon _ _ c] kept by (simp only: u Let_def) simp
  then have "MaxFrameLen < length data" by (simp only: length_replicate lessI)
  from large_command_unanswered[OF _ c this, of demo_conn_env "\<lparr>rc_req_id = ''1'', rc_session_id = demo_id\<rparr>"] lookup
  show ?thesis by simp
qed

end
