(* ===== verification/Access.thy ===== *)
theory Access
  imports Replies
begin

text \<open>
  Who may do what: the handshake gate, the read-only scope, and what a connection leaves
  behind when it ends.
\<close>

section \<open>The decode loop\<close>

text \<open>Frames of one connection, until one ends it. \<open>env k\<close> surrounds the \<open>k\<close>th frame.\<close>

fun serve_frames :: "(nat \<Rightarrow> conn_env) \<Rightarrow> server \<Rightarrow> conn \<Rightarrow> inbound list \<Rightarrow> server \<times> conn \<times> bool" where
  "serve_frames env sv c [] = (sv, c, True)"
| "serve_frames env sv c (f # fs) =
     (case handle_frame (env 0) sv c f of
        (sv', c', go) \<Rightarrow> if go then serve_frames (\<lambda>k. env (Suc k)) sv' c' fs else (sv', c', False))"

lemma send_err_frame [simp]:
  "cn_hello_done (send_err env c i e) = cn_hello_done c" "cn_scope (send_err env c i e) = cn_scope c"
  "cn_attachments (send_err env c i e) = cn_attachments c" "cn_needs_token (send_err env c i e) = cn_needs_token c"
  "cn_client_id (send_err env c i e) = cn_client_id c" "cn_watches (send_err env c i e) = cn_watches c"
  "cn_event_sub (send_err env c i e) = cn_event_sub c" "cn_closed (send_err env c i e) = cn_closed c"
  by (simp_all add: send_err_def conn_send_def)

lemma send_frame [simp]:
  "cn_hello_done (send env c m) = cn_hello_done c" "cn_scope (send env c m) = cn_scope c"
  "cn_attachments (send env c m) = cn_attachments c" "cn_needs_token (send env c m) = cn_needs_token c"
  "cn_client_id (send env c m) = cn_client_id c" "cn_watches (send env c m) = cn_watches c"
  "cn_event_sub (send env c m) = cn_event_sub c" "cn_closed (send env c m) = cn_closed c"
  by (simp_all add: conn_send_def)

lemma send_ok_frame [simp]:
  "cn_hello_done (send_ok env c i) = cn_hello_done c" "cn_scope (send_ok env c i) = cn_scope c"
  "cn_attachments (send_ok env c i) = cn_attachments c" "cn_needs_token (send_ok env c i) = cn_needs_token c"
  "cn_client_id (send_ok env c i) = cn_client_id c" "cn_watches (send_ok env c i) = cn_watches c"
  "cn_event_sub (send_ok env c i) = cn_event_sub c" "cn_closed (send_ok env c i) = cn_closed c"
  by (simp_all add: send_ok_def)

lemma send_err_out: "\<exists>ms. cn_out (send_err env c i e) = cn_out c @ ms \<and> (\<forall>m\<in>set ms. \<exists>x. m = SError x)"
  by (auto simp: send_err_def conn_send_def)

text \<open>A HELLO that the daemon does not accept on this connection.\<close>

definition bad_hello :: "server \<Rightarrow> conn \<Rightarrow> hello \<Rightarrow> bool" where
  "bad_hello sv c m \<longleftrightarrow> he_protocol_version m \<noteq> ProtocolVersion \<or>
     cn_needs_token c \<and> scope_for (sv_ws_tokens sv) (he_token m) = None"

text \<open>C16. Before a good HELLO a peer can do nothing: whatever it sends, without the protocol version
  and, over WebSocket, a valid token, its first frame ends the connection, the server is
  unchanged and it is sent nothing but errors.\<close>

theorem unauthenticated_powerless:
  assumes "\<not> cn_hello_done c" "\<forall>m. InMsg (CHello m) \<in> set fs \<longrightarrow> bad_hello sv c m"
    and "\<forall>t. InOther t \<in> set fs \<longrightarrow> t \<noteq> TypeHello" "serve_frames env sv c fs = (sv', c', go)"
  shows "sv' = sv \<and> (go \<longleftrightarrow> fs = []) \<and> cn_attachments c' = cn_attachments c \<and>
    (\<exists>ms. cn_out c' = cn_out c @ ms \<and> (\<forall>m\<in>set ms. \<exists>x. m = SError x))"
proof (cases fs)
  case (Cons f fs')
  have "\<exists>i e. handle_frame (env 0) sv c f = (sv, send_err (env 0) c i e, False)"
  proof (cases "inbound_type f = TypeHello")
    case True
    consider (good) m where "f = InMsg (CHello m)" | (bad) i where "f = InBad TypeHello i"
      using True assms(3) by (cases f; (rename_tac x, case_tac x)?)
        (auto simp: inbound_type_def client_type_def Cons)
    then show ?thesis
    proof cases
      case good
      then have "bad_hello sv c m" using assms(2) by (simp add: Cons)
      then show ?thesis using True
        by (auto simp: handle_frame_def dispatch_def good on_hello_def bad_hello_def control_only_types_def inbound_type_def client_type_def)
    next
      case bad
      then show ?thesis
        by (auto simp: handle_frame_def dispatch_def inbound_type_def control_only_types_def)
    qed
  next
    case False
    then show ?thesis using assms(1) by (auto simp: handle_frame_def)
  qed
  then obtain i e where "handle_frame (env 0) sv c f = (sv, send_err (env 0) c i e, False)" by blast
  then have "sv' = sv" "c' = send_err (env 0) c i e" "\<not> go" using assms(4) by (auto simp: Cons)
  then show ?thesis using send_err_out[of "env 0" c i e] by (simp add: Cons)
qed (use assms in simp)

theorem unauthenticated_powerless_witness:
  "fst (serve_frames (\<lambda>k. demo_conn_env) demo_full (new_conn ''cli'' True)
     [InMsg (CHello \<lparr>he_req_id = [], he_protocol_version = 1, he_token = ''x'', he_client_name = []\<rparr>),
      InMsg (CKill \<lparr>ki_req_id = [], ki_session_id = demo_id, ki_signal = []\<rparr>)]) = demo_full"
proof -
  let ?fs = "[InMsg (CHello \<lparr>he_req_id = [], he_protocol_version = 1, he_token = ''x'', he_client_name = []\<rparr>),
      InMsg (CKill \<lparr>ki_req_id = [], ki_session_id = demo_id, ki_signal = []\<rparr>)]"
  obtain sv' c' go where r: "serve_frames (\<lambda>k. demo_conn_env) demo_full (new_conn ''cli'' True) ?fs = (sv', c', go)"
    by (metis prod_cases3)
  from unauthenticated_powerless[OF _ _ _ r] show ?thesis unfolding r
    by (simp add: new_conn_def bad_hello_def scope_for_def demo_full_def)
qed

section \<open>The read-only scope\<close>

text \<open>What a read-only connection may change of a server: subscriber counts, the events and their
  subscriptions, and, through its detach, signals to sessions that do not linger.\<close>

definition only_watched :: "server \<Rightarrow> server \<Rightarrow> bool" where
  "only_watched sv sv' \<longleftrightarrow>
     (\<exists>hp. sv_reg sv' = (sv_reg sv)\<lparr>rg_heap := hp\<rparr> \<and>
        map (se_subscribers_update (\<lambda>_. 0)) hp = map (se_subscribers_update (\<lambda>_. 0)) (rg_heap (sv_reg sv))) \<and>
     sv_handovers sv' = sv_handovers sv \<and> sv_ws_tokens sv' = sv_ws_tokens sv \<and>
     (\<exists>ks. sv_kills sv' = sv_kills sv @ ks \<and>
        list_all (\<lambda>(pid, sig). sig = 15 \<and> (\<exists>s\<in>set (rg_heap (sv_reg sv)). \<not> sc_linger (se_cfg s) \<and> abs pid = abs (se_pid s))) ks)"

lemma only_watched_refl [simp]: "only_watched sv sv"
  unfolding only_watched_def by (intro conjI exI[of _ "rg_heap (sv_reg sv)"] exI[of _ "[]"]) simp_all

lemma same_but_subs:
  "map (se_subscribers_update (\<lambda>_. 0)) hp = map (se_subscribers_update (\<lambda>_. 0)) hp' \<Longrightarrow> s \<in> set hp \<Longrightarrow>
   \<exists>s'\<in>set hp'. se_cfg s' = se_cfg s \<and> se_pid s' = se_pid s"
proof -
  assume a: "map (se_subscribers_update (\<lambda>_. 0)) hp = map (se_subscribers_update (\<lambda>_. 0)) hp'" and s: "s \<in> set hp"
  from s have "s\<lparr>se_subscribers := 0\<rparr> \<in> se_subscribers_update (\<lambda>_. 0) ` set hp" by simp
  also have "\<dots> = se_subscribers_update (\<lambda>_. 0) ` set hp'" using arg_cong[OF a, of set] by simp
  finally obtain s' where "s' \<in> set hp'" "s\<lparr>se_subscribers := 0\<rparr> = s'\<lparr>se_subscribers := 0\<rparr>" by auto
  then show ?thesis
    by (metis session.select_convs(5,10) session.surjective session.update_convs(4))
qed

lemma only_watched_trans:
  assumes "only_watched sv1 sv2" "only_watched sv2 sv3"
  shows "only_watched sv1 sv3"
proof -
  obtain h2 k2 where 2: "sv_reg sv2 = (sv_reg sv1)\<lparr>rg_heap := h2\<rparr>"
      "map (se_subscribers_update (\<lambda>_. 0)) h2 = map (se_subscribers_update (\<lambda>_. 0)) (rg_heap (sv_reg sv1))"
      "sv_kills sv2 = sv_kills sv1 @ k2"
      "list_all (\<lambda>(pid, sig). sig = 15 \<and> (\<exists>s\<in>set (rg_heap (sv_reg sv1)). \<not> sc_linger (se_cfg s) \<and> abs pid = abs (se_pid s))) k2"
    using assms(1) by (auto simp: only_watched_def)
  obtain h3 k3 where 3: "sv_reg sv3 = (sv_reg sv2)\<lparr>rg_heap := h3\<rparr>"
      "map (se_subscribers_update (\<lambda>_. 0)) h3 = map (se_subscribers_update (\<lambda>_. 0)) (rg_heap (sv_reg sv2))"
      "sv_kills sv3 = sv_kills sv2 @ k3"
      "list_all (\<lambda>(pid, sig). sig = 15 \<and> (\<exists>s\<in>set (rg_heap (sv_reg sv2)). \<not> sc_linger (se_cfg s) \<and> abs pid = abs (se_pid s))) k3"
    using assms(2) by (auto simp: only_watched_def)
  have "list_all (\<lambda>(pid, sig). sig = 15 \<and> (\<exists>s\<in>set (rg_heap (sv_reg sv1)). \<not> sc_linger (se_cfg s) \<and> abs pid = abs (se_pid s))) k3"
  proof (rule list.pred_mono_strong[OF 3(4)], clarify)
    fix pid :: int and s assume "s \<in> set (rg_heap (sv_reg sv2))" "\<not> sc_linger (se_cfg s)" "abs pid = abs (se_pid s)"
    moreover from this(1) obtain s' where "s' \<in> set (rg_heap (sv_reg sv1))" "se_cfg s' = se_cfg s" "se_pid s' = se_pid s"
      using same_but_subs[OF 2(2)] by (auto simp: 2(1))
    ultimately show "15 = (15 :: nat) \<and> (\<exists>s\<in>set (rg_heap (sv_reg sv1)). \<not> sc_linger (se_cfg s) \<and> abs pid = abs (se_pid s))"
      by (intro conjI bexI[of _ s']) simp_all
  qed
  then show ?thesis
    using assms 2 3 unfolding only_watched_def
    by (intro conjI exI[of _ h3] exI[of _ "k2 @ k3"]) simp_all
qed

lemma only_watched_bus [simp]: "only_watched sv (sv\<lparr>sv_bus := b\<rparr>)"
  unfolding only_watched_def by (intro conjI exI[of _ "rg_heap (sv_reg sv)"] exI[of _ "[]"]) simp_all

lemma only_watched_publish [simp]: "only_watched sv (publish env sv' evs) = only_watched sv sv'"
  by (simp add: only_watched_def publish_def)

lemma only_watched_subs:
  "only_watched sv (put_session sv p ((sv_session sv p)\<lparr>se_subscribers := n\<rparr>))"
proof -
  have "map (se_subscribers_update (\<lambda>_. 0)) ((rg_heap (sv_reg sv))[p := (sv_session sv p)\<lparr>se_subscribers := n\<rparr>]) =
      map (se_subscribers_update (\<lambda>_. 0)) (rg_heap (sv_reg sv))"
    by (cases "p < length (rg_heap (sv_reg sv))") (simp_all add: map_update list_update_beyond list_update_same_conv)
  then show ?thesis
    unfolding only_watched_def put_session_def
    by (intro conjI exI[of _ "(rg_heap (sv_reg sv))[p := (sv_session sv p)\<lparr>se_subscribers := n\<rparr>]"] exI[of _ "[]"]) simp_all
qed

lemma only_watched_kill:
  assumes "p < length (rg_heap (sv_reg sv))" "\<not> sc_linger (se_cfg (sv_session sv p))"
  shows "only_watched sv (fst (sv_kill env sv p SignalTERM))"
proof -
  obtain calls e where k: "session_kill (ce_kill env) (sv_session sv p) SignalTERM = (calls, e)" by fastforce
  have "\<forall>x\<in>set calls. snd x = 15 \<and> abs (fst x) = abs (se_pid (sv_session sv p))"
    using k by (auto simp: session_kill_def signal_number_def Let_def split: if_splits)
  moreover have "sv_session sv p \<in> set (rg_heap (sv_reg sv))" using assms(1) by simp
  ultimately have "list_all (\<lambda>(pid, sig). sig = 15 \<and> (\<exists>s\<in>set (rg_heap (sv_reg sv)). \<not> sc_linger (se_cfg s) \<and> abs pid = abs (se_pid s))) calls"
    using assms(2) by (force simp: list_all_iff)
  then show ?thesis
    unfolding only_watched_def
    by (intro conjI exI[of _ "rg_heap (sv_reg sv)"] exI[of _ calls]) (simp_all add: sv_kill_def k)
qed

lemma only_watched_nth:
  assumes "only_watched sv sv'"
  shows "length (rg_heap (sv_reg sv')) = length (rg_heap (sv_reg sv))"
    and "p < length (rg_heap (sv_reg sv)) \<Longrightarrow> (sv_session sv' p)\<lparr>se_subscribers := 0\<rparr> = (sv_session sv p)\<lparr>se_subscribers := 0\<rparr>"
proof -
  obtain hp where hp: "sv_reg sv' = (sv_reg sv)\<lparr>rg_heap := hp\<rparr>"
      "map (se_subscribers_update (\<lambda>_. 0)) hp = map (se_subscribers_update (\<lambda>_. 0)) (rg_heap (sv_reg sv))"
    using assms by (auto simp: only_watched_def)
  from arg_cong[OF hp(2), of length] show len: "length (rg_heap (sv_reg sv')) = length (rg_heap (sv_reg sv))"
    by (simp add: hp(1))
  show "(sv_session sv' p)\<lparr>se_subscribers := 0\<rparr> = (sv_session sv p)\<lparr>se_subscribers := 0\<rparr>"
    if "p < length (rg_heap (sv_reg sv))"
    using arg_cong[OF hp(2), of "\<lambda>xs. xs ! p"] that len by (simp add: hp(1))
qed

lemma same_id_name:
  "s\<lparr>se_subscribers := 0\<rparr> = t\<lparr>se_subscribers := 0\<rparr> \<Longrightarrow> se_id s = se_id t \<and> se_name s = se_name t"
  by (metis session.select_convs(1,6) session.surjective session.update_convs(4))

lemma only_watched_index:
  assumes "only_watched sv sv'" "index_inv (sv_reg sv) ps"
  shows "index_inv (sv_reg sv') ps"
proof -
  note D = index_invD[OF assms(2)] and n = only_watched_nth[OF assms(1)]
  obtain hp where hp: "sv_reg sv' = (sv_reg sv)\<lparr>rg_heap := hp\<rparr>" using assms(1) by (auto simp: only_watched_def)
  have ids: "rg_byID (sv_reg sv') = rg_byID (sv_reg sv)" "rg_byName (sv_reg sv') = rg_byName (sv_reg sv)" by (simp_all add: hp)
  have same: "se_id (sv_session sv' p) = se_id (sv_session sv p)" "se_name (sv_session sv' p) = se_name (sv_session sv p)"
    if "p < length (rg_heap (sv_reg sv))" for p using same_id_name[OF n(2)[OF that]] by auto
  show ?thesis
    unfolding index_inv_def ids n(1)
  proof (intro conjI allI impI)
    fix i p assume a: "mget (rg_byID (sv_reg sv)) i = Some (Some p)"
    show "p < length (rg_heap (sv_reg sv))" by (rule D(3)[OF a])
    show "se_id (sv_session sv' p) = i" using D(4)[OF a] same(1)[OF D(3)[OF a]] by simp
    show "mget (rg_byName (sv_reg sv)) (se_name (sv_session sv' p)) = Some (Some p)" if "se_name (sv_session sv' p) \<noteq> []"
      using that D(5)[OF a] unfolding same(2)[OF D(3)[OF a]] by blast
  next
    fix m p assume a: "mget (rg_byName (sv_reg sv)) m = Some (Some p)"
    note l = D(3)[OF D(8)[OF a]]
    show "m \<noteq> []" by (rule D(6)[OF a])
    show "se_name (sv_session sv' p) = m" unfolding same(2)[OF l] by (rule D(7)[OF a])
    show "mget (rg_byID (sv_reg sv)) (se_id (sv_session sv' p)) = Some (Some p)" unfolding same(1)[OF l] by (rule D(8)[OF a])
  next
    show "c = c'" if "(k, c) \<in> set ps" "(k, c') \<in> set ps" for k c c' using that by (rule D(11))
    show "k = l" if "(k, c) \<in> set ps" "(l, c') \<in> set ps" "sc_name c = sc_name c'" "sc_name c \<noteq> []" for k c l c'
      using that by (rule D(12))
  qed (rule D(1) D(2) D(9) D(10) D(13))+
qed

lemma lookup_bound:
  "index_inv (sv_reg sv) ps \<Longrightarrow> sv_lookup env sv x = Inr p \<Longrightarrow> p < length (rg_heap (sv_reg sv))"
  using find_session_byID[of "sv_reg sv" ps "ce_uv env" x p] index_invD(3)[of "sv_reg sv" ps]
  by (auto simp: sv_lookup_def registry_lookup_def split: option.splits)

lemma release_attachment_watched:
  assumes "index_inv (sv_reg sv) ps"
  shows "only_watched sv (release_attachment env sv c sid)"
proof (cases "sv_lookup env sv sid")
  case (Inr p)
  let ?s = "(sv_session sv p)\<lparr>se_subscribers := se_subscribers (sv_session sv p) - 1\<rparr>"
  let ?sv1 = "publish env (put_session sv p ?s) [(sid, EventDetached, [(DataKeyClient, cn_client_id c)])]"
  have len: "p < length (rg_heap (sv_reg sv))" using lookup_bound[OF assms Inr] .
  have sub: "only_watched sv ?sv1" using only_watched_subs by simp
  have p1: "p < length (rg_heap (sv_reg ?sv1))" "se_cfg (sv_session ?sv1 p) = se_cfg (sv_session sv p)"
    using len by (simp_all add: publish_def put_session_def)
  have kill: "only_watched sv (fst (sv_kill env ?sv1 p SignalTERM))" if "\<not> sc_linger (se_cfg ?s)"
    using that p1 by (intro only_watched_trans[OF sub] only_watched_kill) simp_all
  have eq: "release_attachment env sv c sid =
      (if se_subscribers (sv_session sv p) - 1 = 0 \<and> \<not> sc_linger (se_cfg ?s) \<and> se_state ?s = StateRunning
       then fst (sv_kill env ?sv1 p SignalTERM) else ?sv1)"
    unfolding release_attachment_def Inr sum.case remove_subscriber_def Let_def prod.case ..
  show ?thesis unfolding eq using sub kill by (split if_split) blast
qed (simp add: release_attachment_def)

definition read_only_conn :: "conn \<Rightarrow> bool" where
  "read_only_conn c \<longleftrightarrow> cn_scope c = ScopeReadOnly \<and> (\<forall>(sid, att)\<in>set (cn_attachments c). tt_read_only att) \<and>
     mwf (cn_attachments c)"

lemma read_only_conn_send [simp]:
  "read_only_conn (send env c m) = read_only_conn c" "read_only_conn (send_err env c i e) = read_only_conn c"
  "read_only_conn (send_ok env c i) = read_only_conn c"
  by (simp_all add: read_only_conn_def)

lemma read_only_conn_atts:
  "read_only_conn c \<Longrightarrow> tt_read_only att \<Longrightarrow> read_only_conn (c\<lparr>cn_attachments := mput sid att (cn_attachments c)\<rparr>)"
  "read_only_conn c \<Longrightarrow> read_only_conn (c\<lparr>cn_watches := ws\<rparr>)" "read_only_conn c \<Longrightarrow> read_only_conn (c\<lparr>cn_event_sub := es\<rparr>)"
  by (auto simp: read_only_conn_def dest!: set_mput)

lemma read_only_conn_del: "read_only_conn c \<Longrightarrow> read_only_conn (c\<lparr>cn_attachments := mdel sid (cn_attachments c)\<rparr>)"
  by (auto simp: read_only_conn_def dest: set_mdel)

lemma dispatch_read_only:
  assumes "read_only_conn c" "index_inv (sv_reg sv) ps" "dispatch env sv c f = (sv', c', go)"
    and hello: "\<forall>m. f = InMsg (CHello m) \<longrightarrow> cn_needs_token c \<and> scope_for (sv_ws_tokens sv) (he_token m) \<noteq> Some ScopeControl"
  shows "only_watched sv sv' \<and> read_only_conn c' \<and> cn_needs_token c' = cn_needs_token c"
proof (cases "inbound_type f \<in> set control_only_types")
  case True
  then show ?thesis using assms(1,3) by (auto simp: dispatch_def read_only_conn_def)
next
  case False
  then have d: "(case f of InMsg m \<Rightarrow> dispatch_msg env sv c m
        | InBad t _ \<Rightarrow> (sv, send_err env c [] (Coded BadFrame), t \<noteq> TypeHello)
        | InOther _ \<Rightarrow> (sv, c, True)) = (sv', c', go)"
    using assms(3) by (simp add: dispatch_def)
  show ?thesis
  proof (cases f)
    case (InMsg m)
    have r: "dispatch_msg env sv c m = (sv', c', go)" using d by (simp add: InMsg)
    have t: "client_type m \<notin> set control_only_types" using False by (simp add: InMsg inbound_type_def)
    show ?thesis
    proof (cases m)
      case (CHello h)
      then have "scope_for (sv_ws_tokens sv) (he_token h) \<noteq> Some ScopeControl" "cn_needs_token c" using hello InMsg by auto
      moreover have "read_only_conn (c\<lparr>cn_hello_done := True, cn_scope := ScopeReadOnly\<rparr>)"
        using assms(1) by (simp add: read_only_conn_def)
      moreover have "scope_for (sv_ws_tokens sv) (he_token h) \<in> {None, Some ScopeReadOnly}"
        using calculation(1) by (auto simp: scope_for_def)
      ultimately show ?thesis
        using r assms(1) by (auto simp: CHello on_hello_def split: if_splits)
    next
      case (CAttach a)
      show ?thesis
      proof (cases "sv_lookup env sv (at_session_id a)")
        case (Inr p)
        have ro: "cn_scope c = ScopeReadOnly" using assms(1) by (simp add: read_only_conn_def)
        have "only_watched sv (publish env (put_session sv p (fst (add_subscriber (sv_session sv p)))) evs)" for evs
          using only_watched_subs by (simp add: add_subscriber_def Let_def)
        then show ?thesis
          using r assms(1) read_only_conn_atts(1)[OF assms(1)]
          by (auto simp: CAttach on_attach_def Inr Let_def ro split: if_splits)
      qed (use r assms(1) in \<open>auto simp: CAttach on_attach_def\<close>)
    next
      case (CDetach a)
      then show ?thesis
        using r assms(1) read_only_conn_del[OF assms(1)] release_attachment_watched[OF assms(2)]
        by (auto simp: on_detach_def Let_def split: sum.splits if_splits)
    next
      case (CSubEvents a)
      then show ?thesis
        using r assms(1) read_only_conn_atts(3)[OF assms(1)]
        by (auto simp: on_subscribe_events_def split: if_splits prod.splits)
    next
      case (CWatch a)
      then show ?thesis
        using r assms(1) read_only_conn_atts(2)[OF assms(1)]
        by (auto simp: on_watch_def Let_def split: sum.splits if_splits)
    next
      case (CList a)
      then show ?thesis using r assms(1) by (auto simp: on_list_def)
    next
      case (CInfo a)
      then show ?thesis using r assms(1) by (auto simp: on_info_def split: sum.splits)
    next
      case (CReplayCommand a)
      then show ?thesis using r assms(1) by (auto simp: on_replay_command_def split: sum.splits option.splits)
    qed (use t in \<open>simp_all add: client_type_def control_only_types_def\<close>)
  qed (use d assms(1) in auto)
qed

text \<open>C9. The read-only scope is safe: a connection whose token grants no more can, with any frames,
  change nothing of any session but the subscriber counts: no input, no lock, name, metadata or
  size, no session started, renamed or handed over, every attach it makes is read-only; and
  the only signals it can cause are TERM to sessions that do not linger.\<close>

theorem read_only_scope_safe:
  assumes "read_only_conn c" "cn_needs_token c" "index_inv (sv_reg sv) ps"
    and "\<forall>m. InMsg (CHello m) \<in> set fs \<longrightarrow> he_token m \<noteq> tk_control (sv_ws_tokens sv)"
    and "serve_frames env sv c fs = (sv', c', go)"
  shows "only_watched sv sv' \<and> (\<forall>(sid, att)\<in>set (cn_attachments c'). tt_read_only att) \<and>
    (\<forall>p<length (rg_heap (sv_reg sv)). (sv_session sv' p)\<lparr>se_subscribers := 0\<rparr> = (sv_session sv p)\<lparr>se_subscribers := 0\<rparr>)"
proof -
  have "only_watched sv sv' \<and> read_only_conn c'" using assms
  proof (induction fs arbitrary: env sv c)
    case (Cons f fs)
    obtain sv1 c1 go1 where h: "handle_frame (env 0) sv c f = (sv1, c1, go1)" by (metis prod_cases3)
    have step: "only_watched sv sv1 \<and> read_only_conn c1 \<and> cn_needs_token c1 = cn_needs_token c"
    proof (cases "\<not> cn_hello_done c \<and> inbound_type f \<noteq> TypeHello")
      case False
      then have "dispatch (env 0) sv c f = (sv1, c1, go1)" using h by (auto simp: handle_frame_def)
      then show ?thesis
        using Cons.prems(1-4) by (intro dispatch_read_only) (auto simp: scope_for_def)
    qed (use h Cons.prems(1) in \<open>auto simp: handle_frame_def\<close>)
    show ?case
    proof (cases go1)
      case True
      then have r: "serve_frames (\<lambda>k. env (Suc k)) sv1 c1 fs = (sv', c', go)" using Cons.prems(5) h by simp
      have tok: "sv_ws_tokens sv1 = sv_ws_tokens sv" using step by (simp add: only_watched_def)
      have "only_watched sv1 sv' \<and> read_only_conn c'"
        using step Cons.prems(2,4) only_watched_index[OF _ Cons.prems(3)] by (intro Cons.IH[OF _ _ _ _ r]) (auto simp: tok)
      then show ?thesis using step only_watched_trans by blast
    qed (use Cons.prems(5) h step in auto)
  qed simp
  then show ?thesis using only_watched_nth(2) by (auto simp: read_only_conn_def)
qed

section \<open>The end of a connection\<close>

lemma release_attachment_index: "index_inv (sv_reg sv) ps \<Longrightarrow> index_inv (sv_reg (release_attachment env sv c sid)) ps"
  by (rule only_watched_index[OF release_attachment_watched])

lemma release_all_watched:
  "index_inv (sv_reg sv) ps \<Longrightarrow> only_watched sv (foldl (\<lambda>sv sid. release_attachment env sv c sid) sv sids)"
proof (induction sids arbitrary: sv)
  case (Cons i sids)
  then show ?case
    using only_watched_trans[OF release_attachment_watched[OF Cons.prems] Cons.IH[OF release_attachment_index[OF Cons.prems]]]
    by simp
qed simp

text \<open>The lock scan of the cleanup, on any list of sessions.\<close>

lemma release_locks_scan:
  "\<exists>hp. sv_reg (foldl (release_lock client) sv ps) = (sv_reg sv)\<lparr>rg_heap := hp\<rparr> \<and> length hp = length (rg_heap (sv_reg sv)) \<and>
    (\<forall>q<length hp. hp ! q = (if q \<in> set ps then session_release_write (sv_session sv q) client else sv_session sv q))"
proof (induction ps arbitrary: sv)
  case Nil
  show ?case by (intro exI[of _ "rg_heap (sv_reg sv)"]) simp
next
  case (Cons p ps)
  let ?sv1 = "release_lock client sv p"
  have reg1: "\<exists>h1. sv_reg ?sv1 = (sv_reg sv)\<lparr>rg_heap := h1\<rparr> \<and> length h1 = length (rg_heap (sv_reg sv)) \<and>
      (\<forall>q<length h1. h1 ! q = (if q = p then session_release_write (sv_session sv q) client else sv_session sv q))"
    by (intro exI[of _ "rg_heap (sv_reg ?sv1)"])
      (auto simp: release_lock_def put_session_def session_release_write_def nth_list_update)
  have idem: "session_release_write (session_release_write s client) client = session_release_write s client" for s
    by (simp add: session_release_write_def)
  obtain h1 where h1: "sv_reg ?sv1 = (sv_reg sv)\<lparr>rg_heap := h1\<rparr>" "length h1 = length (rg_heap (sv_reg sv))"
      "\<forall>q<length h1. h1 ! q = (if q = p then session_release_write (sv_session sv q) client else sv_session sv q)"
    using reg1 by blast
  from Cons.IH[of ?sv1] obtain hp where hp: "sv_reg (foldl (release_lock client) ?sv1 ps) = (sv_reg ?sv1)\<lparr>rg_heap := hp\<rparr>"
      "length hp = length (rg_heap (sv_reg ?sv1))"
      "\<forall>q<length hp. hp ! q = (if q \<in> set ps then session_release_write (sv_session ?sv1 q) client else sv_session ?sv1 q)"
    by blast
  show ?case
    using hp h1 idem by (intro exI[of _ hp]) auto
qed

lemma release_write_id [simp]:
  "se_id (session_release_write s c) = se_id s" "se_name (session_release_write s c) = se_name s"
  "c \<noteq> [] \<Longrightarrow> se_write_lock_holder (session_release_write s c) \<noteq> c"
  by (simp_all add: session_release_write_def)

text \<open>C15. A dead client wedges nothing: after the cleanup of a connection no session is locked by
  its client, no other client's lock is touched, it has no attachment, watch or event
  subscription left, and the sessions are listed as before.\<close>

theorem cleanup_releases_all:
  assumes "index_inv (sv_reg sv) ps" "conn_cleanup env sv c = (sv', c')"
  shows "(\<forall>p\<in>set (registry_list (sv_reg sv)).
      se_write_lock_holder (sv_session sv' p) =
        (if se_write_lock_holder (sv_session sv p) = cn_client_id c then [] else se_write_lock_holder (sv_session sv p))) \<and>
    set (registry_list (sv_reg sv')) = set (registry_list (sv_reg sv)) \<and>
    cn_attachments c' = [] \<and> cn_watches c' = [] \<and> cn_closed c' \<and>
    (\<forall>i. cn_event_sub c = Some i \<longrightarrow> mget (eb_subs (sv_bus sv')) i = None)"
proof -
  let ?c1 = "c\<lparr>cn_closed := True, cn_attachments := [], cn_event_sub := None, cn_watches := []\<rparr>"
  define sv1 where "sv1 = foldl (\<lambda>sv sid. release_attachment env sv ?c1 sid) sv (map fst (cn_attachments c))"
  define sv2 where "sv2 = (case cn_event_sub c of None \<Rightarrow> sv1 | Some i \<Rightarrow> sv1\<lparr>sv_bus := bus_unsubscribe (sv_bus sv1) i\<rparr>)"
  have out: "sv' = release_locks sv2 (cn_client_id c)" "c' = ?c1"
    using assms(2) by (auto simp: conn_cleanup_def Let_def sv1_def sv2_def split: option.splits)
  have w: "only_watched sv sv1" unfolding sv1_def by (rule release_all_watched[OF assms(1)])
  have reg2: "sv_reg sv2 = sv_reg sv1" by (simp add: sv2_def split: option.split)
  obtain hp where hp: "sv_reg sv' = (sv_reg sv1)\<lparr>rg_heap := hp\<rparr>" "length hp = length (rg_heap (sv_reg sv1))"
      "\<forall>q<length hp. hp ! q = (if q \<in> set (registry_list (sv_reg sv1))
         then session_release_write (sv_session sv1 q) (cn_client_id c) else sv_session sv1 q)"
    using release_locks_scan[of "cn_client_id c" sv2 "registry_list (sv_reg sv2)"]
    unfolding out(1) release_locks_def reg2 by blast
  have ids: "rg_byID (sv_reg sv1) = rg_byID (sv_reg sv)" "rg_byID (sv_reg sv') = rg_byID (sv_reg sv)"
    using w hp(1) by (auto simp: only_watched_def)
  have mwf: "mwf (rg_byID (sv_reg sv))" using assms(1) by (rule index_invD(1))
  have listed: "set (registry_list (sv_reg sv1)) = set (registry_list (sv_reg sv))"
      "set (registry_list (sv_reg sv')) = set (registry_list (sv_reg sv))"
    using mem_registry_list[of "sv_reg sv"] mem_registry_list[of "sv_reg sv1"] mem_registry_list[of "sv_reg sv'"] mwf
    by (auto simp: ids)
  have lock: "se_write_lock_holder (sv_session sv' p) =
      (if se_write_lock_holder (sv_session sv p) = cn_client_id c then [] else se_write_lock_holder (sv_session sv p))"
    if "p \<in> set (registry_list (sv_reg sv))" for p
  proof -
    have len: "p < length (rg_heap (sv_reg sv))"
      using that index_invD(3)[OF assms(1)] by (auto simp: mem_registry_list[OF mwf])
    then have "sv_session sv' p = session_release_write (sv_session sv1 p) (cn_client_id c)"
      using hp that only_watched_nth(1)[OF w] by (simp add: listed)
    moreover have "se_write_lock_holder (sv_session sv1 p) = se_write_lock_holder (sv_session sv p)"
      using only_watched_nth(2)[OF w len] by (metis session.select_convs(14) session.surjective session.update_convs(4))
    ultimately show ?thesis by (simp add: session_release_write_def)
  qed
  have bus: "mget (eb_subs (sv_bus sv')) i = None" if "cn_event_sub c = Some i" for i
  proof -
    have "sv_bus (foldl (release_lock client) sv qs) = sv_bus sv" for sv client qs
      by (induction qs arbitrary: sv) (simp_all add: release_lock_def put_session_def)
    then have "sv_bus sv' = sv_bus sv2" by (simp add: out(1) release_locks_def)
    then show ?thesis using that
      by (auto simp: sv2_def bus_unsubscribe_def split: option.split)
  qed
  show ?thesis using lock listed(2) bus by (auto simp: out(2))
qed

section \<open>Concrete connections\<close>

definition demo_server :: server where
  "demo_server = demo_full\<lparr>sv_reg := demo_registry\<rparr>"

lemma demo_index: "index_inv (sv_reg demo_server) []"
proof -
  have "registry_inv (demo_registry, [])"
    by (rule registry_reachable_inv[OF demo_run new_registry_inv]) (simp add: MaxRingBytes_def)
  then show ?thesis by (simp add: registry_inv_def demo_server_def)
qed

theorem read_only_scope_safe_witness:
  "only_watched demo_server (fst (serve_frames (\<lambda>k. demo_conn_env) demo_server
     ((new_conn ''cli'' True)\<lparr>cn_scope := ScopeReadOnly, cn_hello_done := True\<rparr>)
     [InMsg (CAttach \<lparr>at_req_id = [], at_session_id = demo_id, at_since_seq = None, at_read_only = False\<rparr>),
      InMsg (CInput \<lparr>in_req_id = [], in_session_id = demo_id\<rparr> [1])]))"
proof -
  let ?c = "(new_conn ''cli'' True)\<lparr>cn_scope := ScopeReadOnly, cn_hello_done := True\<rparr>"
  let ?fs = "[InMsg (CAttach \<lparr>at_req_id = [], at_session_id = demo_id, at_since_seq = None, at_read_only = False\<rparr>),
      InMsg (CInput \<lparr>in_req_id = [], in_session_id = demo_id\<rparr> [1])]"
  obtain sv' c' go where r: "serve_frames (\<lambda>k. demo_conn_env) demo_server ?c ?fs = (sv', c', go)" by (metis prod_cases3)
  have "read_only_conn ?c" "cn_needs_token ?c" by (simp_all add: read_only_conn_def new_conn_def)
  from read_only_scope_safe[OF this demo_index _ r] show ?thesis unfolding r by simp
qed

definition demo_locked :: server where
  "demo_locked = put_session demo_server 0 (session_take_write (sv_session demo_server 0) ''cli'')"

theorem cleanup_releases_all_witness:
  "se_write_lock_holder (sv_session demo_locked 0) = ''cli'' \<and>
   se_write_lock_holder (sv_session (fst (conn_cleanup demo_conn_env demo_locked (new_conn ''cli'' False))) 0) = []"
proof -
  obtain sv' c' where r: "conn_cleanup demo_conn_env demo_locked (new_conn ''cli'' False) = (sv', c')" by fastforce
  have lock: "se_write_lock_holder (sv_session demo_locked 0) = ''cli''"
    by (simp add: demo_locked_def put_session_def session_take_write_def demo_server_def demo_registry_def)
  have idx: "index_inv (sv_reg demo_locked) []"
    using index_touch[OF demo_index, of "session_take_write (sv_session demo_server 0) ''cli''" 0]
    by (simp add: demo_locked_def put_session_def session_take_write_def)
  have "0 \<in> set (registry_list (sv_reg demo_locked))"
    by (simp add: demo_locked_def put_session_def demo_server_def demo_registry_def registry_list_def List.map_filter_def)
  then show ?thesis using cleanup_releases_all[OF idx r] lock unfolding r by (simp add: new_conn_def)
qed

end
