(* ===== verification/Takeover.thy ===== *)
theory Takeover
  imports Access
begin

text \<open>
  The daemon upgrade, \<open>pkg/daemon/takeover.go\<close>: the private stream of states and file
  descriptors, the old daemon's ritual with its rollback, the new daemon's receive loop.
\<close>

section \<open>The private channel\<close>

text \<open>
  The bytes of the stream in order, each with the file descriptor that rides on it. JSON
  marshalling of the state and of the finale is a parameter.
\<close>

type_synonym chan = "(byte \<times> nat option) list"

abbreviation ctrlSessionLive :: byte where "ctrlSessionLive \<equiv> 0x53"
abbreviation ctrlSessionExited :: byte where "ctrlSessionExited \<equiv> 0x58"
abbreviation ctrlFinale :: byte where "ctrlFinale \<equiv> 0x4C"
abbreviation ctrlAck :: byte where "ctrlAck \<equiv> 0x41"

definition maxBlob :: nat where
  "maxBlob = 128 * 1024 * 1024"

definition write_blob :: "byte list \<Rightarrow> chan" where
  "write_blob data = map (\<lambda>b. (b, None)) (be_put32 (of_nat (length data)) @ data)"

definition read_blob :: "chan \<Rightarrow> (byte list \<times> chan) option" where
  "read_blob ch =
     (if length ch < 4 then None
      else
        let n = unat (be_get32 (map fst (take 4 ch))); r = drop 4 ch
        in if maxBlob < n then None
           else if length r < n then None
           else Some (map fst (take n r), drop n r))"

definition write_ctrl :: "byte \<Rightarrow> nat option \<Rightarrow> chan" where
  "write_ctrl ctrl fd = [(ctrl, fd)]"

definition read_ctrl :: "chan \<Rightarrow> (byte \<times> nat option \<times> chan) option" where
  "read_ctrl ch = (case ch of [] \<Rightarrow> None | (b, fd) # r \<Rightarrow> Some (b, fd, r))"

record adopted_session =
  as_state :: handover_state
  as_ring :: "byte list"
  as_ptmx :: "nat option"

record adopted =
  ad_sessions :: "adopted_session list"
  ad_lock_path :: string
  ad_lock_file :: "nat option"

record handover_codec =
  hc_state :: "handover_state \<Rightarrow> byte list option"
  hc_parse_state :: "byte list \<Rightarrow> handover_state option"
  hc_fin :: "nat \<times> string \<Rightarrow> byte list"
  hc_parse_fin :: "byte list \<Rightarrow> (nat \<times> string) option"

section \<open>The new daemon\<close>

text \<open>The receive loop of \<open>RequestTakeover\<close>; \<open>ack_ok\<close> is whether the ACK could be written.\<close>

function receive ::
  "handover_codec \<Rightarrow> bool \<Rightarrow> chan \<Rightarrow> adopted_session list \<Rightarrow> string + adopted" where
  "receive hc ack_ok ch acc =
     (case read_ctrl ch of
        None \<Rightarrow> Inl ''ctrl''
      | Some (ctrl, fd, r) \<Rightarrow>
          if ctrl = ctrlFinale then
            (case read_blob r of
               None \<Rightarrow> Inl ''fin''
             | Some (finJSON, _) \<Rightarrow>
                 (case hc_parse_fin hc finJSON of
                    None \<Rightarrow> Inl ''fin''
                  | Some (count, path) \<Rightarrow>
                      if count \<noteq> length acc then Inl ''count''
                      else if \<not> ack_ok then Inl ''ack''
                      else Inr \<lparr>ad_sessions = acc, ad_lock_path = path, ad_lock_file = fd\<rparr>))
          else
            (case read_blob r of
               None \<Rightarrow> Inl ''state''
             | Some (stateJSON, r1) \<Rightarrow>
                 (case read_blob r1 of
                    None \<Rightarrow> Inl ''ring''
                  | Some (ring, r2) \<Rightarrow>
                      (case hc_parse_state hc stateJSON of
                         None \<Rightarrow> Inl ''state''
                       | Some st \<Rightarrow>
                           if ctrl = ctrlSessionLive \<and> fd = None then Inl ''fd''
                           else receive hc ack_ok r2 (acc @ [\<lparr>as_state = st, as_ring = ring, as_ptmx = fd\<rparr>])))))"
  by pat_completeness auto
termination
proof (relation "measure (\<lambda>(_, _, ch, _). length ch)", simp, clarify)
  fix hc :: handover_codec and ack_ok :: bool and ch acc ctrl fd r stateJSON r1 ring r2 st
  assume "read_ctrl ch = Some (ctrl, fd, r)" "read_blob r = Some (stateJSON, r1)" "read_blob r1 = Some (ring, r2)"
  then have "length ch = Suc (length r)" "length r1 \<le> length r" "length r2 \<le> length r1"
    by (auto simp: read_ctrl_def read_blob_def Let_def split: list.splits if_splits)
  then show "((hc, ack_ok, r2, acc @ [\<lparr>as_state = st, as_ring = ring, as_ptmx = fd\<rparr>]), (hc, ack_ok, ch, acc))
      \<in> measure (\<lambda>(_, _, ch, _). length ch)" by simp
qed

declare receive.simps [simp del]

text \<open>The sessions of the new daemon: each is adopted and registered; one that is refused is skipped.\<close>

fun adopt_all :: "(string \<Rightarrow> string + byte list) \<Rightarrow> int \<Rightarrow> registry \<Rightarrow> adopted_session list \<Rightarrow> registry" where
  "adopt_all reopen now r [] = r"
| "adopt_all reopen now r (a # as) =
     (case adopt_session (reopen (hs_log_path (as_state a))) now (as_state a) (as_ring a) of
        None \<Rightarrow> adopt_all reopen now r as
      | Some (s, _) \<Rightarrow> adopt_all reopen now (fst (registry_adopt r s)) as)"

section \<open>The old daemon\<close>

text \<open>
  What the old daemon is told: whether read deadlines can be set and cleared, whether the reply
  channel can be dialled and is a unix socket, how many bytes of it get through, the file
  descriptor of each PTY and of the lock, the byte that comes back, and whether the listener
  can be opened again.
\<close>

record takeover_env =
  te_codec :: handover_codec
  te_pause_ok :: "sref \<Rightarrow> bool"
  te_resume_ok :: "sref \<Rightarrow> bool"
  te_dial_ok :: bool
  te_is_unix :: bool
  te_budget :: nat
  te_fd :: "sref \<Rightarrow> nat"
  te_lock_fd :: nat
  te_lock_path :: string
  te_ack :: "byte option"
  te_relisten_ok :: bool

record daemon =
  dm_server :: server
  dm_conns :: "conn list"
  dm_closed :: bool
  dm_listening :: bool
  dm_handed_over :: bool

text \<open>\<open>PauseReader\<close> to its end: the deadline unblocks the pump, which leaves without finishing.\<close>

definition pause_and_wait :: "bool \<Rightarrow> session \<Rightarrow> session \<times> err option" where
  "pause_and_wait ok s =
     (case pause_reader ok s of
        (s1, Some e) \<Rightarrow> (s1, Some e)
      | (s1, None) \<Rightarrow> (if se_state s = StateRunning then s1\<lparr>se_reader := False\<rparr> else s1, None))"

fun pause_all :: "(sref \<Rightarrow> bool) \<Rightarrow> registry \<Rightarrow> sref list \<Rightarrow> registry \<times> bool" where
  "pause_all ok r [] = (r, True)"
| "pause_all ok r (p # ps) =
     (case pause_and_wait (ok p) (session_at r p) of
        (s, e) \<Rightarrow> if e \<noteq> None then (set_session r p s, False) else pause_all ok (set_session r p s) ps)"

fun resume_all :: "(sref \<Rightarrow> bool) \<Rightarrow> registry \<Rightarrow> sref list \<Rightarrow> registry" where
  "resume_all ok r [] = r"
| "resume_all ok r (p # ps) = resume_all ok (set_session r p (fst (resume_reader (ok p) (session_at r p)))) ps"

definition session_item :: "takeover_env \<Rightarrow> registry \<Rightarrow> sref \<Rightarrow> chan option" where
  "session_item te r p =
     (let s = session_at r p; (st, ring) = handover_of s
      in map_option (\<lambda>js. (if se_state s = StateRunning then write_ctrl ctrlSessionLive (Some (te_fd te p))
             else write_ctrl ctrlSessionExited None) @ write_blob js @ write_blob ring)
           (hc_state (te_codec te) st))"

definition finale_item :: "takeover_env \<Rightarrow> nat \<Rightarrow> chan" where
  "finale_item te n =
     write_ctrl ctrlFinale (Some (te_lock_fd te)) @ write_blob (hc_fin (te_codec te) (n, te_lock_path te))"

text \<open>
  Step 3 and 4: what gets onto the channel, and whether all of it did. A state that does not
  marshal, or a write beyond the budget, stops the stream there.
\<close>

fun stream_items :: "chan option list \<Rightarrow> chan \<times> bool" where
  "stream_items [] = ([], True)"
| "stream_items (None # _) = ([], False)"
| "stream_items (Some x # xs) = (case stream_items xs of (ys, ok) \<Rightarrow> (x @ ys, ok))"

definition handover_stream :: "takeover_env \<Rightarrow> registry \<Rightarrow> sref list \<Rightarrow> chan \<times> bool" where
  "handover_stream te r ps =
     (case stream_items (map (session_item te r) ps @ [Some (finale_item te (length ps))]) of
        (ch, ok) \<Rightarrow> (take (te_budget te) ch, ok \<and> length ch \<le> te_budget te))"

definition relisten :: "bool \<Rightarrow> daemon \<Rightarrow> daemon" where
  "relisten ok d = (if ok then d\<lparr>dm_closed := False, dm_listening := True\<rparr> else d)"

definition rollback :: "takeover_env \<Rightarrow> daemon \<Rightarrow> sref list \<Rightarrow> daemon" where
  "rollback te d ps =
     relisten (te_relisten_ok te)
       (d\<lparr>dm_server := (dm_server d)\<lparr>sv_reg := resume_all (te_resume_ok te) (sv_reg (dm_server d)) ps\<rparr>\<rparr>)"

text \<open>The result: the daemon, and what the new daemon could read.\<close>

definition perform_handover :: "takeover_env \<Rightarrow> daemon \<Rightarrow> daemon \<times> chan" where
  "perform_handover te d =
     (let d1 = d\<lparr>dm_closed := True, dm_listening := False, dm_conns := map (cn_closed_update (\<lambda>_. True)) (dm_conns d)\<rparr>;
          ps = registry_list (sv_reg (dm_server d));
          (r, paused) = pause_all (te_pause_ok te) (sv_reg (dm_server d)) ps;
          d2 = d1\<lparr>dm_server := (dm_server d)\<lparr>sv_reg := r\<rparr>\<rparr>
      in if \<not> paused then (rollback te d2 ps, [])
         else if \<not> te_dial_ok te \<or> \<not> te_is_unix te then (rollback te d2 ps, [])
         else (case handover_stream te r ps of
             (ch, sent) \<Rightarrow>
               if \<not> sent then (rollback te d2 ps, ch)
               else if te_ack te \<noteq> Some ctrlAck then (rollback te d2 ps, ch)
               else (d2\<lparr>dm_handed_over := True\<rparr>, ch)))"

section \<open>Blobs and sessions on the wire\<close>

lemma read_write_blob:
  "length data \<le> maxBlob \<Longrightarrow> read_blob (write_blob data @ rest) = Some (data, rest)"
proof -
  assume "length data \<le> maxBlob"
  moreover have "length data < 2 ^ 32" using calculation by (simp add: maxBlob_def)
  ultimately show ?thesis
    by (simp add: read_blob_def write_blob_def Let_def comp_def)
qed

lemma write_blob_length: "length (write_blob data) = 4 + length data"
  by (simp add: write_blob_def)

lemma read_blob_torn:
  assumes "length data \<le> maxBlob" "strict_prefix p (write_blob data)"
  shows "read_blob p = None"
proof -
  obtain q where q: "write_blob data = p @ q" "q \<noteq> []" using assms(2) by (auto simp: strict_prefix_def prefix_def)
  have len: "length p < 4 + length data" using arg_cong[OF q(1), of length] q(2) by (simp add: write_blob_length)
  show ?thesis
  proof (cases "length p < 4")
    case False
    have "length data < 2 ^ 32" using assms(1) by (simp add: maxBlob_def)
    moreover have "take 4 (write_blob data) = map (\<lambda>b. (b, None)) (be_put32 (of_nat (length data)))"
      by (simp add: write_blob_def)
    then have "take 4 p = map (\<lambda>b. (b, None)) (be_put32 (of_nat (length data)))"
      using q(1) False by simp
    ultimately show ?thesis using False len assms(1) by (auto simp: read_blob_def Let_def comp_def)
  qed (simp add: read_blob_def)
qed

interpretation blob: self_delimiting write_blob read_blob "\<lambda>data. length data \<le> maxBlob"
proof unfold_locales
  show "write_blob x \<noteq> []" for x using write_blob_length[of x] by auto
qed (rule read_write_blob read_blob_torn; assumption)+

text \<open>One session of the stream, as the sender writes it and as one turn of the loop reads it.\<close>

definition enc_adopted :: "handover_codec \<Rightarrow> adopted_session \<Rightarrow> chan" where
  "enc_adopted hc a =
     write_ctrl (if as_ptmx a \<noteq> None then ctrlSessionLive else ctrlSessionExited) (as_ptmx a) @
     write_blob (the (hc_state hc (as_state a))) @ write_blob (as_ring a)"

definition dec_adopted :: "handover_codec \<Rightarrow> chan \<Rightarrow> (adopted_session \<times> chan) option" where
  "dec_adopted hc ch =
     (case read_ctrl ch of
        None \<Rightarrow> None
      | Some (ctrl, fd, r) \<Rightarrow>
          if ctrl = ctrlFinale then None
          else (case read_blob r of
              None \<Rightarrow> None
            | Some (js, r1) \<Rightarrow>
                (case read_blob r1 of
                   None \<Rightarrow> None
                 | Some (ring, r2) \<Rightarrow>
                     (case hc_parse_state hc js of
                        None \<Rightarrow> None
                      | Some st \<Rightarrow>
                          if ctrl = ctrlSessionLive \<and> fd = None then None
                          else Some (\<lparr>as_state = st, as_ring = ring, as_ptmx = fd\<rparr>, r2)))))"

text \<open>The state survives JSON, and the blobs are within the limit.\<close>

definition adopted_ok :: "handover_codec \<Rightarrow> adopted_session \<Rightarrow> bool" where
  "adopted_ok hc a \<longleftrightarrow> (case hc_state hc (as_state a) of
      None \<Rightarrow> False
    | Some js \<Rightarrow> length js \<le> maxBlob \<and> hc_parse_state hc js = Some (as_state a)) \<and> length (as_ring a) \<le> maxBlob"

lemma dec_enc_adopted: "adopted_ok hc a \<Longrightarrow> dec_adopted hc (enc_adopted hc a @ rest) = Some (a, rest)"
  by (auto simp: adopted_ok_def dec_adopted_def enc_adopted_def write_ctrl_def read_ctrl_def read_write_blob split: option.splits)

lemma dec_adopted_torn:
  assumes "adopted_ok hc a" "strict_prefix p (enc_adopted hc a)"
  shows "dec_adopted hc p = None"
proof (cases p)
  case (Cons x r)
  obtain js where js: "hc_state hc (as_state a) = Some js" "length js \<le> maxBlob" "length (as_ring a) \<le> maxBlob"
    using assms(1) by (auto simp: adopted_ok_def split: option.splits)
  have torn: "strict_prefix r (write_blob js @ write_blob (as_ring a))"
    using assms(2) by (auto simp: Cons enc_adopted_def write_ctrl_def js(1) strict_prefix_def)
  have "read_blob r = None \<or> (\<exists>q. read_blob r = Some (js, q) \<and> read_blob q = None)"
  proof (cases "prefix (write_blob js) r")
    case True
    then obtain q where q: "r = write_blob js @ q" by (auto simp: prefix_def)
    with torn have "strict_prefix q (write_blob (as_ring a))" by (simp add: strict_prefix_def)
    then show ?thesis using q js by (simp add: read_write_blob read_blob_torn[OF js(3)])
  next
    case False
    have "prefix r (write_blob js)"
      using torn False prefix_same_cases[of r "write_blob js @ write_blob (as_ring a)" "write_blob js"]
      by (auto simp: strict_prefix_def)
    with False have "strict_prefix r (write_blob js)" by (auto simp: strict_prefix_def)
    then show ?thesis by (simp add: read_blob_torn[OF js(2)])
  qed
  then show ?thesis by (cases x) (auto simp: dec_adopted_def read_ctrl_def Cons)
qed (simp add: dec_adopted_def read_ctrl_def)

interpretation adopted_codec: self_delimiting "enc_adopted hc" "dec_adopted hc" "adopted_ok hc" for hc
  by unfold_locales (auto simp: dec_enc_adopted dec_adopted_torn, simp add: enc_adopted_def write_ctrl_def)

lemma receive_session:
  "dec_adopted hc ch = Some (a, r) \<Longrightarrow> receive hc ack_ok ch acc = receive hc ack_ok r (acc @ [a])"
  by (subst receive.simps) (auto simp: dec_adopted_def split: option.splits if_splits)

lemma receive_sessions:
  "list_all (adopted_ok hc) as \<Longrightarrow>
   receive hc ack_ok (concat (map (enc_adopted hc) as) @ rest) acc = receive hc ack_ok rest (acc @ as)"
  by (induction as arbitrary: acc) (simp_all add: receive_session[OF dec_enc_adopted])

lemma receive_torn:
  "dec_adopted hc ch = None \<Longrightarrow> read_ctrl ch = None \<or> (\<exists>c fd r. read_ctrl ch = Some (c, fd, r) \<and> c \<noteq> ctrlFinale) \<Longrightarrow>
   \<exists>e. receive hc ack_ok ch acc = Inl e"
  by (subst receive.simps) (auto simp: dec_adopted_def split: option.splits if_splits)

section \<open>The stream is received whole or not at all\<close>

definition adopted_at :: "takeover_env \<Rightarrow> registry \<Rightarrow> sref \<Rightarrow> adopted_session" where
  "adopted_at te r p =
     (let s = session_at r p
      in \<lparr>as_state = fst (handover_of s), as_ring = snd (handover_of s),
          as_ptmx = (if se_state s = StateRunning then Some (te_fd te p) else None)\<rparr>)"

lemma session_item_enc:
  "adopted_ok (te_codec te) (adopted_at te r p) \<Longrightarrow>
   session_item te r p = Some (enc_adopted (te_codec te) (adopted_at te r p))"
  by (auto simp: session_item_def adopted_ok_def adopted_at_def enc_adopted_def Let_def split_beta split: option.splits)

lemma stream_items_Some: "stream_items (map Some xs) = (concat xs, True)"
  by (induction xs) simp_all

lemma stream_items_sessions:
  "\<forall>p\<in>set ps. adopted_ok (te_codec te) (adopted_at te r p) \<Longrightarrow>
   stream_items (map (session_item te r) ps @ [Some x]) =
     (concat (map (enc_adopted (te_codec te)) (map (adopted_at te r) ps)) @ x, True)"
  by (induction ps) (simp_all add: session_item_enc)

lemma receive_finale:
  assumes "hc_parse_fin hc (hc_fin hc (length acc, path)) = Some (length acc, path)" "length (hc_fin hc (length acc, path)) \<le> maxBlob"
  shows "receive hc True (write_ctrl ctrlFinale (Some fd) @ write_blob (hc_fin hc (length acc, path))) acc =
    Inr \<lparr>ad_sessions = acc, ad_lock_path = path, ad_lock_file = Some fd\<rparr>"
  using assms read_write_blob[OF assms(2), of "[]"]
  by (subst receive.simps) (simp add: write_ctrl_def read_ctrl_def)

lemma receive_finale_torn:
  assumes "length data \<le> maxBlob" "strict_prefix q (write_ctrl ctrlFinale fd @ write_blob data)"
  shows "\<exists>e. receive hc ack_ok q acc = Inl e"
proof (cases q)
  case (Cons x r)
  then have "x = (ctrlFinale, fd)" "strict_prefix r (write_blob data)"
    using assms(2) by (auto simp: write_ctrl_def strict_prefix_def)
  then show ?thesis
    using read_blob_torn[OF assms(1)] by (subst receive.simps) (simp add: Cons read_ctrl_def)
qed (subst receive.simps, simp add: read_ctrl_def)

lemma stream_received:
  assumes "\<forall>p\<in>set ps. adopted_ok (te_codec te) (adopted_at te r p)"
    and "hc_parse_fin (te_codec te) (hc_fin (te_codec te) (length ps, te_lock_path te)) = Some (length ps, te_lock_path te)"
    and "length (hc_fin (te_codec te) (length ps, te_lock_path te)) \<le> maxBlob"
    and "handover_stream te r ps = (ch, sent)"
  shows "if sent then receive (te_codec te) True ch [] =
        Inr \<lparr>ad_sessions = map (adopted_at te r) ps, ad_lock_path = te_lock_path te, ad_lock_file = Some (te_lock_fd te)\<rparr>
      else (\<exists>e. receive (te_codec te) True ch [] = Inl e)"
proof -
  let ?hc = "te_codec te" and ?as = "map (adopted_at te r) ps"
  let ?fin = "finale_item te (length ps)"
  let ?all = "concat (map (enc_adopted ?hc) ?as) @ ?fin"
  have ch: "ch = take (te_budget te) ?all" "sent \<longleftrightarrow> length ?all \<le> te_budget te"
    using assms(4) stream_items_sessions[OF assms(1)] by (auto simp: handover_stream_def)
  have ok: "list_all (adopted_ok ?hc) ?as" using assms(1) by (simp add: list_all_iff)
  show ?thesis
  proof (cases sent)
    case True
    then have "ch = ?all" using ch by simp
    then show ?thesis
      using True receive_sessions[OF ok, of True ?fin "[]"] receive_finale[of ?hc ?as "te_lock_path te" "te_lock_fd te"] assms(2,3)
      by (simp add: finale_item_def)
  next
    case False
    then have short: "te_budget te < length ?all" using ch(2) by simp
    have "prefix ch ?all" unfolding ch(1) by (rule take_is_prefix)
    have "length ch = te_budget te" unfolding ch(1) length_take using short by (rule min.absorb2[OF less_imp_le])
    then have "length ch < length ?all" using short by simp
    have "\<exists>e. receive ?hc True ch [] = Inl e"
    proof (cases "prefix (concat (map (enc_adopted ?hc) ?as)) ch")
      case True
      then obtain q where q: "ch = concat (map (enc_adopted ?hc) ?as) @ q" by (auto simp: prefix_def)
      then have "prefix q ?fin" "length q < length ?fin"
        using \<open>prefix ch ?all\<close> \<open>length ch < length ?all\<close> by simp_all
      then have "strict_prefix q ?fin" by (auto simp: strict_prefix_def)
      from receive_finale_torn[OF assms(3) this[unfolded finale_item_def]] show ?thesis
        unfolding q receive_sessions[OF ok] by blast
    next
      case False
      have "prefix ch (concat (map (enc_adopted ?hc) ?as))"
        using prefix_same_cases[OF \<open>prefix ch ?all\<close>, of "concat (map (enc_adopted ?hc) ?as)"] False by auto
      from adopted_codec.torn_stream[OF ok this] obtain k q where k: "k \<le> length ?as"
          "ch = concat (map (enc_adopted ?hc) (take k ?as)) @ q"
          "k < length ?as \<longrightarrow> strict_prefix q (enc_adopted ?hc (?as ! k))" "k = length ?as \<longrightarrow> q = []" by blast
      have "k < length ?as" using k False by (cases "k = length ?as") auto
      then have torn: "strict_prefix q (enc_adopted ?hc (?as ! k))" "adopted_ok ?hc (?as ! k)"
        using k(3) ok by (simp_all add: list_all_length)
      have "read_ctrl q = None \<or> (\<exists>c fd r. read_ctrl q = Some (c, fd, r) \<and> c \<noteq> ctrlFinale)"
        using torn(1) by (cases q) (auto simp: read_ctrl_def enc_adopted_def write_ctrl_def strict_prefix_def)
      with receive_torn[OF dec_adopted_torn[OF torn(2,1)]] have "\<exists>e. receive ?hc True q (take k ?as) = Inl e" by blast
      moreover have "list_all (adopted_ok ?hc) (take k ?as)" using ok by (simp add: list_all_length)
      ultimately show ?thesis unfolding k(2) by (simp add: receive_sessions)
    qed
    then show ?thesis using False by simp
  qed
qed

text \<open>C19. The new daemon receives every session, its retained output and its PTY, and the lock, and
  acknowledges exactly then: cut anywhere, the stream is refused and nothing is acknowledged,
  so the old daemon takes its sessions back.\<close>

theorem takeover_all_or_nothing:
  assumes "\<forall>p\<in>set ps. adopted_ok (te_codec te) (adopted_at te r p)"
    and "hc_parse_fin (te_codec te) (hc_fin (te_codec te) (length ps, te_lock_path te)) = Some (length ps, te_lock_path te)"
    and "length (hc_fin (te_codec te) (length ps, te_lock_path te)) \<le> maxBlob"
    and "handover_stream te r ps = (ch, sent)"
  shows "if sent then receive (te_codec te) True ch [] =
        Inr \<lparr>ad_sessions = map (adopted_at te r) ps, ad_lock_path = te_lock_path te, ad_lock_file = Some (te_lock_fd te)\<rparr>
      else (\<exists>e. receive (te_codec te) True ch [] = Inl e)"
  by (rule stream_received[OF assms])

section \<open>A failed upgrade changes nothing\<close>

lemma pause_cases:
  "fst (pause_and_wait ok s) = s \<or>
   se_state s = StateRunning \<and> (\<exists>b. fst (pause_and_wait ok s) = s\<lparr>se_paused := True, se_reader := b\<rparr>)"
proof (cases "se_state s = StateRunning \<and> \<not> ok")
  case True
  then have "fst (pause_and_wait ok s) = s\<lparr>se_paused := True, se_reader := se_reader s\<rparr>"
    by (simp add: pause_and_wait_def pause_reader_def)
  with True show ?thesis by blast
qed (auto simp: pause_and_wait_def pause_reader_def)

lemma pause_all_frame: "\<exists>hp. fst (pause_all ok r ps) = r\<lparr>rg_heap := hp\<rparr> \<and> length hp = length (rg_heap r)"
proof (induction ps arbitrary: r)
  case Nil
  show ?case by (intro exI[of _ "rg_heap r"]) simp
next
  case (Cons p ps)
  obtain s e where s: "pause_and_wait (ok p) (session_at r p) = (s, e)" by fastforce
  from Cons.IH[of "set_session r p s"] obtain hp where
    "fst (pause_all ok (set_session r p s) ps) = r\<lparr>rg_heap := hp\<rparr>" "length hp = length (rg_heap r)" by auto
  then show ?case by (cases e) (auto simp: s)
qed

lemma resume_all_frame: "\<exists>hp. resume_all ok r ps = r\<lparr>rg_heap := hp\<rparr> \<and> length hp = length (rg_heap r)"
proof (induction ps arbitrary: r)
  case Nil
  show ?case by (intro exI[of _ "rg_heap r"]) simp
next
  case (Cons p ps)
  from Cons.IH[of "set_session r p (fst (resume_reader (ok p) (session_at r p)))"] show ?case by auto
qed

lemma pause_all_other:
  "q < length (rg_heap r) \<Longrightarrow> q \<notin> set ps \<Longrightarrow> session_at (fst (pause_all ok r ps)) q = session_at r q"
proof (induction ps arbitrary: r)
  case (Cons p ps)
  obtain s e where s: "pause_and_wait (ok p) (session_at r p) = (s, e)" by fastforce
  show ?case using Cons.IH[of "set_session r p s"] Cons.prems by (simp add: s)
qed simp

lemma pause_all_nth:
  "q < length (rg_heap r) \<Longrightarrow> distinct ps \<Longrightarrow>
   session_at (fst (pause_all ok r ps)) q = session_at r q \<or>
   q \<in> set ps \<and> se_state (session_at r q) = StateRunning \<and>
     (\<exists>b. session_at (fst (pause_all ok r ps)) q = (session_at r q)\<lparr>se_paused := True, se_reader := b\<rparr>)"
proof (induction ps arbitrary: r)
  case Nil
  show ?case by (rule disjI1) simp
next
  case (Cons p ps)
  obtain s e where s: "pause_and_wait (ok p) (session_at r p) = (s, e)" by fastforce
  let ?r = "set_session r p s"
  show ?case
  proof (cases "q = p")
    case True
    have "session_at (fst (pause_all ok ?r ps)) q = session_at ?r q"
      by (rule pause_all_other) (use Cons.prems True in simp_all)
    then have at: "session_at (fst (pause_all ok r (p # ps))) q = s"
      using Cons.prems(1) True by (simp add: s)
    have "s = session_at r q \<or> se_state (session_at r q) = StateRunning \<and>
        (\<exists>b. s = (session_at r q)\<lparr>se_paused := True, se_reader := b\<rparr>)"
      by (rule pause_cases[of "ok p" "session_at r p", unfolded s fst_conv, folded True])
    then show ?thesis unfolding at using True by auto
  next
    case False
    then show ?thesis using Cons.IH[of ?r] Cons.prems by (simp add: s)
  qed
qed

lemma resume_all_nth:
  "q < length (rg_heap r) \<Longrightarrow> distinct ps \<Longrightarrow>
   session_at (resume_all ok r ps) q = (if q \<in> set ps then fst (resume_reader (ok q) (session_at r q)) else session_at r q)"
proof (induction ps arbitrary: r)
  case (Cons p ps)
  then show ?case by (cases "q = p") simp_all
qed simp

lemma pause_all_done:
  "snd (pause_all ok r ps) \<Longrightarrow> q < length (rg_heap r) \<Longrightarrow> distinct ps \<Longrightarrow> q \<in> set ps \<Longrightarrow>
   se_state (session_at r q) = StateRunning \<Longrightarrow> \<not> se_reader (session_at (fst (pause_all ok r ps)) q)"
proof (induction ps arbitrary: r)
  case (Cons p ps)
  obtain s e where s: "pause_and_wait (ok p) (session_at r p) = (s, e)" by fastforce
  then have e: "e = None" using Cons.prems(1) by (auto split: if_splits)
  let ?r = "set_session r p s"
  show ?case
  proof (cases "q = p")
    case True
    have "\<not> se_reader s"
      using s Cons.prems(5) e by (auto simp: True pause_and_wait_def pause_reader_def split: if_splits)
    moreover have "session_at (fst (pause_all ok ?r ps)) p = session_at ?r p"
      using pause_all_other[of p ?r ps ok] Cons.prems True by auto
    ultimately show ?thesis using Cons.prems(2) by (simp add: s e True)
  next
    case False
    then show ?thesis using Cons.IH[of ?r] Cons.prems by (simp add: s e)
  qed
qed simp

lemma rollback_restores:
  assumes "distinct ps" "\<forall>p\<in>set ps. p < length (rg_heap r)"
    and "\<forall>p\<in>set ps. se_state (session_at r p) = StateRunning \<longrightarrow> se_reader (session_at r p) \<and> \<not> se_paused (session_at r p)"
    and "\<forall>p\<in>set ps. resume_ok p"
  shows "resume_all resume_ok (fst (pause_all ok r ps)) ps = r"
proof -
  let ?r1 = "fst (pause_all ok r ps)"
  obtain h1 where h1: "?r1 = r\<lparr>rg_heap := h1\<rparr>" "length h1 = length (rg_heap r)" using pause_all_frame by blast
  obtain h2 where h2: "resume_all resume_ok ?r1 ps = ?r1\<lparr>rg_heap := h2\<rparr>" "length h2 = length (rg_heap ?r1)"
    using resume_all_frame by blast
  have "h2 ! q = session_at r q" if q: "q < length (rg_heap r)" for q
  proof -
    have r2: "h2 ! q = (if q \<in> set ps then fst (resume_reader (resume_ok q) (session_at ?r1 q)) else session_at ?r1 q)"
      using resume_all_nth[of q ?r1 ps resume_ok] q assms(1) h2(1) h1 by simp
    from pause_all_nth[OF q assms(1), of ok] show ?thesis
    proof (elim disjE conjE exE)
      assume same: "session_at ?r1 q = session_at r q"
      then show ?thesis using r2 assms(3) by (auto simp: resume_reader_def)
    next
      fix b assume a: "q \<in> set ps" "se_state (session_at r q) = StateRunning"
        "session_at ?r1 q = (session_at r q)\<lparr>se_paused := True, se_reader := b\<rparr>"
      then have "se_reader (session_at r q)" "\<not> se_paused (session_at r q)" "resume_ok q" using assms(3,4) by auto
      then show ?thesis using r2 a by (auto simp: resume_reader_def)
    qed
  qed
  then have "h2 = rg_heap r" using h1 h2(2) by (intro nth_equalityI) auto
  then show ?thesis using h1(1) h2(1) by simp
qed

lemma handover_outcome:
  assumes "index_inv (sv_reg (dm_server d)) ps" "\<not> dm_handed_over d"
    and "\<forall>p\<in>set (registry_list (sv_reg (dm_server d))).
        se_state (sv_session (dm_server d) p) = StateRunning \<longrightarrow>
          se_reader (sv_session (dm_server d) p) \<and> \<not> se_paused (sv_session (dm_server d) p)"
    and "\<forall>p. te_resume_ok te p" "te_relisten_ok te" "perform_handover te d = (d', ch)"
  shows "if dm_handed_over d' then
      (\<forall>p\<in>set (registry_list (sv_reg (dm_server d))).
         se_state (sv_session (dm_server d) p) = StateRunning \<longrightarrow> \<not> se_reader (sv_session (dm_server d') p)) \<and>
      \<not> dm_listening d' \<and> te_ack te = Some ctrlAck
    else sv_reg (dm_server d') = sv_reg (dm_server d) \<and> dm_listening d' \<and> \<not> dm_closed d'"
proof -
  let ?reg = "sv_reg (dm_server d)" and ?ps = "registry_list (sv_reg (dm_server d))"
  have dist: "distinct ?ps" by (rule distinct_registry_list[OF assms(1)])
  have bound: "\<forall>p\<in>set ?ps. p < length (rg_heap ?reg)"
    using listed_iff[OF assms(1)] index_invD(3)[OF assms(1)] by blast
  obtain r paused where pa: "pause_all (te_pause_ok te) ?reg ?ps = (r, paused)" by fastforce
  define d2 where "d2 = d\<lparr>dm_closed := True, dm_listening := False,
      dm_conns := map (cn_closed_update (\<lambda>_. True)) (dm_conns d), dm_server := (dm_server d)\<lparr>sv_reg := r\<rparr>\<rparr>"
  have "resume_all (te_resume_ok te) r ?ps = ?reg"
    using rollback_restores[OF dist bound assms(3), of "te_resume_ok te" "te_pause_ok te"] assms(4) pa by simp
  then have restored: "sv_reg (dm_server (rollback te d2 ?ps)) = ?reg" "dm_listening (rollback te d2 ?ps)"
      "\<not> dm_closed (rollback te d2 ?ps)" "\<not> dm_handed_over (rollback te d2 ?ps)"
    using assms(2,5) by (simp_all add: rollback_def relisten_def d2_def)
  obtain ch1 sent where st: "handover_stream te r ?ps = (ch1, sent)" by fastforce
  have d': "d' = (if \<not> paused \<or> \<not> te_dial_ok te \<or> \<not> te_is_unix te \<or> \<not> sent \<or> te_ack te \<noteq> Some ctrlAck
      then rollback te d2 ?ps else d2\<lparr>dm_handed_over := True\<rparr>)"
    using assms(6) unfolding perform_handover_def Let_def pa prod.case st d2_def[symmetric]
    by (auto simp: d2_def split: if_splits)
  show ?thesis
  proof (cases "\<not> paused \<or> \<not> te_dial_ok te \<or> \<not> te_is_unix te \<or> \<not> sent \<or> te_ack te \<noteq> Some ctrlAck")
    case True
    then show ?thesis using restored by (simp add: d')
  next
    case False
    have "\<not> se_reader (session_at r p)" if "p \<in> set ?ps" "se_state (session_at ?reg p) = StateRunning" for p
      using pause_all_done[of "te_pause_ok te" ?reg ?ps p] pa False bound dist that by simp
    then show ?thesis using False by (simp add: d' d2_def)
  qed
qed


section \<open>A concrete upgrade\<close>

definition demo_takeover :: "nat \<Rightarrow> takeover_env" where
  "demo_takeover n = \<lparr>te_codec = \<lparr>hc_state = (\<lambda>st. Some [0x7B, 0x7D]),
      hc_parse_state = (\<lambda>js. Some (fst (handover_of (session_at demo_registry 0)))),
      hc_fin = (\<lambda>f. [0x7B, 0x7D]), hc_parse_fin = (\<lambda>js. Some (1, ''lock''))\<rparr>,
     te_pause_ok = (\<lambda>p. True), te_resume_ok = (\<lambda>p. True), te_dial_ok = True, te_is_unix = True,
     te_budget = n, te_fd = (\<lambda>p. 11), te_lock_fd = 3, te_lock_path = ''lock'',
     te_ack = Some ctrlAck, te_relisten_ok = True\<rparr>"

definition demo_daemon :: daemon where
  "demo_daemon = \<lparr>dm_server = demo_server, dm_conns = [], dm_closed = False, dm_listening = True, dm_handed_over = False\<rparr>"

lemma demo_handover_ring: "snd (handover_of (session_at demo_registry 0)) = []"
  by (simp add: handover_of_def demo_registry_def demo_session_def new_session_def ring_snapshot_def replay_locked_def Let_def)

lemma demo_adopted: "adopted_ok (te_codec (demo_takeover n)) (adopted_at (demo_takeover n) demo_registry 0)"
  by (simp add: adopted_ok_def adopted_at_def demo_takeover_def demo_handover_ring maxBlob_def Let_def)

lemma demo_stream: "snd (handover_stream (demo_takeover n) demo_registry [0]) \<longleftrightarrow> 18 \<le> n"
proof -
  have "stream_items (map (session_item (demo_takeover n) demo_registry) [0] @ [Some (finale_item (demo_takeover n) 1)]) =
      (enc_adopted (te_codec (demo_takeover n)) (adopted_at (demo_takeover n) demo_registry 0) @ finale_item (demo_takeover n) 1, True)"
    using stream_items_sessions[of "[0]"] demo_adopted by simp
  then show ?thesis
    by (simp add: handover_stream_def enc_adopted_def finale_item_def write_ctrl_def write_blob_length
        adopted_at_def demo_handover_ring demo_takeover_def Let_def)
qed

theorem takeover_all_or_nothing_witness:
  "(\<exists>a. receive (te_codec (demo_takeover 18)) True (fst (handover_stream (demo_takeover 18) demo_registry [0])) [] = Inr a \<and>
      map as_ptmx (ad_sessions a) = [Some 11] \<and> ad_lock_path a = ''lock'') \<and>
   (\<exists>e. receive (te_codec (demo_takeover 17)) True (fst (handover_stream (demo_takeover 17) demo_registry [0])) [] = Inl e)"
proof -
  have ok: "\<forall>p\<in>set [0]. adopted_ok (te_codec (demo_takeover n)) (adopted_at (demo_takeover n) demo_registry p)" for n
    using demo_adopted by simp
  have "hc_parse_fin (te_codec (demo_takeover n)) (hc_fin (te_codec (demo_takeover n)) (length [0::sref], te_lock_path (demo_takeover n))) =
      Some (length [0::sref], te_lock_path (demo_takeover n))"
    and "length (hc_fin (te_codec (demo_takeover n)) (length [0::sref], te_lock_path (demo_takeover n))) \<le> maxBlob" for n
    by (simp_all add: demo_takeover_def maxBlob_def)
  note run = takeover_all_or_nothing[OF ok this, OF surjective_pairing[of "handover_stream (demo_takeover n) demo_registry [0]" for n]]
  have "as_ptmx (adopted_at (demo_takeover 18) demo_registry 0) = Some 11" "te_lock_path (demo_takeover 18) = ''lock''"
    by (simp_all add: adopted_at_def demo_takeover_def demo_registry_def demo_session_def new_session_def Let_def)
  with run[of 18] run[of 17] show ?thesis by (simp add: demo_stream)
qed


end
