(* ===== verification/ProcessLock.thy ===== *)
theory ProcessLock
  imports MetaJson
begin

text \<open>
  One daemon per home directory: \<open>pkg/processlock/flock.go\<close> and \<open>flock_unix.go\<close>, on the part of a
  Unix kernel that they use: names, inodes, open file descriptions shared between processes,
  and the advisory lock that belongs to a description.
\<close>

section \<open>The kernel\<close>

type_synonym pid = nat
type_synonym inode = nat
type_synonym desc = nat

record os_state =
  os_files :: "string \<Rightarrow> inode option"
  os_data :: "inode \<Rightarrow> string"
  os_desc :: "desc \<Rightarrow> inode option"
  os_flock :: "inode \<Rightarrow> desc option"
  os_fds :: "pid \<Rightarrow> desc list"
  os_procs :: "pid list"
  os_next :: nat

definition boot_os :: os_state where
  "boot_os = \<lparr>os_files = (\<lambda>p. None), os_data = (\<lambda>i. []), os_desc = (\<lambda>d. None), os_flock = (\<lambda>i. None),
     os_fds = (\<lambda>p. []), os_procs = [], os_next = 0\<rparr>"

text \<open>\<open>open(path, O_CREAT|O_RDWR)\<close>.\<close>

definition sys_open :: "os_state \<Rightarrow> pid \<Rightarrow> string \<Rightarrow> desc \<times> os_state" where
  "sys_open os p path =
     (let (i, os1) = (case os_files os path of
              Some i \<Rightarrow> (i, os)
            | None \<Rightarrow> (os_next os, os\<lparr>os_files := (os_files os)(path := Some (os_next os)),
                os_data := (os_data os)(os_next os := []), os_next := Suc (os_next os)\<rparr>));
          d = os_next os1
      in (d, os1\<lparr>os_desc := (os_desc os1)(d := Some i), os_fds := (os_fds os1)(p := d # os_fds os1 p),
               os_next := Suc d\<rparr>))"

text \<open>\<open>flock(d, LOCK_EX|LOCK_NB)\<close>: \<open>False\<close> is \<open>EWOULDBLOCK\<close>.\<close>

definition sys_flock :: "os_state \<Rightarrow> desc \<Rightarrow> bool \<times> os_state" where
  "sys_flock os d =
     (case os_desc os d of
        None \<Rightarrow> (False, os)
      | Some i \<Rightarrow>
          if os_flock os i = None \<or> os_flock os i = Some d
          then (True, os\<lparr>os_flock := (os_flock os)(i := Some d)\<rparr>) else (False, os))"

definition unlocked :: "desc \<Rightarrow> (inode \<Rightarrow> desc option) \<Rightarrow> inode \<Rightarrow> desc option" where
  "unlocked d fl i = (if fl i = Some d then None else fl i)"

definition sys_funlock :: "os_state \<Rightarrow> desc \<Rightarrow> os_state" where
  "sys_funlock os d = os\<lparr>os_flock := unlocked d (os_flock os)\<rparr>"

text \<open>A description, and its lock, live as long as some process has it open.\<close>

definition is_open :: "os_state \<Rightarrow> desc \<Rightarrow> bool" where
  "is_open os d \<longleftrightarrow> (\<exists>p\<in>set (os_procs os). d \<in> set (os_fds os p))"

definition drop_closed :: "os_state \<Rightarrow> os_state" where
  "drop_closed os = os\<lparr>os_desc := (\<lambda>d. if is_open os d then os_desc os d else None),
     os_flock := (\<lambda>i. case os_flock os i of None \<Rightarrow> None | Some d \<Rightarrow> if is_open os d then Some d else None)\<rparr>"

definition sys_close :: "os_state \<Rightarrow> pid \<Rightarrow> desc \<Rightarrow> os_state" where
  "sys_close os p d = drop_closed (os\<lparr>os_fds := (os_fds os)(p := remove1 d (os_fds os p))\<rparr>)"

definition sys_remove :: "os_state \<Rightarrow> string \<Rightarrow> os_state" where
  "sys_remove os path = os\<lparr>os_files := (os_files os)(path := None)\<rparr>"

definition sys_write :: "os_state \<Rightarrow> desc \<Rightarrow> string \<Rightarrow> os_state" where
  "sys_write os d s = (case os_desc os d of None \<Rightarrow> os | Some i \<Rightarrow> os\<lparr>os_data := (os_data os)(i := s)\<rparr>)"

definition sys_start :: "os_state \<Rightarrow> pid \<Rightarrow> os_state" where
  "sys_start os p = os\<lparr>os_procs := p # os_procs os\<rparr>"

definition sys_exit :: "os_state \<Rightarrow> pid \<Rightarrow> os_state" where
  "sys_exit os p = drop_closed (os\<lparr>os_procs := removeAll p (os_procs os), os_fds := (os_fds os)(p := [])\<rparr>)"

text \<open>\<open>SCM_RIGHTS\<close>: the receiver has the same description open.\<close>

definition sys_pass :: "os_state \<Rightarrow> desc \<Rightarrow> pid \<Rightarrow> os_state" where
  "sys_pass os d q = os\<lparr>os_fds := (os_fds os)(q := d # os_fds os q)\<rparr>"

section \<open>The package\<close>

record lock =
  lo_path :: string
  lo_file :: desc
  lo_owned :: bool

datatype lock_err = LockBusy | ErrLockHeld | LockOther string

definition lock_adopt :: "string \<Rightarrow> desc \<Rightarrow> lock" where
  "lock_adopt path d = \<lparr>lo_path = path, lo_file = d, lo_owned = True\<rparr>"

text \<open>How far \<open>writeContent\<close> gets: nothing, the truncation and part of the text, or all.\<close>

datatype write_fate = TruncateFails | WritesPart nat | WritesAll

definition lock_text :: "pid \<Rightarrow> string \<Rightarrow> string" where
  "lock_text p time = int_string (int p) @ '' '' @ time @ [char_of (10 :: nat)]"

definition write_content :: "write_fate \<Rightarrow> os_state \<Rightarrow> desc \<Rightarrow> pid \<Rightarrow> string \<Rightarrow> bool \<times> os_state" where
  "write_content w os d p time =
     (case w of
        TruncateFails \<Rightarrow> (False, os)
      | WritesPart n \<Rightarrow> (False, sys_write os d (take n (lock_text p time)))
      | WritesAll \<Rightarrow> (True, sys_write os d (lock_text p time)))"

definition pid_alive :: "os_state \<Rightarrow> int \<Rightarrow> bool" where
  "pid_alive os n \<longleftrightarrow> nat n \<in> set (os_procs os)"

text \<open>The pid in the file; \<open>None\<close> where the code takes the owner for alive.\<close>

definition owner_pid :: "string \<Rightarrow> int option" where
  "owner_pid s =
     (let line = takeWhile (\<lambda>c. c \<noteq> char_of (10 :: nat)) (trim_space s);
          part = takeWhile (\<lambda>c. c \<noteq> CHR '' '') line
      in case parse_int64 part of None \<Rightarrow> None | Some n \<Rightarrow> if n \<le> 0 then None else Some n)"

text \<open>The flag of an error is dropped by the only caller.\<close>

definition owner_alive :: "bool \<Rightarrow> os_state \<Rightarrow> string \<Rightarrow> bool \<times> bool" where
  "owner_alive read_ok os path =
     (case (if read_ok then os_files os path else None) of
        None \<Rightarrow> (False, True)
      | Some i \<Rightarrow>
          (case owner_pid (os_data os i) of
             None \<Rightarrow> (True, False)
           | Some n \<Rightarrow> (pid_alive os n, False)))"

record acquire_env =
  ae_open_ok :: bool
  ae_flock_err :: bool
  ae_write :: write_fate
  ae_read_ok :: bool
  ae_remove_ok :: bool
  ae_time :: string

definition try_acquire :: "acquire_env \<Rightarrow> os_state \<Rightarrow> pid \<Rightarrow> string \<Rightarrow> (lock_err + lock) \<times> os_state" where
  "try_acquire env os p path =
     (if \<not> ae_open_ok env then (Inl (LockOther ''open''), os)
      else (case sys_open os p path of
          (d, os1) \<Rightarrow>
            if ae_flock_err env then (Inl (LockOther ''flock''), sys_close os1 p d)
            else (case sys_flock os1 d of
                (False, os2) \<Rightarrow> (Inl LockBusy, sys_close os2 p d)
              | (True, os2) \<Rightarrow>
                  (case write_content (ae_write env) os2 d p (ae_time env) of
                     (False, os3) \<Rightarrow> (Inl (LockOther ''write''), sys_close (sys_funlock os3 d) p d)
                   | (True, os3) \<Rightarrow> (Inr \<lparr>lo_path = path, lo_file = d, lo_owned = True\<rparr>, os3)))))"

text \<open>The two attempts of \<open>Acquire\<close>; \<open>env\<close> is what each of them meets.\<close>

function acquire_loop ::
  "(nat \<Rightarrow> acquire_env) \<Rightarrow> os_state \<Rightarrow> pid \<Rightarrow> string \<Rightarrow> nat \<Rightarrow> (lock_err + lock) \<times> os_state" where
  "acquire_loop env os p path attempt =
     (if 2 \<le> attempt then (Inl ErrLockHeld, os)
      else (case try_acquire (env attempt) os p path of
          (Inr l, os1) \<Rightarrow> (Inr l, os1)
        | (Inl e, os1) \<Rightarrow>
            if e \<noteq> LockBusy then (Inl e, os1)
            else if \<not> fst (owner_alive (ae_read_ok (env attempt)) os1 path) then
              (if \<not> ae_remove_ok (env attempt) then (Inl (LockOther ''reclaim stale''), os1)
               else acquire_loop env (sys_remove os1 path) p path (Suc attempt))
            else (Inl ErrLockHeld, os1)))"
  by pat_completeness auto
termination by (relation "measure (\<lambda>(_, _, _, _, attempt). 2 - attempt)") auto

declare acquire_loop.simps [simp del]

definition acquire :: "bool \<Rightarrow> (nat \<Rightarrow> acquire_env) \<Rightarrow> os_state \<Rightarrow> pid \<Rightarrow> string \<Rightarrow> (lock_err + lock) \<times> os_state" where
  "acquire mkdir_ok env os p path =
     (if \<not> mkdir_ok then (Inl (LockOther ''mkdir parent''), os) else acquire_loop env os p path 0)"

definition lock_release :: "os_state \<Rightarrow> pid \<Rightarrow> lock option \<Rightarrow> lock option \<times> os_state" where
  "lock_release os p l =
     (case l of
        None \<Rightarrow> (None, os)
      | Some k \<Rightarrow>
          if \<not> lo_owned k then (l, os)
          else (Some (k\<lparr>lo_owned := False\<rparr>), sys_close os p (lo_file k)))"

section \<open>The pid in the file\<close>

lemma trim_right_plain:
  assumes "\<forall>c\<in>set s. (33 :: nat) \<le> of_char c \<and> of_char c < (128 :: nat)"
  shows "trim_right (s @ t) = s @ trim_right t"
  using assms
proof (induction s)
  case (Cons c s)
  then have "space_width (c # s @ t) = 0" by (simp add: space_width_plain)
  then have "trim_left (c # s @ t) \<noteq> []" by (simp add: trim_left_id)
  with Cons show ?case by simp
qed simp

lemma first_field:
  assumes "\<forall>c\<in>set n. c \<noteq> nl \<and> c \<noteq> sp" "r = [] \<or> hd r = sp" "nl \<noteq> sp"
  shows "takeWhile (\<lambda>c. c \<noteq> sp) (takeWhile (\<lambda>c. c \<noteq> nl) (n @ r)) = n"
proof -
  have "takeWhile (\<lambda>c. c \<noteq> nl) (n @ r) = n @ takeWhile (\<lambda>c. c \<noteq> nl) r"
    by (rule takeWhile_append2) (use assms(1) in blast)
  also have "takeWhile (\<lambda>c. c \<noteq> sp) \<dots> = n @ takeWhile (\<lambda>c. c \<noteq> sp) (takeWhile (\<lambda>c. c \<noteq> nl) r)"
    by (rule takeWhile_append2) (use assms(1) in blast)
  finally show ?thesis using assms(2,3) by (cases r) auto
qed

lemma owner_lock_text:
  assumes "0 < p" "p < 2 ^ 63"
  shows "owner_pid (lock_text p time) = Some (int p)"
proof -
  let ?n = "int_string (int p)" and ?t = "'' '' @ time @ [char_of (10 :: nat)]"
  have n: "?n = nat_string p" by (simp add: int_string_def)
  have digits: "\<forall>c\<in>set ?n. (48 :: nat) \<le> of_char c \<and> of_char c \<le> (57 :: nat)"
    unfolding n using nat_string_digits by blast
  then have plain: "\<forall>c\<in>set ?n. (33 :: nat) \<le> of_char c \<and> of_char c < (128 :: nat)" by force
  obtain c cs where cs: "?n = c # cs" unfolding n by (metis nat_string_nonempty list.exhaust)
  then have "space_width (?n @ ?t) = 0" using plain by (simp add: space_width_plain)
  then have "trim_space (lock_text p time) = trim_right (?n @ ?t)"
    by (simp add: trim_space_def lock_text_def trim_left_id)
  also have "\<dots> = ?n @ trim_right ?t" by (rule trim_right_plain[OF plain])
  finally have trim: "trim_space (lock_text p time) = ?n @ trim_right ?t" .
  have sep: "\<forall>c\<in>set ?n. c \<noteq> char_of (10 :: nat) \<and> c \<noteq> CHR '' ''" using digits by force
  have rest: "trim_right ?t = [] \<or> hd (trim_right ?t) = CHR '' ''" by auto
  have "takeWhile (\<lambda>c. c \<noteq> CHR '' '') (takeWhile (\<lambda>c. c \<noteq> char_of (10 :: nat)) (?n @ trim_right ?t)) = ?n"
    by (rule first_field[OF sep rest]) (auto dest: arg_cong[of _ _ "of_char :: char \<Rightarrow> nat"])
  moreover have "parse_int64 ?n = Some (int p)" using assms by (intro parse_int_string) auto
  ultimately show ?thesis using assms(1) by (simp add: owner_pid_def trim Let_def)
qed

section \<open>The daemons of a machine\<close>

text \<open>
  Any number of processes that start, acquire, release and die in any order, each operation of
  the package atomic; \<open>locks\<close> is the lock a process has been given.
\<close>

datatype lock_op =
    LockStart pid
  | LockAcquire bool "nat \<Rightarrow> acquire_env" pid string
  | LockRelease pid
  | LockDie pid

type_synonym lock_system = "os_state \<times> (pid \<Rightarrow> lock option)"

fun lock_step :: "lock_system \<Rightarrow> lock_op \<Rightarrow> lock_system" where
  "lock_step (os, locks) (LockStart p) =
     (if p \<in> set (os_procs os) \<or> p = 0 \<or> 2 ^ 63 \<le> p then (os, locks) else (sys_start os p, locks))"
| "lock_step (os, locks) (LockAcquire mkdir_ok env p path) =
     (if p \<notin> set (os_procs os) \<or> locks p \<noteq> None then (os, locks)
      else (case acquire mkdir_ok env os p path of
          (Inr l, os1) \<Rightarrow> (os1, locks(p := Some l))
        | (Inl e, os1) \<Rightarrow> (os1, locks)))"
| "lock_step (os, locks) (LockRelease p) =
     (case lock_release os p (locks p) of (l, os1) \<Rightarrow> (os1, locks(p := None)))"
| "lock_step (os, locks) (LockDie p) = (sys_exit os p, locks(p := None))"

text \<open>What a holder has: an open description that owns the lock of the inode of its path, and
  its own pid in that inode.\<close>

definition holder_ok :: "os_state \<Rightarrow> pid \<Rightarrow> lock \<Rightarrow> bool" where
  "holder_ok os p l \<longleftrightarrow> lo_owned l \<and> lo_file l \<in> set (os_fds os p) \<and>
     (\<exists>i. os_desc os (lo_file l) = Some i \<and> os_flock os i = Some (lo_file l) \<and>
        os_files os (lo_path l) = Some i \<and> owner_pid (os_data os i) = Some (int p))"

definition lock_inv :: "lock_system \<Rightarrow> bool" where
  "lock_inv x \<longleftrightarrow> (case x of (os, locks) \<Rightarrow>
     (\<forall>p l. locks p = Some l \<longrightarrow> holder_ok os p l) \<and>
     (\<forall>i d. os_flock os i = Some d \<longrightarrow> os_desc os d = Some i \<and> (\<exists>p l. locks p = Some l \<and> lo_file l = d)) \<and>
     (\<forall>p. os_fds os p = (case locks p of None \<Rightarrow> [] | Some l \<Rightarrow> [lo_file l])) \<and>
     (\<forall>p q d. d \<in> set (os_fds os p) \<and> d \<in> set (os_fds os q) \<longrightarrow> p = q) \<and>
     (\<forall>p. os_fds os p \<noteq> [] \<longrightarrow> p \<in> set (os_procs os)) \<and>
     (\<forall>p\<in>set (os_procs os). 0 < p \<and> p < 2 ^ 63) \<and>
     (\<forall>p i. os_files os p = Some i \<longrightarrow> i < os_next os) \<and>
     (\<forall>d i. os_desc os d = Some i \<longrightarrow> d < os_next os \<and> i < os_next os) \<and>
     (\<forall>p q i. os_files os p = Some i \<and> os_files os q = Some i \<longrightarrow> p = q))"

lemma lock_invD:
  assumes "lock_inv (os, locks)"
  shows "locks p = Some l \<Longrightarrow> holder_ok os p l"
    "os_flock os i = Some d \<Longrightarrow> os_desc os d = Some i \<and> (\<exists>p l. locks p = Some l \<and> lo_file l = d)"
    "os_fds os p = (case locks p of None \<Rightarrow> [] | Some l \<Rightarrow> [lo_file l])"
    "d \<in> set (os_fds os p) \<Longrightarrow> d \<in> set (os_fds os q) \<Longrightarrow> p = q"
    "os_fds os p \<noteq> [] \<Longrightarrow> p \<in> set (os_procs os)"
    "p \<in> set (os_procs os) \<Longrightarrow> 0 < p \<and> p < 2 ^ 63"
    "os_files os path = Some i \<Longrightarrow> i < os_next os"
    "os_desc os d = Some i \<Longrightarrow> d < os_next os \<and> i < os_next os"
    "os_files os path = Some i \<Longrightarrow> os_files os path' = Some i \<Longrightarrow> path = path'"
proof -
  note I = assms[unfolded lock_inv_def prod.case]
  note I1 = conjunct1[OF I] and R1 = conjunct2[OF I]
  note I2 = conjunct1[OF R1] and R2 = conjunct2[OF R1]
  note I3 = conjunct1[OF R2] and R3 = conjunct2[OF R2]
  note I4 = conjunct1[OF R3] and R4 = conjunct2[OF R3]
  note I5 = conjunct1[OF R4] and R5 = conjunct2[OF R4]
  note I6 = conjunct1[OF R5] and R6 = conjunct2[OF R5]
  note I7 = conjunct1[OF R6] and R7 = conjunct2[OF R6]
  show "locks p = Some l \<Longrightarrow> holder_ok os p l" using I1 by blast
  show "os_flock os i = Some d \<Longrightarrow> os_desc os d = Some i \<and> (\<exists>p l. locks p = Some l \<and> lo_file l = d)" using I2 by blast
  show "os_fds os p = (case locks p of None \<Rightarrow> [] | Some l \<Rightarrow> [lo_file l])" by (rule spec[OF I3])
  show "d \<in> set (os_fds os p) \<Longrightarrow> d \<in> set (os_fds os q) \<Longrightarrow> p = q" using I4 by blast
  show "os_fds os p \<noteq> [] \<Longrightarrow> p \<in> set (os_procs os)" using I5 by blast
  show "p \<in> set (os_procs os) \<Longrightarrow> 0 < p \<and> p < 2 ^ 63" by (rule bspec[OF I6])
  show "os_files os path = Some i \<Longrightarrow> i < os_next os" using I7 by blast
  show "os_desc os d = Some i \<Longrightarrow> d < os_next os \<and> i < os_next os" using conjunct1[OF R7] by blast
  show "os_files os path = Some i \<Longrightarrow> os_files os path' = Some i \<Longrightarrow> path = path'" using conjunct2[OF R7] by blast
qed

lemma lock_exclusive_inv:
  assumes "lock_inv (os, locks)" "locks p = Some l" "locks q = Some m" "lo_path l = lo_path m"
  shows "p = q"
proof -
  note D = lock_invD[OF assms(1)]
  have "lo_file l = lo_file m" "lo_file l \<in> set (os_fds os p)" "lo_file m \<in> set (os_fds os q)"
    using D(1)[OF assms(2)] D(1)[OF assms(3)] assms(4) by (auto simp: holder_ok_def)
  then show ?thesis using D(4) by simp
qed

text \<open>The same as a way to show it.\<close>

lemma lock_invI:
  assumes "\<And>p l. locks p = Some l \<Longrightarrow> holder_ok os p l"
    and "\<And>i d. os_flock os i = Some d \<Longrightarrow> os_desc os d = Some i \<and> (\<exists>p l. locks p = Some l \<and> lo_file l = d)"
    and "\<And>p. os_fds os p = (case locks p of None \<Rightarrow> [] | Some l \<Rightarrow> [lo_file l])"
    and "\<And>p q d. d \<in> set (os_fds os p) \<Longrightarrow> d \<in> set (os_fds os q) \<Longrightarrow> p = q"
    and "\<And>p. os_fds os p \<noteq> [] \<Longrightarrow> p \<in> set (os_procs os)"
    and "\<And>p. p \<in> set (os_procs os) \<Longrightarrow> 0 < p \<and> p < 2 ^ 63"
    and "\<And>p i. os_files os p = Some i \<Longrightarrow> i < os_next os"
    and "\<And>d i. os_desc os d = Some i \<Longrightarrow> d < os_next os \<and> i < os_next os"
    and "\<And>p q i. os_files os p = Some i \<Longrightarrow> os_files os q = Some i \<Longrightarrow> p = q"
  shows "lock_inv (os, locks)"
  unfolding lock_inv_def prod.case
proof (intro conjI)
  show "\<forall>p l. locks p = Some l \<longrightarrow> holder_ok os p l" using assms(1) by blast
  show "\<forall>i d. os_flock os i = Some d \<longrightarrow> os_desc os d = Some i \<and> (\<exists>p l. locks p = Some l \<and> lo_file l = d)" using assms(2) by blast
  show "\<forall>p. os_fds os p = (case locks p of None \<Rightarrow> [] | Some l \<Rightarrow> [lo_file l])" using assms(3) by blast
  show "\<forall>p q d. d \<in> set (os_fds os p) \<and> d \<in> set (os_fds os q) \<longrightarrow> p = q" using assms(4) by blast
  show "\<forall>p. os_fds os p \<noteq> [] \<longrightarrow> p \<in> set (os_procs os)" using assms(5) by blast
  show "\<forall>p\<in>set (os_procs os). 0 < p \<and> p < 2 ^ 63" using assms(6) by blast
  show "\<forall>p i. os_files os p = Some i \<longrightarrow> i < os_next os" using assms(7) by blast
  show "\<forall>d i. os_desc os d = Some i \<longrightarrow> d < os_next os \<and> i < os_next os" using assms(8) by blast
  show "\<forall>p q i. os_files os p = Some i \<and> os_files os q = Some i \<longrightarrow> p = q" using assms(9) by blast
qed

text \<open>An open that comes to nothing: between the open and the close the process has one
  description more, which owns no lock.\<close>

definition opened :: "os_state \<Rightarrow> pid \<Rightarrow> string \<Rightarrow> desc \<Rightarrow> inode \<Rightarrow> os_state \<Rightarrow> bool" where
  "opened os p path d i os1 \<longleftrightarrow> d < os_next os1 \<and> os_desc os1 d = Some i \<and> os_files os1 path = Some i \<and>
     os_fds os1 = (os_fds os)(p := d # os_fds os p) \<and> os_procs os1 = os_procs os \<and>
     os_flock os1 = os_flock os \<and> (\<forall>e. e \<noteq> d \<longrightarrow> os_desc os1 e = os_desc os e) \<and>
     (\<forall>q. q \<noteq> path \<longrightarrow> os_files os1 q = os_files os q) \<and>
     (os_files os path = None \<or> os_files os path = Some i \<and> os_data os1 = os_data os) \<and>
     (os_files os path = None \<longrightarrow> i = os_next os \<and> os_data os1 = (os_data os)(i := [])) \<and>
     os_next os \<le> d \<and> os_next os \<le> os_next os1 \<and> i < os_next os1"

lemma openedD:
  assumes "opened os p path d i os1"
  shows "d < os_next os1" "os_desc os1 d = Some i" "os_files os1 path = Some i"
    "os_fds os1 = (os_fds os)(p := d # os_fds os p)" "os_procs os1 = os_procs os" "os_flock os1 = os_flock os"
    "e \<noteq> d \<Longrightarrow> os_desc os1 e = os_desc os e" "q \<noteq> path \<Longrightarrow> os_files os1 q = os_files os q"
    "os_files os path = None \<or> os_files os path = Some i \<and> os_data os1 = os_data os"
    "os_files os path = None \<Longrightarrow> i = os_next os \<and> os_data os1 = (os_data os)(i := [])"
    "os_next os \<le> d" "os_next os \<le> os_next os1" "i < os_next os1"
  using assms by (simp_all add: opened_def)

lemma open_opened:
  assumes "lock_inv (os, locks)" "sys_open os p path = (d, os1)"
  shows "\<exists>i. opened os p path d i os1"
proof (cases "os_files os path")
  case None
  then show ?thesis using assms(2) by (auto simp: sys_open_def opened_def Let_def)
next
  case (Some i)
  then show ?thesis using assms(2) lock_invD(7)[OF assms(1) Some] by (auto simp: sys_open_def opened_def Let_def)
qed

lemma holder_is_open:
  "lock_inv (os, locks) \<Longrightarrow> locks p = Some l \<Longrightarrow> is_open os (lo_file l)"
  using lock_invD(3,5)[of os locks p] by (auto simp: is_open_def intro!: bexI[of _ p])

lemma holder_cong:
  assumes "holder_ok os q l"
    and "lo_file l \<in> set (os_fds os' q)" "os_desc os' (lo_file l) = os_desc os (lo_file l)"
    and "\<And>i. os_flock os i = Some (lo_file l) \<Longrightarrow> os_flock os' i = os_flock os i \<and> os_data os' i = os_data os i"
    and "os_files os' (lo_path l) = os_files os (lo_path l)"
  shows "holder_ok os' q l"
  using assms unfolding holder_ok_def by auto

lemma drop_closed_sel:
  "os_flock (drop_closed os) i = (case os_flock os i of None \<Rightarrow> None | Some d \<Rightarrow> if is_open os d then Some d else None)"
  "os_desc (drop_closed os) d = (if is_open os d then os_desc os d else None)"
  by (simp_all add: drop_closed_def)

lemma drop_closed_frame [simp]:
  "os_files (drop_closed os) = os_files os" "os_data (drop_closed os) = os_data os"
  "os_fds (drop_closed os) = os_fds os" "os_procs (drop_closed os) = os_procs os"
  "os_next (drop_closed os) = os_next os"
  by (simp_all add: drop_closed_def)

lemma held_open:
  assumes "lock_inv (os, locks)"
  shows "os_flock os i = Some d \<Longrightarrow> is_open os d" "is_open os d \<Longrightarrow> d < os_next os"
proof -
  note D = lock_invD[OF assms]
  show "os_flock os i = Some d \<Longrightarrow> is_open os d"
    using D(2) holder_is_open[OF assms] by blast
  assume "is_open os d"
  then obtain p where p: "d \<in> set (os_fds os p)" by (auto simp: is_open_def)
  then obtain l where l: "locks p = Some l" "lo_file l = d" using D(3)[of p] by (cases "locks p") auto
  then show "d < os_next os" using D(1)[OF l(1)] D(8)[of d] by (auto simp: holder_ok_def)
qed

text \<open>Closing it: nothing that a lock rests on has changed, whatever was written to its inode
  while nobody owned it.\<close>

lemma inv_open_close:
  assumes inv: "lock_inv (os, locks)" and p: "locks p = None" and op: "opened os p path d i os1"
    and os2: "os2 = os1\<lparr>os_data := da, os_flock := fl\<rparr>"
    and fl: "\<And>i. fl i = Some d \<or> fl i = os_flock os i" "\<And>i. os_flock os i \<noteq> None \<Longrightarrow> fl i = os_flock os i"
    and da: "\<And>i. os_flock os i \<noteq> None \<Longrightarrow> da i = os_data os1 i"
  shows "lock_inv (sys_close os2 p d, locks)"
proof -
  note D = lock_invD[OF inv]
  note i = openedD[OF op]
  let ?c = "sys_close os2 p d"
  have fds: "os_fds ?c = os_fds os" "os_procs ?c = os_procs os" "os_files ?c = os_files os1"
      "os_next ?c = os_next os1" "os_data ?c = da"
    by (simp_all add: sys_close_def os2 i(4,5))
  have open_eq: "is_open (os2\<lparr>os_fds := (os_fds os2)(p := remove1 d (os_fds os2 p))\<rparr>) = is_open os"
    by (rule ext) (auto simp: is_open_def os2 i(4,5))
  have closed: "\<not> is_open os d" using held_open(2)[OF inv, of d] i(11) by auto
  have flock: "os_flock ?c = os_flock os"
  proof
    fix j
    have "os_flock ?c j = (case fl j of None \<Rightarrow> None | Some e \<Rightarrow> if is_open os e then Some e else None)"
      unfolding sys_close_def drop_closed_sel open_eq by (simp add: os2)
    also have "\<dots> = os_flock os j"
      using fl(1)[of j] fl(2)[of j] closed held_open(1)[OF inv, of j] by (cases "os_flock os j") auto
    finally show "os_flock ?c j = os_flock os j" .
  qed
  have desc: "os_desc ?c e = (if is_open os e then os_desc os e else None)" for e
    unfolding sys_close_def drop_closed_sel open_eq using closed i(7)[of e] by (auto simp: os2)
  show ?thesis
  proof (rule lock_invI)
    fix q l assume q: "locks q = Some l"
    have h: "holder_ok os q l" by (rule D(1)[OF q])
    have "os_files os1 (lo_path l) = os_files os (lo_path l)"
      using h i(3,8,9) by (cases "lo_path l = path") (auto simp: holder_ok_def)
    moreover have "da j = os_data os j" if "os_flock os j = Some (lo_file l)" for j
    proof -
      have "os_data os1 j = os_data os j"
        using h D(7)[of "lo_path l" j] D(2)[OF that] i(9,10) by (auto simp: holder_ok_def)
      then show ?thesis using da[of j] that by simp
    qed
    ultimately show "holder_ok ?c q l"
      using h holder_is_open[OF inv q] by (intro holder_cong[OF h]) (auto simp: fds desc flock holder_ok_def)
  next
    show "j < os_next ?c" if "os_files ?c q = Some j" for q j
      using that i(3,8,12,13) D(7)[of q j] unfolding fds by (cases "q = path") auto
    show "e < os_next ?c \<and> j < os_next ?c" if "os_desc ?c e = Some j" for e j
      using that D(8)[of e j] i(12) unfolding fds desc by (auto split: if_splits)
    show "q = q'" if "os_files ?c q = Some j" "os_files ?c q' = Some j" for q q' j
      using that i(3,8,9,10) D(7)[of q j] D(7)[of q' j] D(9)[of q j q'] D(9)[of path j q'] D(9)[of path j q] unfolding fds
      by (cases "q = path"; cases "q' = path") auto
    show "os_desc ?c e = Some j \<and> (\<exists>q l. locks q = Some l \<and> lo_file l = e)" if "os_flock ?c j = Some e" for j e
      using that D(2)[of j e] held_open(1)[OF inv, of j e] unfolding flock desc by simp
    show "os_fds ?c q = (case locks q of None \<Rightarrow> [] | Some l \<Rightarrow> [lo_file l])" for q unfolding fds by (rule D(3))
    show "q = q'" if "e \<in> set (os_fds ?c q)" "e \<in> set (os_fds ?c q')" for q q' e using that unfolding fds by (rule D(4))
    show "q \<in> set (os_procs ?c)" if "os_fds ?c q \<noteq> []" for q using that unfolding fds by (rule D(5))
    show "0 < q \<and> q < 2 ^ 63" if "q \<in> set (os_procs ?c)" for q using that unfolding fds by (rule D(6))
  qed
qed

lemma inv_locked:
  assumes inv: "lock_inv (os, locks)" and p: "locks p = None" "p \<in> set (os_procs os)"
    and op: "opened os p path d i os1" and free: "os_flock os i = None"
    and os3: "os3 = os1\<lparr>os_flock := (os_flock os)(i := Some d), os_data := (os_data os1)(i := lock_text p time)\<rparr>"
  shows "lock_inv (os3, locks(p := Some \<lparr>lo_path = path, lo_file = d, lo_owned = True\<rparr>))"
proof -
  note D = lock_invD[OF inv] and i = openedD[OF op]
  have fresh: "\<not> is_open os d" using held_open(2)[OF inv, of d] i(11) by auto
  have notin: "d \<notin> set (os_fds os q)" for q
    using fresh D(5)[of q] by (cases "os_fds os q = []") (auto simp: is_open_def)
  have empty: "os_fds os p = []" using D(3)[of p] p(1) by simp
  show ?thesis
  proof (rule lock_invI)
    fix q l assume q: "(locks(p := Some \<lparr>lo_path = path, lo_file = d, lo_owned = True\<rparr>)) q = Some l"
    show "holder_ok os3 q l"
    proof (cases "q = p")
      case True
      then show ?thesis using q D(6)[OF p(2)] i(2,3,4) by (auto simp: holder_ok_def os3 owner_lock_text)
    next
      case False
      with q have l: "locks q = Some l" by simp
      have h: "holder_ok os q l" by (rule D(1)[OF l])
      have "lo_file l \<noteq> d" using h notin[of q] by (auto simp: holder_ok_def)
      moreover have "j \<noteq> i" if "os_flock os j = Some (lo_file l)" for j using that free by auto
      moreover have "os_data os1 j = os_data os j" if "os_flock os j = Some (lo_file l)" for j
        using h D(7)[of "lo_path l" j] D(2)[OF that] i(9,10) by (auto simp: holder_ok_def)
      moreover have "os_files os1 (lo_path l) = os_files os (lo_path l)"
        using h i(3,8,9) by (cases "lo_path l = path") (auto simp: holder_ok_def)
      ultimately show ?thesis
        using h False i(4,7) by (intro holder_cong[OF h]) (auto simp: os3 holder_ok_def)
    qed
  next
    fix j e assume a: "os_flock os3 j = Some e"
    show "os_desc os3 e = Some j \<and> (\<exists>q l. (locks(p := Some \<lparr>lo_path = path, lo_file = d, lo_owned = True\<rparr>)) q = Some l \<and> lo_file l = e)"
    proof (cases "j = i")
      case True
      then show ?thesis using a i(2) by (auto simp: os3)
    next
      case False
      then have f: "os_flock os j = Some e" using a by (simp add: os3)
      then obtain q l where ql: "locks q = Some l" "lo_file l = e" and dj: "os_desc os e = Some j" using D(2) by blast
      have "e \<noteq> d" using held_open(1)[OF inv f] fresh by auto
      moreover have "q \<noteq> p" using ql(1) p(1) by auto
      ultimately show ?thesis using ql dj i(7) by (auto simp: os3)
    qed
  next
    show "os_fds os3 q = (case (locks(p := Some \<lparr>lo_path = path, lo_file = d, lo_owned = True\<rparr>)) q of
        None \<Rightarrow> [] | Some l \<Rightarrow> [lo_file l])" for q
      using D(3)[of q] empty i(4) by (simp add: os3)
    show "q = q'" if "e \<in> set (os_fds os3 q)" "e \<in> set (os_fds os3 q')" for q q' e
      using that D(4)[of e q q'] notin i(4) empty by (auto simp: os3 split: if_splits)
    show "q \<in> set (os_procs os3)" if "os_fds os3 q \<noteq> []" for q
      using that D(5)[of q] p(2) i(4,5) by (auto simp: os3 split: if_splits)
    show "0 < q \<and> q < 2 ^ 63" if "q \<in> set (os_procs os3)" for q using that D(6) i(5) by (simp add: os3)
    show "j < os_next os3" if "os_files os3 q = Some j" for q j
      using that i(3,8,12,13) D(7)[of q j] by (cases "q = path") (auto simp: os3)
    show "e < os_next os3 \<and> j < os_next os3" if "os_desc os3 e = Some j" for e j
      using that D(8)[of e j] i(1,2,7,12,13) by (cases "e = d") (auto simp: os3)
    show "q = q'" if "os_files os3 q = Some j" "os_files os3 q' = Some j" for q q' j
      using that i(3,8,9,10) D(7)[of q j] D(7)[of q' j] D(9)[of q j q'] D(9)[of path j q'] D(9)[of path j q]
      by (cases "q = path"; cases "q' = path") (auto simp: os3)
  qed
qed

definition path_free :: "(pid \<Rightarrow> lock option) \<Rightarrow> string \<Rightarrow> bool" where
  "path_free locks path \<longleftrightarrow> (\<forall>q m. locks q = Some m \<longrightarrow> lo_path m \<noteq> path)"

text \<open>A busy lock has a live owner whose pid is in the file.\<close>

lemma busy_owner:
  assumes inv: "lock_inv (os, locks)" and op: "opened os p path d i os1" and busy: "os_flock os i = Some e"
  shows "os_files os path = Some i \<and> (\<exists>q m. locks q = Some m \<and> lo_path m = path \<and> q \<in> set (os_procs os) \<and>
    owner_pid (os_data os i) = Some (int q))"
proof -
  note D = lock_invD[OF inv] and i = openedD[OF op]
  obtain q m where m: "locks q = Some m" "lo_file m = e" and de: "os_desc os e = Some i" using D(2)[OF busy] by blast
  have h: "os_files os (lo_path m) = Some i" "owner_pid (os_data os i) = Some (int q)" "lo_file m \<in> set (os_fds os q)"
    using D(1)[OF m(1)] de m(2) by (auto simp: holder_ok_def)
  have "os_files os path = Some i" using i(9,10) D(7)[OF h(1)] by auto
  moreover have "lo_path m = path" using D(9)[OF h(1) calculation] .
  moreover have "q \<in> set (os_procs os)" by (rule D(5)) (use h(3) in auto)
  ultimately show ?thesis using m(1) h(2) by blast
qed

lemma owner_alive_holder:
  "os_files os path = Some i \<Longrightarrow> owner_pid (os_data os i) = Some (int q) \<Longrightarrow> q \<in> set (os_procs os) \<Longrightarrow>
   owner_alive True os path = (True, False)"
  by (simp add: owner_alive_def pid_alive_def)

lemma close_view:
  "os_files (sys_close os p d) = os_files os" "os_data (sys_close os p d) = os_data os"
  "os_procs (sys_close os p d) = os_procs os"
  by (simp_all add: sys_close_def)

lemma write_content_cases:
  "os_desc os d = Some i \<Longrightarrow> write_content w os d p time =
     (w = WritesAll, os\<lparr>os_data := (case w of TruncateFails \<Rightarrow> os_data os
        | WritesPart n \<Rightarrow> (os_data os)(i := take n (lock_text p time))
        | WritesAll \<Rightarrow> (os_data os)(i := lock_text p time))\<rparr>)"
  by (cases w) (simp_all add: write_content_def sys_write_def)

lemma try_acquire_inv:
  assumes inv: "lock_inv (os, locks)" and p: "locks p = None" "p \<in> set (os_procs os)"
    and r: "try_acquire env os p path = (r, os1)"
  shows "(case r of
      Inr l \<Rightarrow> lock_inv (os1, locks(p := Some l)) \<and> lo_path l = path
    | Inl e \<Rightarrow> lock_inv (os1, locks) \<and> (e = LockBusy \<longrightarrow> owner_alive True os1 path = (True, False) \<and> \<not> path_free locks path) \<and>
        (path_free locks path \<longrightarrow> \<not> ae_open_ok env \<or> ae_flock_err env \<or> ae_write env \<noteq> WritesAll))"
proof (cases "ae_open_ok env")
  case False
  then show ?thesis using r inv by (auto simp: try_acquire_def)
next
  case opens: True
  obtain d osa where oa: "sys_open os p path = (d, osa)" by fastforce
  obtain i where op: "opened os p path d i osa" using open_opened[OF inv oa] by blast
  note i = openedD[OF op]
  have "osa = osa\<lparr>os_data := os_data osa, os_flock := os_flock os\<rparr>" using i(6) by (cases osa) simp
  then have closing: "lock_inv (sys_close osa p d, locks)"
    by (rule inv_open_close[OF inv p(1) op, where fl = "os_flock os" and da = "os_data osa"]) simp_all
  show ?thesis
  proof (cases "ae_flock_err env")
    case True
    then have "r = Inl (LockOther ''flock'')" "os1 = sys_close osa p d"
      using r opens oa by (simp_all add: try_acquire_def)
    then show ?thesis using closing True by simp
  next
    case noerr: False
    show ?thesis
    proof (cases "os_flock os i")
      case (Some e)
      have "e \<noteq> d" using held_open(1)[OF inv, of i e] held_open(2)[OF inv, of d] Some i(11) by auto
      then have "sys_flock osa d = (False, osa)" using i(2,6) Some by (simp add: sys_flock_def)
      then have res: "r = Inl LockBusy" "os1 = sys_close osa p d"
        using r opens noerr oa by (simp_all add: try_acquire_def)
      from busy_owner[OF inv op Some] obtain q m where q: "os_files os path = Some i" "locks q = Some m" "lo_path m = path"
          "q \<in> set (os_procs os)" "owner_pid (os_data os i) = Some (int q)" by blast
      have "owner_alive True os1 path = (True, False)"
        using q i(3,5,9) by (intro owner_alive_holder[of _ _ i q]) (auto simp: res close_view)
      then show ?thesis using res closing q(2,3) by (auto simp: path_free_def)
    next
      case None
      then have fl: "sys_flock osa d = (True, osa\<lparr>os_flock := (os_flock os)(i := Some d)\<rparr>)"
        using i(2,6) by (simp add: sys_flock_def)
      show ?thesis
      proof (cases "ae_write env = WritesAll")
        case True
        then have "r = Inr \<lparr>lo_path = path, lo_file = d, lo_owned = True\<rparr>"
          "os1 = osa\<lparr>os_flock := (os_flock os)(i := Some d), os_data := (os_data osa)(i := lock_text p (ae_time env))\<rparr>"
          using r opens noerr oa fl i(2) by (simp_all add: try_acquire_def write_content_cases[of _ d i])
        then show ?thesis using inv_locked[OF inv p op None] by simp
      next
        case False
        let ?da = "case ae_write env of TruncateFails \<Rightarrow> os_data osa | WritesPart n \<Rightarrow> (os_data osa)(i := take n (lock_text p (ae_time env)))
            | WritesAll \<Rightarrow> (os_data osa)(i := lock_text p (ae_time env))"
        let ?fl = "unlocked d ((os_flock os)(i := Some d))"
        have res: "r = Inl (LockOther ''write'') \<and> os1 = sys_close (osa\<lparr>os_data := ?da, os_flock := ?fl\<rparr>) p d"
          using r opens noerr oa fl i(2) False
          by (cases "ae_write env") (simp_all add: try_acquire_def write_content_cases[of _ d i] sys_funlock_def)
        have keep: "?fl j = os_flock os j" for j
          using None held_open(1)[OF inv, of j d] held_open(2)[OF inv, of d] i(11) by (auto simp: unlocked_def)
        have "lock_inv (os1, locks)" unfolding conjunct2[OF res]
          by (rule inv_open_close[OF inv p(1) op refl])
            (use keep None in \<open>auto split: write_fate.splits\<close>)
        then show ?thesis using res False by simp
      qed
    qed
  qed
qed

lemma acquire_inv:
  assumes inv: "lock_inv (os, locks)" and p: "locks p = None" "p \<in> set (os_procs os)"
    and env: "\<forall>n. ae_read_ok (env n)" and r: "acquire mk env os p path = (r, os1)"
  shows "(case r of
      Inr l \<Rightarrow> lock_inv (os1, locks(p := Some l)) \<and> lo_path l = path
    | Inl e \<Rightarrow> lock_inv (os1, locks) \<and>
        (path_free locks path \<longrightarrow> \<not> mk \<or> \<not> ae_open_ok (env 0) \<or> ae_flock_err (env 0) \<or> ae_write (env 0) \<noteq> WritesAll))"
proof (cases mk)
  case True
  obtain r0 os0 where t: "try_acquire (env 0) os p path = (r0, os0)" by fastforce
  note T = try_acquire_inv[OF inv p t]
  have "acquire mk env os p path = (if r0 = Inl LockBusy then Inl ErrLockHeld else r0, os0)"
    using T env True t by (auto simp: acquire_def acquire_loop.simps[of _ _ _ _ 0] split: sum.splits)
  then show ?thesis using r T by (auto split: sum.splits if_splits)
qed (use assms in \<open>auto simp: acquire_def\<close>)

text \<open>Letting go, by release or by death.\<close>

lemma inv_drop:
  assumes inv: "lock_inv (os, locks)" and ps: "set ps = set (os_procs os) \<or> set ps = set (os_procs os) - {p}"
    and os0: "os0 = os\<lparr>os_procs := ps, os_fds := (os_fds os)(p := [])\<rparr>"
  shows "lock_inv (drop_closed os0, locks(p := None))"
proof -
  note D = lock_invD[OF inv]
  let ?c = "drop_closed os0"
  have sel: "os_files os0 = os_files os" "os_data os0 = os_data os" "os_fds os0 = (os_fds os)(p := [])"
    "os_procs os0 = ps" "os_next os0 = os_next os"
    by (simp_all add: os0)
  have open_iff: "is_open os0 d \<longleftrightarrow> (\<exists>q. q \<noteq> p \<and> d \<in> set (os_fds os q))" for d
  proof -
    have "q \<in> set ps" if "q \<noteq> p" "d \<in> set (os_fds os q)" for q
      using that ps D(5)[of q] by (cases "os_fds os q = []") auto
    then show ?thesis by (auto simp: is_open_def os0 split: if_splits)
  qed
  have flock: "os_flock ?c i = (case os_flock os i of None \<Rightarrow> None | Some d \<Rightarrow> if is_open os0 d then Some d else None)" for i
    unfolding drop_closed_sel by (simp add: os0)
  have desc: "os_desc ?c d = (if is_open os0 d then os_desc os d else None)" for d
    unfolding drop_closed_sel by (simp add: os0)
  show ?thesis
  proof (rule lock_invI)
    fix q l assume "(locks(p := None)) q = Some l"
    then have q: "locks q = Some l" "q \<noteq> p" by (auto split: if_splits)
    have h: "holder_ok os q l" by (rule D(1)[OF q(1)])
    then have "is_open os0 (lo_file l)" unfolding open_iff using q(2) by (auto simp: holder_ok_def)
    then show "holder_ok ?c q l"
      using h q(2) by (intro holder_cong[OF h]) (auto simp: sel desc flock holder_ok_def)
  next
    fix j e assume a: "os_flock ?c j = Some e"
    then have f: "os_flock os j = Some e" and o: "is_open os0 e"
      unfolding flock by (auto split: option.splits if_splits)
    obtain q l where ql: "locks q = Some l" "lo_file l = e" and dj: "os_desc os e = Some j" using D(2)[OF f] by blast
    have "e \<in> set (os_fds os q)" using D(1)[OF ql(1)] ql(2) by (simp add: holder_ok_def)
    then have "q \<noteq> p" using o D(4)[of e] unfolding open_iff by blast
    then show "os_desc ?c e = Some j \<and> (\<exists>q l. (locks(p := None)) q = Some l \<and> lo_file l = e)"
      using ql dj o by (auto simp: desc)
  next
    show "os_fds ?c q = (case (locks(p := None)) q of None \<Rightarrow> [] | Some l \<Rightarrow> [lo_file l])" for q
      using D(3)[of q] by (simp add: sel)
    show "q = q'" if "e \<in> set (os_fds ?c q)" "e \<in> set (os_fds ?c q')" for q q' e
      using that D(4)[of e q q'] by (auto simp: sel split: if_splits)
    show "q \<in> set (os_procs ?c)" if "os_fds ?c q \<noteq> []" for q
      using that D(5)[of q] ps by (auto simp: sel split: if_splits)
    show "0 < q \<and> q < 2 ^ 63" if "q \<in> set (os_procs ?c)" for q using that D(6)[of q] ps by (auto simp: sel)
    show "j < os_next ?c" if "os_files ?c q = Some j" for q j using that D(7) by (simp add: sel)
    show "e < os_next ?c \<and> j < os_next ?c" if "os_desc ?c e = Some j" for e j
      using that D(8)[of e j] by (auto simp: sel desc split: if_splits)
    show "q = q'" if "os_files ?c q = Some j" "os_files ?c q' = Some j" for q q' j
      using that D(9)[of q j q'] by (simp add: sel)
  qed
qed

text \<open>The lock file can be read: then the reclaiming of stale locks takes no live owner's.\<close>

fun readable :: "lock_op \<Rightarrow> bool" where
  "readable (LockAcquire mk env p path) = (\<forall>n. ae_read_ok (env n))"
| "readable _ = True"

lemma lock_step_inv:
  assumes "lock_inv (os, locks)" "readable op"
  shows "lock_inv (lock_step (os, locks) op)"
proof (cases op)
  case (LockStart p)
  note D = lock_invD[OF assms(1)]
  have "lock_inv (sys_start os p, locks)" if "p \<notin> set (os_procs os)" "0 < p" "p < 2 ^ 63"
  proof (rule lock_invI)
    show "holder_ok (sys_start os p) q l" if "locks q = Some l" for q l
      using D(1)[OF that] by (simp add: holder_ok_def sys_start_def)
    show "e \<in> set (os_fds (sys_start os p) q) \<Longrightarrow> e \<in> set (os_fds (sys_start os p) q') \<Longrightarrow> q = q'" for e q q'
      using D(4)[of e q q'] by (simp add: sys_start_def)
    show "os_files (sys_start os p) q = Some j \<Longrightarrow> os_files (sys_start os p) q' = Some j \<Longrightarrow> q = q'" for q q' j
      using D(9)[of q j q'] by (simp add: sys_start_def)
  qed (use that D(2,3,5,6,7,8) in \<open>auto simp: sys_start_def\<close>)
  then show ?thesis using assms(1) by (auto simp: LockStart)
next
  case (LockAcquire mk env p path)
  obtain r os1 where r: "acquire mk env os p path = (r, os1)" by fastforce
  show ?thesis
  proof (cases "p \<notin> set (os_procs os) \<or> locks p \<noteq> None")
    case False
    then have "p \<in> set (os_procs os)" "locks p = None" by auto
    from acquire_inv[OF assms(1) this(2,1) _ r] assms(2) False show ?thesis
      by (auto simp: LockAcquire r split: sum.splits)
  qed (use assms(1) in \<open>auto simp: LockAcquire\<close>)
next
  case (LockRelease p)
  note D = lock_invD[OF assms(1)]
  show ?thesis
  proof (cases "locks p")
    case None
    then have "locks(p := None) = locks" by auto
    then show ?thesis using assms(1) None by (simp add: LockRelease lock_release_def)
  next
    case (Some l)
    have "os_fds os p = [lo_file l]" "lo_owned l" using D(3)[of p] D(1)[OF Some] Some by (auto simp: holder_ok_def)
    moreover have "os\<lparr>os_fds := (os_fds os)(p := [])\<rparr> = os\<lparr>os_procs := os_procs os, os_fds := (os_fds os)(p := [])\<rparr>"
      by (cases os) simp
    ultimately show ?thesis
      using inv_drop[OF assms(1), of "os_procs os" p] by (simp add: LockRelease lock_release_def sys_close_def Some)
  qed
next
  case (LockDie p)
  show ?thesis
    using inv_drop[OF assms(1), of "removeAll p (os_procs os)" p] by (simp add: LockDie sys_exit_def)
qed

lemma boot_lock_inv: "lock_inv (boot_os, Map.empty)"
  by (rule lock_invI) (simp_all add: boot_os_def)

lemma lock_run_inv:
  "lock_inv x \<Longrightarrow> \<forall>op\<in>set ops. readable op \<Longrightarrow> lock_inv (foldl lock_step x ops)"
proof (induction ops arbitrary: x)
  case (Cons op ops)
  then have "lock_inv (lock_step x op)" by (cases x) (simp add: lock_step_inv)
  with Cons show ?case by simp
qed simp


section \<open>After an upgrade\<close>

text \<open>A process that has the lock, by whatever way it got the description.\<close>

definition holds :: "os_state \<Rightarrow> pid \<Rightarrow> desc \<Rightarrow> bool" where
  "holds os p d \<longleftrightarrow> p \<in> set (os_procs os) \<and> d \<in> set (os_fds os p) \<and>
     (\<exists>i. os_desc os d = Some i \<and> os_flock os i = Some d)"

lemma holds_close:
  assumes "holds os q d" "e \<notin> set (os_fds os q)" "e \<noteq> d"
  shows "holds (sys_close os p e) q d"
proof -
  have "is_open (os\<lparr>os_fds := (os_fds os)(p := remove1 e (os_fds os p))\<rparr>) d"
    using assms by (auto simp: is_open_def holds_def intro!: bexI[of _ q] simp: in_set_remove1)
  then show ?thesis using assms by (auto simp: holds_def sys_close_def drop_closed_sel in_set_remove1)
qed

text \<open>A stale pid in the file: the first attempt reclaims it, the second gets a new file.\<close>

lemma acquire_reclaims:
  assumes path: "os_files os path = Some i" "os_desc os d = Some i" "os_flock os i = Some d"
    and owner: "owner_pid (os_data os i) = Some (int p)" "p \<notin> set (os_procs os)"
    and fresh: "\<And>j e. os_flock os j = Some e \<Longrightarrow> j < os_next os" "\<And>q e. e \<in> set (os_fds os q) \<Longrightarrow> e < os_next os" "i < os_next os"
    and q: "holds os q d" "r \<noteq> q" "r \<in> set (os_procs os)"
    and env: "\<forall>n. ae_open_ok (env n) \<and> \<not> ae_flock_err (env n) \<and> ae_write (env n) = WritesAll \<and> ae_read_ok (env n) \<and> ae_remove_ok (env n)"
  shows "\<exists>m os3. acquire True env os r path = (Inr m, os3) \<and> lo_path m = path \<and> lo_file m \<noteq> d \<and>
    holds os3 q d \<and> holds os3 r (lo_file m)"
proof -
  let ?n = "os_next os"
  have d: "d < ?n" using q(1) fresh(2)[of d q] by (simp add: holds_def)
  define os1 where "os1 = os\<lparr>os_desc := (os_desc os)(?n := Some i), os_fds := (os_fds os)(r := ?n # os_fds os r), os_next := Suc ?n\<rparr>"
  have opn: "sys_open os r path = (?n, os1)" using path(1) by (simp add: sys_open_def os1_def Let_def)
  have lck: "sys_flock os1 ?n = (False, os1)" using path(3) d by (simp add: sys_flock_def os1_def)
  define os2 where "os2 = sys_close os1 r ?n"
  have one: "try_acquire (env 0) os r path = (Inl LockBusy, os2)"
    using env by (simp add: try_acquire_def opn lck os2_def)
  have view: "os_files os2 = os_files os" "os_data os2 = os_data os" "os_procs os2 = os_procs os"
      "os_fds os2 = os_fds os" "os_next os2 = Suc ?n"
    by (auto simp: os2_def sys_close_def os1_def)
  have dead: "\<not> fst (owner_alive (ae_read_ok (env 0)) os2 path)"
    using env path(1) owner by (simp add: owner_alive_def view pid_alive_def)
  have "holds os1 q d" using q d by (auto simp: holds_def os1_def)
  moreover have "?n \<notin> set (os_fds os1 q)" using fresh(2)[of ?n q] q(2) by (auto simp: os1_def)
  ultimately have held: "holds os2 q d" unfolding os2_def using d by (intro holds_close) auto
  have free: "os_flock os2 (Suc ?n) = None"
    using fresh(1)[of "Suc ?n"] by (cases "os_flock os (Suc ?n)") (auto simp: os2_def sys_close_def drop_closed_sel os1_def)
  let ?f = "Suc (Suc ?n)"
  define os3 where "os3 = (sys_remove os2 path)\<lparr>os_files := (os_files os2)(path := Some (Suc ?n)),
      os_data := (os_data os2)(Suc ?n := []), os_desc := (os_desc os2)(?f := Some (Suc ?n)),
      os_fds := (os_fds os2)(r := ?f # os_fds os2 r), os_next := Suc ?f\<rparr>"
  have opn2: "sys_open (sys_remove os2 path) r path = (?f, os3)"
    by (simp add: sys_open_def sys_remove_def view os3_def Let_def)
  define os4 where "os4 = os3\<lparr>os_flock := (os_flock os2)(Suc ?n := Some ?f)\<rparr>"
  have lck2: "sys_flock os3 ?f = (True, os4)"
    using free by (simp add: sys_flock_def os3_def os4_def sys_remove_def)
  define os5 where "os5 = os4\<lparr>os_data := (os_data os4)(Suc ?n := lock_text r (ae_time (env 1)))\<rparr>"
  have two: "try_acquire (env 1) (sys_remove os2 path) r path = (Inr \<lparr>lo_path = path, lo_file = ?f, lo_owned = True\<rparr>, os5)"
  proof -
    have "write_content WritesAll os4 ?f r (ae_time (env 1)) = (True, os5)"
      by (simp add: write_content_def sys_write_def os5_def os4_def os3_def)
    then show ?thesis using env by (simp add: try_acquire_def opn2 lck2)
  qed
  have "acquire True env os r path = (Inr \<lparr>lo_path = path, lo_file = ?f, lo_owned = True\<rparr>, os5)"
  proof -
    have "acquire_loop env (sys_remove os2 path) r path (Suc 0) = (Inr \<lparr>lo_path = path, lo_file = ?f, lo_owned = True\<rparr>, os5)"
      using two by (subst acquire_loop.simps) simp
    then show ?thesis using env dead by (simp add: acquire_def acquire_loop.simps[of _ _ _ _ 0] one)
  qed
  moreover have "holds os5 r ?f"
    using q(3) by (auto simp: holds_def os5_def os4_def os3_def sys_remove_def view)
  moreover have "holds os5 q d"
  proof -
    obtain j where j: "os_desc os2 d = Some j" "os_flock os2 j = Some d" "q \<in> set (os_procs os2)" "d \<in> set (os_fds os2 q)"
      using held by (auto simp: holds_def)
    then have "j \<noteq> Suc ?n" using free by auto
    then have "os_desc os5 d = Some j" "os_flock os5 j = Some d" using j(1,2) d by (simp_all add: os5_def os4_def os3_def)
    moreover have "os_procs os5 = os_procs os2" "os_fds os5 q = os_fds os2 q"
      using q(2) by (simp_all add: os5_def os4_def os3_def sys_remove_def)
    ultimately show ?thesis using j(3,4) by (simp add: holds_def)
  qed
  ultimately show ?thesis using d by auto
qed

text \<open>The lock does not survive an upgrade. The descriptor moves to the new daemon and with it the
  lock, but the file still names the old one: once that has retired, the next daemon that starts
  takes the file for stale, removes it and gets a lock of its own, while the new daemon runs.\<close>

theorem takeover_lock_stolen:
  assumes "lock_inv (os, locks)" "locks p = Some l" "locks q = None" "locks r = None"
    and "q \<in> set (os_procs os)" "r \<in> set (os_procs os)" "p \<noteq> q" "p \<noteq> r" "q \<noteq> r"
    and "os' = sys_exit (sys_pass os (lo_file l) q) p" "adopted = lock_adopt (lo_path l) (lo_file l)"
    and "\<forall>n. ae_open_ok (env n) \<and> \<not> ae_flock_err (env n) \<and> ae_write (env n) = WritesAll \<and> ae_read_ok (env n) \<and> ae_remove_ok (env n)"
  shows "holds os' q (lo_file adopted) \<and>
    (\<exists>m os''. acquire True env os' r (lo_path adopted) = (Inr m, os'') \<and> lo_path m = lo_path adopted \<and>
      lo_file m \<noteq> lo_file adopted \<and> holds os'' q (lo_file adopted) \<and> holds os'' r (lo_file m))"
proof -
  note D = lock_invD[OF assms(1)]
  let ?d = "lo_file l"
  obtain i where i: "os_desc os ?d = Some i" "os_flock os i = Some ?d" "os_files os (lo_path l) = Some i"
      "owner_pid (os_data os i) = Some (int p)"
    using D(1)[OF assms(2)] by (auto simp: holder_ok_def)
  let ?os0 = "(sys_pass os ?d q)\<lparr>os_procs := removeAll p (os_procs os), os_fds := (os_fds (sys_pass os ?d q))(p := [])\<rparr>"
  have os': "os' = drop_closed ?os0" by (simp add: assms(10) sys_exit_def sys_pass_def)
  have sel: "os_files ?os0 = os_files os" "os_desc ?os0 = os_desc os" "os_flock ?os0 = os_flock os" "os_data ?os0 = os_data os"
      "os_next ?os0 = os_next os" "os_procs ?os0 = removeAll p (os_procs os)"
      "os_fds ?os0 = (os_fds os)(q := ?d # os_fds os q, p := [])"
    using assms(7) by (simp_all add: sys_pass_def)
  have "is_open ?os0 ?d" using assms(5,7) by (auto simp: is_open_def sel intro!: bexI[of _ q])
  then have at: "os_desc os' ?d = Some i" "os_flock os' i = Some ?d"
    unfolding os' drop_closed_sel sel by (simp_all add: i)
  have view: "os_files os' = os_files os" "os_data os' = os_data os" "os_next os' = os_next os"
      "os_procs os' = removeAll p (os_procs os)" "os_fds os' = (os_fds os)(q := ?d # os_fds os q, p := [])"
    unfolding os' drop_closed_frame sel by simp_all
  have held: "holds os' q ?d" using assms(5,7) at by (auto simp: holds_def view)
  have small: "e < os_next os'" if "e \<in> set (os_fds os' u)" for u e
  proof -
    have "e = ?d \<or> e \<in> set (os_fds os u)" using that by (auto simp: view split: if_splits)
    moreover have "e < os_next os" if "e \<in> set (os_fds os u)"
    proof (rule held_open(2)[OF assms(1)])
      show "is_open os e" using that D(5)[of u] by (cases "os_fds os u = []") (auto simp: is_open_def)
    qed
    ultimately show ?thesis using D(8)[OF i(1)] by (auto simp: view)
  qed
  have flocks: "j < os_next os'" if "os_flock os' j = Some e" for j e
  proof -
    have "os_flock os j = Some e"
      using that unfolding os' drop_closed_sel sel by (auto split: option.splits if_splits)
    then show ?thesis using D(2)[of j e] D(8)[of e j] by (simp add: view)
  qed
  have "\<exists>m os''. acquire True env os' r (lo_path l) = (Inr m, os'') \<and> lo_path m = lo_path l \<and> lo_file m \<noteq> ?d \<and>
      holds os'' q ?d \<and> holds os'' r (lo_file m)"
    by (rule acquire_reclaims[where p = p, OF _ at _ _ flocks small _ held])
      (use i assms(6,8,9,12) D(8)[OF i(1)] in \<open>simp_all add: view\<close>)
  then show ?thesis using held by (simp add: assms(11) lock_adopt_def)
qed

section \<open>A concrete run\<close>

definition demo_acquire :: "nat \<Rightarrow> acquire_env" where
  "demo_acquire n = \<lparr>ae_open_ok = True, ae_flock_err = False, ae_write = WritesAll, ae_read_ok = True,
     ae_remove_ok = True, ae_time = ''t''\<rparr>"

definition demo_ops :: "lock_op list" where
  "demo_ops = [LockStart 7, LockStart 8, LockStart 9, LockAcquire True demo_acquire 7 ''l'']"

lemma demo_locked:
  "\<exists>os. foldl lock_step (boot_os, Map.empty) demo_ops = (os, [7 \<mapsto> \<lparr>lo_path = ''l'', lo_file = 1, lo_owned = True\<rparr>]) \<and>
     os_procs os = [9, 8, 7]"
  by (simp add: demo_ops_def boot_os_def sys_start_def acquire_def acquire_loop.simps[of _ _ _ _ 0] try_acquire_def
      demo_acquire_def sys_open_def sys_flock_def write_content_def sys_write_def Let_def fun_upd_def)


theorem takeover_lock_stolen_witness:
  "\<exists>os os'' m. acquire True demo_acquire os 9 ''l'' = (Inr m, os'') \<and> holds os'' 8 1 \<and> holds os'' 9 (lo_file m) \<and> lo_file m \<noteq> 1"
proof -
  obtain os where os: "foldl lock_step (boot_os, Map.empty) demo_ops = (os, [7 \<mapsto> \<lparr>lo_path = ''l'', lo_file = 1, lo_owned = True\<rparr>])"
      "os_procs os = [9, 8, 7]" using demo_locked by blast
  have "\<forall>op\<in>set demo_ops. readable op" by (simp add: demo_ops_def demo_acquire_def)
  from lock_run_inv[OF boot_lock_inv this] have inv: "lock_inv (os, [7 \<mapsto> \<lparr>lo_path = ''l'', lo_file = 1, lo_owned = True\<rparr>])"
    using os(1) by simp
  let ?os = "sys_exit (sys_pass os 1 8) 7"
  have "holds ?os 8 (lo_file (lock_adopt ''l'' 1)) \<and>
      (\<exists>m os''. acquire True demo_acquire ?os 9 (lo_path (lock_adopt ''l'' 1)) = (Inr m, os'') \<and>
        lo_path m = lo_path (lock_adopt ''l'' 1) \<and> lo_file m \<noteq> lo_file (lock_adopt ''l'' 1) \<and> holds os'' 8 (lo_file (lock_adopt ''l'' 1)) \<and> holds os'' 9 (lo_file m))"
    by (rule takeover_lock_stolen[OF inv, of 7 "\<lparr>lo_path = ''l'', lo_file = 1, lo_owned = True\<rparr>"])
      (simp_all add: os(2) demo_acquire_def)
  then show ?thesis by (auto simp: lock_adopt_def)
qed

end
