(* ===== verification/Paths.thy ===== *)
theory Paths
  imports Prelude
begin

text \<open>
  The files of a daemon, \<open>pkg/constants/constants.go\<close>, with the two library functions that build
  their paths: \<open>filepath.Clean\<close> and \<open>filepath.Join\<close> of two elements, on Unix.
\<close>

section \<open>Paths of the library\<close>

fun split_on :: "char \<Rightarrow> string \<Rightarrow> string list" where
  "split_on d [] = [[]]"
| "split_on d (c # s) = (if c = d then [] # split_on d s else (c # hd (split_on d s)) # tl (split_on d s))"

fun join_with :: "string \<Rightarrow> string list \<Rightarrow> string" where
  "join_with d [] = []"
| "join_with d [x] = x"
| "join_with d (x # xs) = x @ d @ join_with d xs"

definition clean_seg :: "bool \<Rightarrow> string list \<Rightarrow> string \<Rightarrow> string list" where
  "clean_seg rooted stack seg =
     (if seg = [] \<or> seg = ''.'' then stack
      else if seg = ''..'' then
        (if stack \<noteq> [] \<and> last stack \<noteq> ''..'' then butlast stack else if rooted then stack else stack @ [seg])
      else stack @ [seg])"

definition path_clean :: "string \<Rightarrow> string" where
  "path_clean path =
     (let rooted = (path \<noteq> [] \<and> hd path = CHR ''/'');
          s = join_with ''/'' (foldl (clean_seg rooted) [] (split_on (CHR ''/'') path))
      in if rooted then CHR ''/'' # s else if s = [] then ''.'' else s)"

definition path_join :: "string \<Rightarrow> string \<Rightarrow> string" where
  "path_join a b =
     (if a \<noteq> [] then path_clean (a @ ''/'' @ b) else if b \<noteq> [] then path_clean b else [])"

section \<open>The files of a daemon\<close>

definition SocketFilename :: string where "SocketFilename = ''runbaypty.sock''"

definition DiscoveryFilename :: string where "DiscoveryFilename = ''daemon.json''"

definition LockFilename :: string where "LockFilename = ''daemon.lock''"

definition TokenFilename :: string where "TokenFilename = ''token''"

text \<open>\<open>Home\<close> and \<open>SocketPath\<close>: the environment variables, empty when unset, and the user's home
  directory when the system knows it.\<close>

definition env_home :: "string \<Rightarrow> string option \<Rightarrow> string option" where
  "env_home h user_home =
     (if h \<noteq> [] then Some h else map_option (\<lambda>u. path_join u ''.runbaypty'') user_home)"

definition env_socket_path :: "string \<Rightarrow> string \<Rightarrow> string option \<Rightarrow> string option" where
  "env_socket_path s h user_home =
     (if s \<noteq> [] then Some s else map_option (\<lambda>home. path_join home SocketFilename) (env_home h user_home))"

section \<open>Joining a plain name\<close>

definition plain_name :: "string \<Rightarrow> bool" where
  "plain_name n \<longleftrightarrow> n \<noteq> [] \<and> n \<noteq> ''.'' \<and> n \<noteq> ''..'' \<and> CHR ''/'' \<notin> set n"

lemma split_on_plain: "d \<notin> set n \<Longrightarrow> split_on d n = [n]"
  by (induction n) auto

lemma split_on_nonempty [simp]: "split_on d s \<noteq> []"
  by (cases s) auto

lemma split_on_append: "split_on d (a @ d # b) = split_on d a @ split_on d b"
  by (induction a) auto

lemma join_with_snoc: "join_with d (xs @ [x]) = (if xs = [] then x else join_with d xs @ d @ x)"
proof (induction xs)
  case (Cons y ys)
  then show ?case by (cases ys) auto
qed simp

lemma clean_join_plain:
  assumes "plain_name n"
  shows "\<exists>pre. \<forall>m. plain_name m \<longrightarrow> path_join home m = pre @ m"
proof (cases "home = []")
  case True
  have "path_join home m = [] @ m" if "plain_name m" for m
  proof -
    have "hd m \<noteq> CHR ''/''" using that by (metis plain_name_def hd_in_set)
    then show ?thesis
      using that True by (simp add: path_join_def path_clean_def plain_name_def split_on_plain clean_seg_def)
  qed
  then show ?thesis by blast
next
  case False
  let ?r = "hd home = CHR ''/''"
  let ?st = "foldl (clean_seg ?r) [] (split_on (CHR ''/'') home)"
  let ?pre = "(if ?r then ''/'' else []) @ (if ?st = [] then [] else join_with ''/'' ?st @ ''/'')"
  have "path_join home m = ?pre @ m" if "plain_name m" for m
  proof -
    have "split_on (CHR ''/'') (home @ ''/'' @ m) = split_on (CHR ''/'') home @ [m]"
      using that by (simp add: split_on_append split_on_plain plain_name_def)
    moreover have "clean_seg r st m = st @ [m]" for r st using that by (simp add: clean_seg_def plain_name_def)
    ultimately show ?thesis
      using False that by (cases ?r) (simp_all add: path_join_def path_clean_def join_with_snoc Let_def plain_name_def)
  qed
  then show ?thesis by blast
qed

lemma path_join_inj:
  "plain_name m \<Longrightarrow> plain_name n \<Longrightarrow> path_join home m = path_join home n \<longleftrightarrow> m = n"
  using clean_join_plain[of m home] by auto

end
