(* ===== verification/Daemon.thy ===== *)
theory Daemon
  imports Takeover ProcessLock Paths
begin

text \<open>
  The server of \<open>pkg/daemon/daemon.go\<close> from boot to exit, with the token files and the listener of
  \<open>ws.go\<close>: the order of the steps, what each failure undoes, the accept loops, housekeeping, and
  the shutdown that terminates the sessions.
\<close>

section \<open>Files\<close>

text \<open>\<open>os.WriteFile\<close>, \<open>os.Rename\<close>, and the bind of a Unix socket, which makes its file.\<close>

definition file_make :: "os_state \<Rightarrow> string \<Rightarrow> os_state" where
  "file_make os path =
     (if os_files os path \<noteq> None then os
      else os\<lparr>os_files := (os_files os)(path := Some (os_next os)), os_data := (os_data os)(os_next os := []),
             os_next := Suc (os_next os)\<rparr>)"

definition file_put :: "os_state \<Rightarrow> string \<Rightarrow> string \<Rightarrow> os_state" where
  "file_put os path s = (case os_files os path of None \<Rightarrow> os | Some i \<Rightarrow> os\<lparr>os_data := (os_data os)(i := s)\<rparr>)"

definition save_file :: "write_fate \<Rightarrow> os_state \<Rightarrow> string \<Rightarrow> string \<Rightarrow> bool \<times> os_state" where
  "save_file w os path s =
     (case w of
        TruncateFails \<Rightarrow> (False, os)
      | WritesPart n \<Rightarrow> (False, file_put (file_make os path) path (take n s))
      | WritesAll \<Rightarrow> (True, file_put (file_make os path) path s))"

definition file_rename :: "os_state \<Rightarrow> string \<Rightarrow> string \<Rightarrow> os_state" where
  "file_rename os a b = os\<lparr>os_files := (os_files os)(b := os_files os a, a := None)\<rparr>"

definition file_text :: "os_state \<Rightarrow> string \<Rightarrow> string option" where
  "file_text os path = map_option (os_data os) (os_files os path)"

definition sock_bind :: "bool \<Rightarrow> os_state \<Rightarrow> string \<Rightarrow> os_state option" where
  "sock_bind ok os path = (if ok \<and> os_files os path = None then Some (file_make os path) else None)"

section \<open>Options and the server\<close>

record options =
  dp_socket_path :: string
  dp_home_dir :: string
  dp_max_sessions :: int
  dp_ring_total_bytes :: int
  dp_ws_port :: int
  dp_retention_ttl :: int
  dp_version :: string
  dp_adopted :: "adopted option"

record discovery =
  di_socket_path :: string
  di_pid :: nat
  di_version :: string
  di_protocol_version :: int
  di_ws_port :: nat
  di_token_path :: string
  di_token_ro_path :: string

definition DefaultRetentionTTL :: int where
  "DefaultRetentionTTL = 10 * 60 * 1000"

definition tokenROFilename :: string where
  "tokenROFilename = TokenFilename @ ''.ro''"

text \<open>\<open>New\<close>: the paths from the environment when they are not given.\<close>

definition new_server :: "string option \<Rightarrow> string option \<Rightarrow> options \<Rightarrow> string + options \<times> server" where
  "new_server sock_env home_env opts =
     (case (if dp_socket_path opts = [] then sock_env else Some (dp_socket_path opts)) of
        None \<Rightarrow> Inl ''resolve socket path''
      | Some sock \<Rightarrow>
          (case (if dp_home_dir opts = [] then home_env else Some (dp_home_dir opts)) of
             None \<Rightarrow> Inl ''resolve home''
           | Some home \<Rightarrow>
               Inr (opts\<lparr>dp_socket_path := sock, dp_home_dir := home,
                      dp_retention_ttl := (if dp_retention_ttl opts \<le> 0 then DefaultRetentionTTL else dp_retention_ttl opts)\<rparr>,
                    \<lparr>sv_reg = set_ring_total_cap (new_registry (dp_max_sessions opts)) (dp_ring_total_bytes opts),
                     sv_bus = new_event_bus, sv_version = dp_version opts,
                     sv_ws_tokens = \<lparr>tk_control = [], tk_read_only = []\<rparr>, sv_kills = [], sv_handovers = []\<rparr>)))"

section \<open>Boot\<close>

text \<open>
  What the steps of a boot meet: whether each call of the system succeeds, the entropy of the
  tokens, and the address the WebSocket port was bound at (loopback or not, and the port).
\<close>

record serve_env =
  sx_mkdir_ok :: bool
  sx_lock_mkdir_ok :: bool
  sx_acquire :: "nat \<Rightarrow> acquire_env"
  sx_reopen :: "string \<Rightarrow> string + byte list"
  sx_now :: int
  sx_remove_ok :: bool
  sx_listen_ok :: bool
  sx_chmod_ok :: bool
  sx_entropy :: "(byte list \<times> byte list) option"
  sx_token_write :: write_fate
  sx_token_ro_write :: write_fate
  sx_ws_bound :: "(bool \<times> nat) option"
  sx_disc_write :: write_fate
  sx_rename_ok :: bool

definition take_lock :: "serve_env \<Rightarrow> options \<Rightarrow> os_state \<Rightarrow> pid \<Rightarrow> (err + lock) \<times> os_state" where
  "take_lock env opts os p =
     (case Option.bind (dp_adopted opts) (\<lambda>ad. map_option (lock_adopt (ad_lock_path ad)) (ad_lock_file ad)) of
        Some l \<Rightarrow> (Inr l, os)
      | None \<Rightarrow>
          (case acquire (sx_lock_mkdir_ok env) (sx_acquire env) os p (path_join (dp_home_dir opts) LockFilename) of
             (Inr l, os1) \<Rightarrow> (Inr l, os1)
           | (Inl ErrLockHeld, os1) \<Rightarrow> (Inl (Coded LockHeld), os1)
           | (Inl _, os1) \<Rightarrow> (Inl (OtherErr ''acquire lock''), os1)))"

text \<open>The stale file goes, the socket is bound, and its mode is set.\<close>

definition open_socket :: "serve_env \<Rightarrow> string \<Rightarrow> os_state \<Rightarrow> err option \<times> os_state" where
  "open_socket env sock os =
     (if os_files os sock \<noteq> None \<and> \<not> sx_remove_ok env then (Some (OtherErr ''remove stale socket''), os)
      else
        let os1 = (if os_files os sock \<noteq> None then sys_remove os sock else os)
        in (case sock_bind (sx_listen_ok env) os1 sock of
              None \<Rightarrow> (Some (OtherErr ''listen''), os1)
            | Some os2 \<Rightarrow>
                if \<not> sx_chmod_ok env then (Some (OtherErr ''chmod socket''), sys_remove os2 sock) else (None, os2)))"

definition hex_text :: "byte list \<Rightarrow> string" where
  "hex_text bs = concat (map (\<lambda>b. [hex_digit (unat b div 16), hex_digit (unat b mod 16)]) bs)"

definition newline :: char where
  "newline = char_of (10 :: nat)"

definition mint_tokens :: "serve_env \<Rightarrow> string \<Rightarrow> os_state \<Rightarrow> (err + tokens) \<times> os_state" where
  "mint_tokens env home os =
     (case sx_entropy env of
        None \<Rightarrow> (Inl (OtherErr ''token entropy''), os)
      | Some (b1, b2) \<Rightarrow>
          (case save_file (sx_token_write env) os (path_join home TokenFilename) (hex_text b1 @ [newline]) of
             (False, os1) \<Rightarrow> (Inl (OtherErr ''write control token''), os1)
           | (True, os1) \<Rightarrow>
               (case save_file (sx_token_ro_write env) os1 (path_join home tokenROFilename) (hex_text b2 @ [newline]) of
                  (False, os2) \<Rightarrow> (Inl (OtherErr ''write read-only token''), os2)
                | (True, os2) \<Rightarrow> (Inr \<lparr>tk_control = hex_text b1, tk_read_only = hex_text b2\<rparr>, os2))))"

text \<open>\<open>serveWS\<close> up to its \<open>ready\<close>: the port is refused when it is not on the loopback.\<close>

definition bind_ws :: "serve_env \<Rightarrow> err + nat" where
  "bind_ws env =
     (case sx_ws_bound env of
        None \<Rightarrow> Inl (OtherErr ''ws listen'')
      | Some (loopback, port) \<Rightarrow> if \<not> loopback then Inl (OtherErr ''ws listener bound non-loopback'') else Inr port)"

definition start_ws :: "serve_env \<Rightarrow> options \<Rightarrow> os_state \<Rightarrow> (err + tokens option \<times> nat) \<times> os_state" where
  "start_ws env opts os =
     (if dp_ws_port opts \<le> 0 then (Inr (None, 0), os)
      else (case mint_tokens env (dp_home_dir opts) os of
          (Inl e, os1) \<Rightarrow> (Inl e, os1)
        | (Inr tk, os1) \<Rightarrow> (case bind_ws env of Inl e \<Rightarrow> (Inl e, os1) | Inr port \<Rightarrow> (Inr (Some tk, port), os1))))"

text \<open>The discovery file: the fields in the order of the struct, the optional ones when not empty,
  as \<open>json.MarshalIndent\<close> lays them out.\<close>

definition discovery_of :: "options \<Rightarrow> pid \<Rightarrow> nat \<Rightarrow> discovery" where
  "discovery_of opts p port =
     \<lparr>di_socket_path = dp_socket_path opts, di_pid = p, di_version = dp_version opts,
      di_protocol_version = ProtocolVersion, di_ws_port = port,
      di_token_path = (if 0 < port then path_join (dp_home_dir opts) TokenFilename else []),
      di_token_ro_path = (if 0 < port then path_join (dp_home_dir opts) tokenROFilename else [])\<rparr>"

definition discovery_fields :: "discovery \<Rightarrow> (string \<times> string) list" where
  "discovery_fields d =
     [(''socket_path'', print_string (di_socket_path d)), (''pid'', nat_string (di_pid d)),
      (''version'', print_string (di_version d)), (''protocol_version'', int_string (di_protocol_version d))] @
     (if di_ws_port d \<noteq> 0 then [(''ws_port'', nat_string (di_ws_port d))] else []) @
     (if di_token_path d \<noteq> [] then [(''token_path'', print_string (di_token_path d))] else []) @
     (if di_token_ro_path d \<noteq> [] then [(''token_ro_path'', print_string (di_token_ro_path d))] else [])"

definition discovery_text :: "discovery \<Rightarrow> string" where
  "discovery_text d =
     ''{'' @ [newline] @
     join_with ('','' @ [newline]) (map (\<lambda>(k, v). ''  '' @ print_string k @ '': '' @ v) (discovery_fields d)) @
     [newline] @ ''}''"

definition write_discovery :: "serve_env \<Rightarrow> options \<Rightarrow> os_state \<Rightarrow> pid \<Rightarrow> nat \<Rightarrow> err option \<times> os_state" where
  "write_discovery env opts os p port =
     (let path = path_join (dp_home_dir opts) DiscoveryFilename; tmp = path @ ''.tmp''
      in case save_file (sx_disc_write env) os tmp (discovery_text (discovery_of opts p port)) of
           (False, os1) \<Rightarrow> (Some (OtherErr ''write discovery''), os1)
         | (True, os1) \<Rightarrow>
             if \<not> sx_rename_ok env then (Some (OtherErr ''publish discovery''), os1)
             else (None, file_rename os1 tmp path))"

text \<open>
  \<open>Serve\<close> up to the accept loop. Every return after the lock releases it, and every return after
  the bind closes the listener, which removes the socket's file.
\<close>

definition boot_fail :: "os_state \<Rightarrow> pid \<Rightarrow> lock \<Rightarrow> err \<Rightarrow> (err + 'a) \<times> os_state" where
  "boot_fail os p l e = (Inl e, snd (lock_release os p (Some l)))"

definition serve_boot :: "serve_env \<Rightarrow> options \<Rightarrow> server \<Rightarrow> os_state \<Rightarrow> pid \<Rightarrow> (err + lock \<times> daemon \<times> nat) \<times> os_state" where
  "serve_boot env opts sv os p =
     (if \<not> sx_mkdir_ok env then (Inl (OtherErr ''create home''), os)
      else (case take_lock env opts os p of
          (Inl e, os1) \<Rightarrow> (Inl e, os1)
        | (Inr l, os1) \<Rightarrow>
            let sv1 = (case dp_adopted opts of None \<Rightarrow> sv
                  | Some ad \<Rightarrow> sv\<lparr>sv_reg := adopt_all (sx_reopen env) (sx_now env) (sv_reg sv) (ad_sessions ad)\<rparr>)
            in (case open_socket env (dp_socket_path opts) os1 of
                  (Some e, os2) \<Rightarrow> boot_fail os2 p l e
                | (None, os2) \<Rightarrow>
                    (case start_ws env opts os2 of
                       (Inl e, os3) \<Rightarrow> boot_fail (sys_remove os3 (dp_socket_path opts)) p l e
                     | (Inr (tk, port), os3) \<Rightarrow>
                         (case write_discovery env opts os3 p port of
                            (Some e, os4) \<Rightarrow> boot_fail (sys_remove os4 (dp_socket_path opts)) p l e
                          | (None, os4) \<Rightarrow>
                              (Inr (l, \<lparr>dm_server = (case tk of None \<Rightarrow> sv1 | Some t \<Rightarrow> sv1\<lparr>sv_ws_tokens := t\<rparr>),
                                  dm_conns = [], dm_closed = False, dm_listening = True, dm_handed_over = False\<rparr>, port), os4))))))"

section \<open>Running\<close>

text \<open>\<open>acceptLoop\<close>: what \<open>Accept\<close> returns, an error (\<open>None\<close>) or a connection with its client id. The
  connections of the WebSocket handler come in the same way and need a token.\<close>

definition admit :: "daemon \<Rightarrow> bool \<Rightarrow> string \<Rightarrow> daemon" where
  "admit d needsToken client =
     (if dm_closed d then d else d\<lparr>dm_conns := dm_conns d @ [new_conn client needsToken]\<rparr>)"

fun accept_loop :: "daemon \<Rightarrow> string option list \<Rightarrow> daemon" where
  "accept_loop d [] = d"
| "accept_loop d (None # es) = d"
| "accept_loop d (Some client # es) = (if dm_closed d then d else accept_loop (admit d False client) es)"

definition ws_accept :: "bool \<Rightarrow> daemon \<Rightarrow> string \<Rightarrow> daemon" where
  "ws_accept upgraded d client = (if upgraded then admit d True client else d)"

definition drop_conn :: "daemon \<Rightarrow> string \<Rightarrow> daemon" where
  "drop_conn d client = d\<lparr>dm_conns := filter (\<lambda>c. cn_client_id c \<noteq> client) (dm_conns d)\<rparr>"

definition tick_session :: "int \<Rightarrow> server \<Rightarrow> sref \<Rightarrow> server" where
  "tick_session now sv p =
     (case tick (se_mon (sv_session sv p)) now of
        (m, evs) \<Rightarrow>
          (put_session sv p ((sv_session sv p)\<lparr>se_mon := m\<rparr>))\<lparr>sv_bus := monitor_publish (sv_bus sv) now m evs\<rparr>)"

definition housekeeping_tick :: "int \<Rightarrow> int \<Rightarrow> server \<Rightarrow> server \<times> string list" where
  "housekeeping_tick now ttl sv =
     (let sv1 = foldl (tick_session now) sv (registry_list (sv_reg sv));
          (r, ids) = reap_expired now ttl (sv_reg sv1)
      in (sv1\<lparr>sv_reg := r\<rparr>, ids))"

section \<open>Shutdown\<close>

text \<open>
  The sessions while the daemon waits for them: when \<open>Done\<close> of a session closes by itself after the
  TERM (\<open>None\<close>: never), how long after a KILL, and which case \<open>select\<close> takes when the timer has fired
  and \<open>Done\<close> is closed as well. Times in milliseconds.
\<close>

definition shutdownDeadline :: int where
  "shutdownDeadline = 5000"

record stop_env =
  sp_kill_sys :: "int \<Rightarrow> nat \<Rightarrow> u64 option"
  sp_done_at :: "sref \<Rightarrow> int option"
  sp_kill_delay :: "sref \<Rightarrow> nat"
  sp_timer_wins :: "sref \<Rightarrow> bool"

datatype stop_signal = StopSignal (ss_time: int) (ss_ref: sref) (ss_name: string) (ss_calls: "(int \<times> nat) list")

text \<open>Whether the wait for one session ends by its \<open>Done\<close>, and when the session has finished.\<close>

definition done_first :: "stop_env \<Rightarrow> int \<Rightarrow> int \<Rightarrow> sref \<Rightarrow> bool" where
  "done_first env deadline now p =
     (case sp_done_at env p of
        None \<Rightarrow> False
      | Some t \<Rightarrow> t \<le> max now deadline \<and> (\<not> sp_timer_wins env p \<or> t < deadline \<and> now < deadline))"

definition done_by :: "stop_env \<Rightarrow> sref \<Rightarrow> int \<Rightarrow> bool" where
  "done_by env p time = (case sp_done_at env p of None \<Rightarrow> False | Some t \<Rightarrow> t \<le> time)"

definition stop_signal_at :: "stop_env \<Rightarrow> registry \<Rightarrow> int \<Rightarrow> string \<Rightarrow> sref \<Rightarrow> stop_signal" where
  "stop_signal_at env r time sig p =
     StopSignal time p sig
       (fst (session_kill (sp_kill_sys env)
          (if done_by env p time then (session_at r p)\<lparr>se_state := StateExited\<rparr> else session_at r p) sig))"

fun stop_wait :: "stop_env \<Rightarrow> registry \<Rightarrow> int \<Rightarrow> int \<Rightarrow> sref list \<Rightarrow> stop_signal list \<times> int" where
  "stop_wait env r deadline now [] = ([], now)"
| "stop_wait env r deadline now (p # ps) =
     (if done_first env deadline now p
      then stop_wait env r deadline (max now (the (sp_done_at env p))) ps
      else
        let fire = max now deadline;
            over = (if done_by env p fire then fire else case sp_done_at env p of
                None \<Rightarrow> fire + int (sp_kill_delay env p) | Some t \<Rightarrow> min t (fire + int (sp_kill_delay env p)))
        in (case stop_wait env r deadline over ps of (sigs, t) \<Rightarrow> (stop_signal_at env r fire SignalKILL p # sigs, t)))"

definition stop_sessions :: "stop_env \<Rightarrow> registry \<Rightarrow> int \<Rightarrow> stop_signal list \<times> int" where
  "stop_sessions env r now =
     (let live = registry_list r
      in case stop_wait env r (now + shutdownDeadline) now live of
           (sigs, t) \<Rightarrow> (map (stop_signal_at env r now SignalTERM) live @ sigs, t))"

text \<open>The end of \<open>Serve\<close>: retired after a takeover, or stopped by its context.\<close>

definition serve_retire :: "daemon \<Rightarrow> lock \<Rightarrow> os_state \<Rightarrow> pid \<Rightarrow> daemon \<times> os_state" where
  "serve_retire d l os p = (d, snd (lock_release os p (Some l)))"

definition serve_stop :: "stop_env \<Rightarrow> options \<Rightarrow> daemon \<Rightarrow> lock \<Rightarrow> os_state \<Rightarrow> pid \<Rightarrow> int \<Rightarrow> daemon \<times> os_state \<times> int" where
  "serve_stop env opts d l os p now =
     (let sv = dm_server d;
          stopping = \<lparr>ev_type = EventDaemonStopping, ev_session_id = [], ev_at_ms = now, ev_data = []\<rparr>;
          os1 = (if dm_listening d then sys_remove os (dp_socket_path opts) else os);
          (sigs, t) = stop_sessions env (sv_reg sv) now;
          sv1 = sv\<lparr>sv_bus := bus_emit (sv_bus sv) stopping, sv_kills := sv_kills sv @ concat (map ss_calls sigs)\<rparr>;
          os2 = sys_remove (sys_remove os1 (dp_socket_path opts)) (path_join (dp_home_dir opts) DiscoveryFilename)
      in (d\<lparr>dm_server := sv1, dm_closed := True, dm_listening := False, dm_conns := map (cn_closed_update (\<lambda>_. True)) (dm_conns d)\<rparr>,
          snd (lock_release os2 p (Some l)), t))"

section \<open>Every session ends\<close>

definition kill_delays :: "stop_env \<Rightarrow> sref list \<Rightarrow> int" where
  "kill_delays env ps = sum_list (map (\<lambda>p. int (sp_kill_delay env p)) ps)"

lemma kill_delays_nonneg: "0 \<le> kill_delays env ps"
  by (induction ps) (simp_all add: kill_delays_def)

lemma done_by_mono: "done_by env p s \<Longrightarrow> s \<le> t \<Longrightarrow> done_by env p t"
  by (auto simp: done_by_def split: option.splits)

lemma done_first_done:
  "done_first env deadline now p \<Longrightarrow> done_by env p (max now (the (sp_done_at env p))) \<and>
     max now (the (sp_done_at env p)) \<le> max now deadline"
  by (auto simp: done_first_def done_by_def split: option.splits)

text \<open>One session: how long the wait for it takes, and how it ended.\<close>

definition stop_over :: "stop_env \<Rightarrow> int \<Rightarrow> sref \<Rightarrow> int" where
  "stop_over env fire p =
     (if done_by env p fire then fire else case sp_done_at env p of
        None \<Rightarrow> fire + int (sp_kill_delay env p) | Some t \<Rightarrow> min t (fire + int (sp_kill_delay env p)))"

lemma stop_over_bounds:
  "fire \<le> stop_over env fire p" "stop_over env fire p \<le> fire + int (sp_kill_delay env p)"
  "done_by env p (stop_over env fire p) \<or> fire + int (sp_kill_delay env p) = stop_over env fire p"
  by (auto simp: stop_over_def done_by_def min_def split: option.splits)

lemma stop_wait_kill:
  "\<not> done_first env deadline now p \<Longrightarrow> stop_wait env r deadline now (p # ps) =
     (case stop_wait env r deadline (stop_over env (max now deadline) p) ps of
        (sigs, t) \<Rightarrow> (stop_signal_at env r (max now deadline) SignalKILL p # sigs, t))"
  by (simp add: stop_over_def Let_def)

lemma stop_signal_sel [simp]: "ss_time (stop_signal_at env r t sig p) = t" "ss_ref (stop_signal_at env r t sig p) = p"
  "ss_name (stop_signal_at env r t sig p) = sig"
  by (simp_all add: stop_signal_at_def)

lemma stop_wait_bounds:
  assumes "stop_wait env r deadline now ps = (sigs, t)" "now \<le> b" "deadline \<le> b"
  shows "now \<le> t \<and> t \<le> b + kill_delays env ps \<and>
    (\<forall>s\<in>set sigs. ss_ref s \<in> set ps \<and> s = stop_signal_at env r (ss_time s) SignalKILL (ss_ref s) \<and> deadline \<le> ss_time s) \<and>
    (\<forall>p\<in>set ps. done_by env p t \<or>
       (\<exists>s\<in>set sigs. ss_ref s = p \<and> ss_time s + int (sp_kill_delay env p) \<le> t))"
  using assms
proof (induction ps arbitrary: now sigs t b)
  case (Cons p ps)
  have tail: "0 \<le> kill_delays env ps" by (rule kill_delays_nonneg)
  have sum: "kill_delays env (p # ps) = int (sp_kill_delay env p) + kill_delays env ps" by (simp add: kill_delays_def)
  show ?case
  proof (cases "done_first env deadline now p")
    case True
    let ?now = "max now (the (sp_done_at env p))"
    have now: "done_by env p ?now" "?now \<le> b" using done_first_done[OF True] Cons.prems(2,3) by auto
    have w: "stop_wait env r deadline ?now ps = (sigs, t)" using Cons.prems(1) True by simp
    note IH = Cons.IH[OF w now(2) Cons.prems(3)]
    have "done_by env p t" using IH now(1) done_by_mono by blast
    then show ?thesis using IH sum by auto
  next
    case False
    let ?fire = "max now deadline" and ?over = "stop_over env (max now deadline) p"
    obtain ss where w: "stop_wait env r deadline ?over ps = (ss, t)" and sigs: "sigs = stop_signal_at env r ?fire SignalKILL p # ss"
      using Cons.prems(1) unfolding stop_wait_kill[OF False] by (auto split: prod.splits)
    note over = stop_over_bounds[where fire = ?fire and env = env and p = p]
    have le: "?over \<le> b + int (sp_kill_delay env p)" "deadline \<le> b + int (sp_kill_delay env p)"
      using over(2) Cons.prems(2,3) by auto
    note IH = Cons.IH[OF w le]
    have "done_by env p t \<or> ?fire + int (sp_kill_delay env p) \<le> t"
      using over(3) IH done_by_mono[of env p ?over t] by auto
    then show ?thesis using IH over(1) sum by (auto simp: sigs add.assoc)
  qed
qed (simp add: kill_delays_def)


text \<open>Two sessions that ignore the TERM, and take 10 ms each to die of the KILL.\<close>

definition demo_stop :: stop_env where
  "demo_stop = \<lparr>sp_kill_sys = (\<lambda>p n. None), sp_done_at = (\<lambda>p. None), sp_kill_delay = (\<lambda>p. 10), sp_timer_wins = (\<lambda>p. True)\<rparr>"


section \<open>The files of a boot\<close>

text \<open>Changes of files that are nobody's lock leave the locks as they are.\<close>

lemma inv_files:
  assumes inv: "lock_inv (os, locks)"
    and same: "os_desc os' = os_desc os" "os_flock os' = os_flock os" "os_fds os' = os_fds os" "os_procs os' = os_procs os"
    and next': "os_next os \<le> os_next os'" "\<And>f i. os_files os' f = Some i \<Longrightarrow> i < os_next os'"
    and inj: "\<And>f g i. os_files os' f = Some i \<Longrightarrow> os_files os' g = Some i \<Longrightarrow> f = g"
    and held: "\<And>q l. locks q = Some l \<Longrightarrow> file_text os' (lo_path l) = file_text os (lo_path l) \<and>
      os_files os' (lo_path l) = os_files os (lo_path l)"
  shows "lock_inv (os', locks)"
proof (rule lock_invI)
  note D = lock_invD[OF inv]
  show "holder_ok os' q l" if "locks q = Some l" for q l
    using D(1)[OF that] held[OF that] by (auto simp: holder_ok_def same file_text_def)
  show "os_desc os' e = Some j \<and> (\<exists>q l. locks q = Some l \<and> lo_file l = e)" if "os_flock os' j = Some e" for j e
    using D(2) that by (simp add: same)
  show "os_fds os' q = (case locks q of None \<Rightarrow> [] | Some l \<Rightarrow> [lo_file l])" for q using D(3) by (simp add: same)
  show "q = q'" if "e \<in> set (os_fds os' q)" "e \<in> set (os_fds os' q')" for q q' e using D(4) that by (simp add: same)
  show "q \<in> set (os_procs os')" if "os_fds os' q \<noteq> []" for q using D(5) that by (simp add: same)
  show "0 < q \<and> q < 2 ^ 63" if "q \<in> set (os_procs os')" for q using D(6) that by (simp add: same)
  show "e < os_next os' \<and> j < os_next os'" if "os_desc os' e = Some j" for e j
    using D(8)[of e j] that next'(1) by (auto simp: same)
qed (use next'(2) inj in auto)

lemma path_freeD: "path_free locks f \<Longrightarrow> locks q = Some l \<Longrightarrow> lo_path l \<noteq> f"
  by (auto simp: path_free_def)

lemma inv_file_make: "lock_inv (os, locks) \<Longrightarrow> lock_inv (file_make os f, locks)"
proof (cases "os_files os f")
  case None
  assume inv: "lock_inv (os, locks)"
  note D = lock_invD[OF inv]
  have held: "lo_path l \<noteq> f \<and> os_files os (lo_path l) \<noteq> Some (os_next os)" if "locks q = Some l" for q l
    using D(1)[OF that] None D(7)[of "lo_path l" "os_next os"] by (auto simp: holder_ok_def)
  have fresh: "os_files os g \<noteq> Some (os_next os)" for g using D(7)[of g "os_next os"] by auto
  show ?thesis
  proof (rule inv_files[OF inv])
    show "i < os_next (file_make os f)" if "os_files (file_make os f) g = Some i" for g i
      using that D(7)[of g i] by (auto simp: file_make_def None split: if_splits)
    show "g = h" if "os_files (file_make os f) g = Some i" "os_files (file_make os f) h = Some i" for g h i
      using that D(9)[of g i h] fresh by (auto simp: file_make_def None split: if_splits)
    show "file_text (file_make os f) (lo_path l) = file_text os (lo_path l) \<and>
        os_files (file_make os f) (lo_path l) = os_files os (lo_path l)" if "locks q = Some l" for q l
      using held[OF that] by (cases "os_files os (lo_path l)") (auto simp: file_make_def file_text_def)
  qed (simp_all add: file_make_def)
qed (simp add: file_make_def)

lemma inv_file_put:
  assumes "lock_inv (os, locks)" "path_free locks f"
  shows "lock_inv (file_put os f s, locks)"
proof (cases "os_files os f")
  case (Some i)
  note D = lock_invD[OF assms(1)]
  show ?thesis
  proof (rule inv_files[OF assms(1)])
    show "file_text (file_put os f s) (lo_path l) = file_text os (lo_path l) \<and>
        os_files (file_put os f s) (lo_path l) = os_files os (lo_path l)" if "locks q = Some l" for q l
      using path_freeD[OF assms(2) that] D(9)[OF Some, of "lo_path l"] Some
      by (cases "os_files os (lo_path l)") (auto simp: file_put_def file_text_def)
    show "g = h" if "os_files (file_put os f s) g = Some j" "os_files (file_put os f s) h = Some j" for g h j
      using that D(9)[of g j h] by (simp add: file_put_def Some)
    show "j < os_next (file_put os f s)" if "os_files (file_put os f s) g = Some j" for g j
      using that D(7)[of g j] by (simp add: file_put_def Some)
  qed (simp_all add: file_put_def Some)
qed (use assms in \<open>simp add: file_put_def\<close>)

lemma inv_sys_remove:
  assumes "lock_inv (os, locks)" "path_free locks f"
  shows "lock_inv (sys_remove os f, locks)"
proof (rule inv_files[OF assms(1)])
  note D = lock_invD[OF assms(1)]
  show "file_text (sys_remove os f) (lo_path l) = file_text os (lo_path l) \<and>
      os_files (sys_remove os f) (lo_path l) = os_files os (lo_path l)" if "locks q = Some l" for q l
    using path_freeD[OF assms(2) that] by (simp add: sys_remove_def file_text_def)
  show "g = h" if "os_files (sys_remove os f) g = Some j" "os_files (sys_remove os f) h = Some j" for g h j
    using that D(9)[of g j h] by (auto simp: sys_remove_def split: if_splits)
  show "j < os_next (sys_remove os f)" if "os_files (sys_remove os f) g = Some j" for g j
    using that D(7)[of g j] by (auto simp: sys_remove_def split: if_splits)
qed (simp_all add: sys_remove_def)

lemma inv_file_rename:
  assumes "lock_inv (os, locks)" "path_free locks a" "path_free locks b"
  shows "lock_inv (file_rename os a b, locks)"
proof (rule inv_files[OF assms(1)])
  note D = lock_invD[OF assms(1)]
  show "file_text (file_rename os a b) (lo_path l) = file_text os (lo_path l) \<and>
      os_files (file_rename os a b) (lo_path l) = os_files os (lo_path l)" if "locks q = Some l" for q l
    using path_freeD[OF assms(2) that] path_freeD[OF assms(3) that] by (simp add: file_rename_def file_text_def)
  show "g = h" if "os_files (file_rename os a b) g = Some j" "os_files (file_rename os a b) h = Some j" for g h j
    using that D(9)[of g j h] D(9)[of a j h] D(9)[of a j g] by (auto simp: file_rename_def split: if_splits)
  show "j < os_next (file_rename os a b)" if "os_files (file_rename os a b) g = Some j" for g j
    using that D(7)[of g j] D(7)[of a j] by (auto simp: file_rename_def split: if_splits)
qed (simp_all add: file_rename_def)

lemma inv_save_file:
  "lock_inv (os, locks) \<Longrightarrow> path_free locks f \<Longrightarrow> lock_inv (snd (save_file w os f s), locks)"
  by (cases w) (simp_all add: save_file_def inv_file_put inv_file_make)

lemma inv_release:
  assumes "lock_inv (os, locks)" "locks p = Some l"
  shows "lock_inv (snd (lock_release os p (Some l)), locks(p := None))"
  using lock_step_inv[OF assms(1), of "LockRelease p"] assms(2) by (simp add: split_beta)

text \<open>The files of a home directory, and a daemon whose files are not the lock of somebody else.\<close>

definition lock_path :: "options \<Rightarrow> string" where
  "lock_path opts = path_join (dp_home_dir opts) LockFilename"

definition discovery_path :: "options \<Rightarrow> string" where
  "discovery_path opts = path_join (dp_home_dir opts) DiscoveryFilename"

definition own_files :: "options \<Rightarrow> string list" where
  "own_files opts = [discovery_path opts, discovery_path opts @ ''.tmp'',
     path_join (dp_home_dir opts) TokenFilename, path_join (dp_home_dir opts) tokenROFilename]"

definition own_home :: "options \<Rightarrow> (pid \<Rightarrow> lock option) \<Rightarrow> bool" where
  "own_home opts locks \<longleftrightarrow> dp_socket_path opts \<notin> set (lock_path opts # own_files opts) \<and>
     (\<forall>f\<in>set (dp_socket_path opts # own_files opts). path_free locks f)"

lemmas file_names = SocketFilename_def DiscoveryFilename_def LockFilename_def TokenFilename_def tokenROFilename_def

lemma discovery_tmp: "discovery_path opts @ ''.tmp'' = path_join (dp_home_dir opts) ''daemon.json.tmp''"
proof -
  obtain pre where pre: "\<forall>m. plain_name m \<longrightarrow> path_join (dp_home_dir opts) m = pre @ m"
    using clean_join_plain[of "''x''"] by (auto simp: plain_name_def)
  show ?thesis by (simp add: discovery_path_def file_names pre plain_name_def)
qed

lemma own_files_distinct: "distinct (lock_path opts # own_files opts)"
  unfolding own_files_def discovery_tmp
  by (simp add: lock_path_def discovery_path_def path_join_inj plain_name_def file_names)

lemma own_home_locked:
  "own_home opts locks \<Longrightarrow> lo_path l = lock_path opts \<Longrightarrow> own_home opts (locks(p := Some l))"
  using own_files_distinct[of opts] by (auto simp: own_home_def path_free_def)

lemma own_home_unlocked: "own_home opts locks \<Longrightarrow> own_home opts (locks(p := None))"
  by (auto simp: own_home_def path_free_def)

lemma path_free_forget: "path_free locks f \<Longrightarrow> path_free (locks(p := None)) f"
  by (auto simp: path_free_def)

text \<open>What acquiring leaves alone.\<close>

lemma acquire_once:
  assumes "lock_inv (os, locks)" "locks p = None" "p \<in> set (os_procs os)" "\<forall>n. ae_read_ok (env n)"
    and "try_acquire (env 0) os p path = (r, os1)"
  shows "acquire True env os p path = (if r = Inl LockBusy then Inl ErrLockHeld else r, os1)"
  using try_acquire_inv[OF assms(1-3,5)] assms(4,5)
  by (auto simp: acquire_def acquire_loop.simps[of _ _ _ _ 0] split: sum.splits)

lemma try_acquire_frame:
  assumes inv: "lock_inv (os, locks)" and r: "try_acquire env os p path = (r, os1)" and f: "f \<noteq> path"
  shows "os_files os1 f = os_files os f \<and> file_text os1 f = file_text os f"
proof (cases "ae_open_ok env")
  case False
  then show ?thesis using r by (simp add: try_acquire_def)
next
  case True
  note D = lock_invD[OF inv]
  obtain d osa where oa: "sys_open os p path = (d, osa)" by fastforce
  obtain i where op: "opened os p path d i osa" using open_opened[OF inv oa] by blast
  note i = openedD[OF op]
  have other: "j \<noteq> i" if "os_files os f = Some j" for j
    using that f i(9,10) D(7)[OF that] D(9)[OF that, of path] by auto
  have keep: "os_files os2 f = os_files os f \<and> file_text os2 f = file_text os f" if "os_files os2 = os_files osa" "\<And>j. j \<noteq> i \<Longrightarrow> os_data os2 j = os_data osa j" for os2
    using that other i(8)[OF f] i(9,10) by (cases "os_files os f") (auto simp: file_text_def)
  have wd: "\<exists>da. write_content w os2 d p t = (w = WritesAll, os2\<lparr>os_data := da\<rparr>) \<and> (\<forall>j. j \<noteq> i \<longrightarrow> da j = os_data os2 j)"
    if "os_desc os2 d = Some i" for w os2 t
    unfolding write_content_cases[OF that] by (rule exI, rule conjI, rule refl) (cases w; simp)
  show ?thesis
  proof (cases "ae_flock_err env")
    case True
    then show ?thesis using r oa \<open>ae_open_ok env\<close> by (auto simp: try_acquire_def close_view intro!: keep)
  next
    case noerr: False
    show ?thesis
    proof (cases "sys_flock osa d")
      case (Pair ok os2)
      have s2: "os_files os2 = os_files osa" "os_data os2 = os_data osa" "os_desc os2 = os_desc osa"
        using Pair i(2) by (auto simp: sys_flock_def split: if_splits)
      obtain da where da: "write_content (ae_write env) os2 d p (ae_time env) = (ae_write env = WritesAll, os2\<lparr>os_data := da\<rparr>)"
          "\<forall>j. j \<noteq> i \<longrightarrow> da j = os_data osa j"
        using wd[of os2 "ae_write env" "ae_time env"] s2 i(2) by auto
      show ?thesis
        using r oa \<open>ae_open_ok env\<close> noerr Pair da s2
        by (cases ok; cases "ae_write env = WritesAll")
          (auto simp: try_acquire_def close_view sys_funlock_def intro!: keep)
    qed
  qed
qed

lemma take_lock_cases:
  assumes inv: "lock_inv (os, locks)" "locks p = None" "p \<in> set (os_procs os)"
    and env: "\<forall>n. ae_read_ok (sx_acquire env n)" and ad: "dp_adopted opts = None"
    and r: "take_lock env opts os p = (r, os1)"
  shows "(\<forall>f. f \<noteq> lock_path opts \<longrightarrow> os_files os1 f = os_files os f \<and> file_text os1 f = file_text os f) \<and>
    (case r of
       Inl e \<Rightarrow> lock_inv (os1, locks)
     | Inr l \<Rightarrow> lock_inv (os1, locks(p := Some l)) \<and> lo_path l = lock_path opts)"
proof (cases "sx_lock_mkdir_ok env")
  case False
  then show ?thesis using r ad inv(1) by (auto simp: take_lock_def acquire_def)
next
  case True
  obtain r0 os0 where t: "try_acquire (sx_acquire env 0) os p (lock_path opts) = (r0, os0)" by fastforce
  note once = acquire_once[OF inv env t]
  have "os1 = os0 \<and> (case r of Inl e \<Rightarrow> \<exists>e0. r0 = Inl e0 | Inr l \<Rightarrow> r0 = Inr l)"
    using r ad True once by (auto simp: take_lock_def lock_path_def split: sum.splits if_splits lock_err.splits)
  then show ?thesis
    using try_acquire_inv[OF inv t] try_acquire_frame[OF inv(1) t] by (auto split: sum.splits)
qed

text \<open>The steps after the lock: each keeps the locks, and says what it leaves of the files.\<close>

lemma file_view [simp]:
  "os_files (file_put os f s) = os_files os"
  "os_files (file_make os f) g = None \<longleftrightarrow> os_files os g = None \<and> g \<noteq> f"
  "os_files (sys_remove os f) g = (if g = f then None else os_files os g)"
  "os_files (file_rename os a b) g = (if g = a then None else if g = b then os_files os a else os_files os g)"
  by (auto simp: file_put_def file_make_def sys_remove_def file_rename_def split: option.split)

lemma save_file_present: "os_files os f \<noteq> None \<Longrightarrow> os_files (snd (save_file w os g s)) f \<noteq> None"
  by (cases w) (auto simp: save_file_def)

lemma file_made [simp]: "\<exists>i. os_files (file_make os f) f = Some i"
  using file_view(2)[of os f f] by blast

lemma save_file_text: "save_file w os f s = (True, os1) \<Longrightarrow> file_text os1 f = Some s"
  using file_made[of os f] by (cases w) (auto simp: save_file_def file_put_def file_text_def simp del: file_made)

lemma open_socket_keeps:
  assumes "open_socket env sock os = (e, os1)" "lock_inv (os, locks)" "path_free locks sock"
  shows "lock_inv (os1, locks) \<and> (e = None \<longrightarrow> os_files os1 sock \<noteq> None) \<and>
    (e \<noteq> None \<longrightarrow> os_files os1 sock = None \<or> os_files os1 sock = os_files os sock)"
proof -
  have inv: "lock_inv (sys_remove os sock, locks)" using assms(2,3) by (rule inv_sys_remove)
  show ?thesis
    using assms(1) inv assms(2) inv_file_make[OF inv, of sock] inv_file_make[OF assms(2), of sock]
      inv_sys_remove[OF inv_file_make[OF inv, of sock] assms(3)] inv_sys_remove[OF inv_file_make[OF assms(2), of sock] assms(3)]
    by (auto simp: open_socket_def sock_bind_def Let_def split: if_splits)
qed

lemma save_file_keeps:
  assumes "lock_inv (os, locks)" "path_free locks g" "save_file w os g s = (b, os1)"
  shows "lock_inv (os1, locks) \<and> (os_files os f \<noteq> None \<longrightarrow> os_files os1 f \<noteq> None)"
  using inv_save_file[OF assms(1,2), of w s] save_file_present[of os f w g s] assms(3) by simp

lemma mint_tokens_keeps:
  assumes "mint_tokens env (dp_home_dir opts) os = (r, os1)" "lock_inv (os, locks)" "own_home opts locks"
  shows "lock_inv (os1, locks) \<and> (os_files os f \<noteq> None \<longrightarrow> os_files os1 f \<noteq> None)"
proof (cases "sx_entropy env")
  case (Some bs)
  obtain b1 b2 where bs: "bs = (b1, b2)" by fastforce
  let ?t = "path_join (dp_home_dir opts) TokenFilename" and ?ro = "path_join (dp_home_dir opts) tokenROFilename"
  have free: "path_free locks ?t" "path_free locks ?ro" using assms(3) by (simp_all add: own_home_def own_files_def)
  obtain ok1 osa where wa: "save_file (sx_token_write env) os ?t (hex_text b1 @ [newline]) = (ok1, osa)" by fastforce
  obtain ok2 osb where wb: "save_file (sx_token_ro_write env) osa ?ro (hex_text b2 @ [newline]) = (ok2, osb)" by fastforce
  note A = save_file_keeps[OF assms(2) free(1) wa, of f]
  note B = save_file_keeps[OF conjunct1[OF A] free(2) wb, of f]
  have "os1 = (if ok1 then osb else osa)"
    using assms(1) Some bs wa wb by (cases ok1; cases ok2) (simp_all add: mint_tokens_def)
  then show ?thesis using A B by simp
qed (use assms in \<open>simp add: mint_tokens_def\<close>)

lemma start_ws_keeps:
  assumes "start_ws env opts os = (r, os1)" "lock_inv (os, locks)" "own_home opts locks"
  shows "lock_inv (os1, locks) \<and> (os_files os f \<noteq> None \<longrightarrow> os_files os1 f \<noteq> None)"
proof (cases "dp_ws_port opts \<le> 0")
  case False
  obtain r0 os0 where m: "mint_tokens env (dp_home_dir opts) os = (r0, os0)" by fastforce
  have "os1 = os0" using assms(1) False m by (auto simp: start_ws_def split: sum.splits)
  then show ?thesis using mint_tokens_keeps[OF m assms(2,3)] by simp
qed (use assms in \<open>simp add: start_ws_def\<close>)

lemma write_discovery_keeps:
  assumes "write_discovery env opts os p port = (e, os1)" "lock_inv (os, locks)" "own_home opts locks"
  shows "lock_inv (os1, locks) \<and> (os_files os (dp_socket_path opts) \<noteq> None \<longrightarrow> os_files os1 (dp_socket_path opts) \<noteq> None) \<and>
    (if e = None then file_text os1 (discovery_path opts) = Some (discovery_text (discovery_of opts p port))
     else file_text os1 (discovery_path opts) = file_text os (discovery_path opts))"
proof -
  let ?d = "discovery_path opts" and ?s = "discovery_text (discovery_of opts p port)"
  obtain b os2 where w: "save_file (sx_disc_write env) os (?d @ ''.tmp'') ?s = (b, os2)" by fastforce
  have free: "path_free locks ?d" "path_free locks (?d @ ''.tmp'')" and sock: "dp_socket_path opts \<noteq> ?d" "dp_socket_path opts \<noteq> ?d @ ''.tmp''"
    using assms(3) by (auto simp: own_home_def own_files_def)
  have inv: "lock_inv (os2, locks)" using inv_save_file[OF assms(2) free(2)] w by (metis snd_conv)
  have keep: "os_files os (dp_socket_path opts) \<noteq> None \<longrightarrow> os_files os2 (dp_socket_path opts) \<noteq> None"
    using save_file_present[of os "dp_socket_path opts"] w by (metis snd_conv)
  have old: "file_text os2 ?d = file_text os ?d"
  proof (cases "os_files os ?d")
    case (Some j)
    have "os_files os (?d @ ''.tmp'') \<noteq> Some j" using lock_invD(9)[OF assms(2) Some, of "?d @ ''.tmp''"] by auto
    then show ?thesis
      using w Some lock_invD(7)[OF assms(2) Some] unfolding save_file_def file_put_def file_make_def file_text_def
      by (auto split: write_fate.splits if_splits option.splits)
  qed (use w in \<open>auto simp: save_file_def file_text_def split: write_fate.splits\<close>)
  have def: "write_discovery env opts os p port = (if \<not> b then (Some (OtherErr ''write discovery''), os2)
      else if \<not> sx_rename_ok env then (Some (OtherErr ''publish discovery''), os2) else (None, file_rename os2 (?d @ ''.tmp'') ?d))"
    using w by (cases b) (simp_all add: write_discovery_def discovery_path_def Let_def)
  have "file_text (file_rename os2 (?d @ ''.tmp'') ?d) ?d = file_text os2 (?d @ ''.tmp'')"
    by (simp add: file_text_def file_rename_def)
  then show ?thesis
    using assms(1) inv keep old sock save_file_text[of _ os "?d @ ''.tmp''" ?s os2] w inv_file_rename[OF inv free(2,1)]
    unfolding def by (auto split: if_splits)
qed

text \<open>Only the lock fails with a code.\<close>

lemma boot_errors:
  "open_socket env sock os = (Some e, os1) \<Longrightarrow> e \<noteq> Coded k"
  "start_ws env opts os = (Inl e, os1) \<Longrightarrow> e \<noteq> Coded k"
  "write_discovery env opts os p port = (Some e, os1) \<Longrightarrow> e \<noteq> Coded k"
proof -
  show "open_socket env sock os = (Some e, os1) \<Longrightarrow> e \<noteq> Coded k"
    by (auto simp: open_socket_def Let_def split: if_splits option.splits)
  have "mint_tokens env home os = (Inl e, os1) \<Longrightarrow> e \<noteq> Coded k" for home os1
    by (auto simp: mint_tokens_def split: option.splits prod.splits bool.splits)
  moreover have "bind_ws env = Inl e \<Longrightarrow> e \<noteq> Coded k" by (auto simp: bind_ws_def split: option.splits if_splits)
  ultimately show "start_ws env opts os = (Inl e, os1) \<Longrightarrow> e \<noteq> Coded k"
    by (auto simp: start_ws_def split: if_splits prod.splits sum.splits)
  show "write_discovery env opts os p port = (Some e, os1) \<Longrightarrow> e \<noteq> Coded k"
    by (auto simp: write_discovery_def Let_def split: prod.splits bool.splits if_splits)
qed

lemma boot_fail_keeps:
  assumes "lock_inv (os, locks(p := Some l))" "locks p = None"
  shows "lock_inv (snd (boot_fail os p l e), locks)" "os_files (snd (boot_fail os p l e)) = os_files os"
proof -
  have "lock_inv (snd (lock_release os p (Some l)), (locks(p := Some l))(p := None))" by (rule inv_release[OF assms(1)]) simp
  moreover have "(locks(p := Some l))(p := None) = locks" using assms(2) by auto
  ultimately show "lock_inv (snd (boot_fail os p l e), locks)" by (simp add: boot_fail_def)
  show "os_files (snd (boot_fail os p l e)) = os_files os"
    by (simp add: boot_fail_def lock_release_def close_view)
qed

lemma serve_boot_outcome:
  assumes "lock_inv (os, locks)" "locks p = None" "p \<in> set (os_procs os)" "\<forall>n. ae_read_ok (sx_acquire env n)"
    and "dp_adopted opts = None" "own_home opts locks" "serve_boot env opts sv os p = (r, os')"
  shows "case r of
      Inr (l, d, port) \<Rightarrow> lock_inv (os', locks(p := Some l)) \<and> lo_path l = lock_path opts \<and>
        os_files os' (dp_socket_path opts) \<noteq> None \<and> dm_listening d \<and> \<not> dm_closed d \<and>
        file_text os' (discovery_path opts) = Some (discovery_text (discovery_of opts p port))
    | Inl e \<Rightarrow> lock_inv (os', locks) \<and>
        (os_files os' (dp_socket_path opts) = None \<or> os_files os' (dp_socket_path opts) = os_files os (dp_socket_path opts)) \<and>
        (e = Coded LockHeld \<longrightarrow> (\<forall>f. f \<noteq> lock_path opts \<longrightarrow> file_text os' f = file_text os f))"
proof (cases "sx_mkdir_ok env")
  case True
  obtain r1 os1 where t: "take_lock env opts os p = (r1, os1)" by fastforce
  note T = take_lock_cases[OF assms(1-5) t]
  let ?sock = "dp_socket_path opts"
  have sock: "?sock \<noteq> lock_path opts" using assms(6) by (simp add: own_home_def)
  then have same: "os_files os1 ?sock = os_files os ?sock" using T by simp
  show ?thesis
  proof (cases r1)
    case (Inl e)
    then have "r = Inl e" "os' = os1" using assms(7) True t by (simp_all add: serve_boot_def)
    then show ?thesis using T Inl same by simp
  next
    case (Inr l)
    let ?locks = "locks(p := Some l)"
    let ?sv = "case dp_adopted opts of None \<Rightarrow> sv
      | Some ad \<Rightarrow> sv\<lparr>sv_reg := adopt_all (sx_reopen env) (sx_now env) (sv_reg sv) (ad_sessions ad)\<rparr>"
    have inv1: "lock_inv (os1, ?locks)" and path: "lo_path l = lock_path opts" using T Inr by simp_all
    have home: "own_home opts ?locks" by (rule own_home_locked[OF assms(6) path])
    then have free: "path_free ?locks ?sock" by (simp add: own_home_def)
    have fails: ?thesis if "(r, os') = boot_fail osf p l e" "e \<noteq> Coded LockHeld" "lock_inv (osf, ?locks)"
        "os_files osf ?sock = None \<or> os_files osf ?sock = os_files os ?sock" for e osf
      using that boot_fail_keeps[OF that(3) assms(2), of e] by (simp add: boot_fail_def split: sum.split)
    obtain e2 os2 where o: "open_socket env ?sock os1 = (e2, os2)" by fastforce
    note O = open_socket_keeps[OF o inv1 free]
    obtain r3 os3 where w: "start_ws env opts os2 = (r3, os3)" by fastforce
    note W = start_ws_keeps[OF w conjunct1[OF O] home, of ?sock]
    note gone = inv_sys_remove[OF _ free]
    consider e where "e2 = Some e" | e where "e2 = None" "r3 = Inl e" | tk port where "e2 = None" "r3 = Inr (tk, port)"
      by (cases e2; cases r3) auto
    then show ?thesis
    proof cases
      case 1
      then have "(r, os') = boot_fail os2 p l e" using assms(7) True t Inr o by (simp add: serve_boot_def Let_def)
      moreover have "e \<noteq> Coded LockHeld" using boot_errors(1) o 1 by metis
      ultimately show ?thesis using O 1 same by (intro fails) auto
    next
      case 2
      then have "(r, os') = boot_fail (sys_remove os3 ?sock) p l e"
        using assms(7) True t Inr o w by (simp add: serve_boot_def Let_def)
      moreover have "e \<noteq> Coded LockHeld" using boot_errors(2) w 2 by metis
      ultimately show ?thesis using W 2 gone by (intro fails) auto
    next
      case 3
      obtain e4 os4 where d: "write_discovery env opts os3 p port = (e4, os4)" by fastforce
      note E = write_discovery_keeps[OF d conjunct1[OF W] home]
      show ?thesis
      proof (cases e4)
        case (Some e)
        then have "(r, os') = boot_fail (sys_remove os4 ?sock) p l e"
          using assms(7) True t Inr o w d 3 by (simp add: serve_boot_def Let_def)
        moreover have "e \<noteq> Coded LockHeld" using boot_errors(3) d Some by metis
        ultimately show ?thesis using E Some gone by (intro fails) auto
      next
        case None
        let ?dm = "\<lparr>dm_server = (case tk of None \<Rightarrow> ?sv | Some t \<Rightarrow> ?sv\<lparr>sv_ws_tokens := t\<rparr>),
          dm_conns = [], dm_closed = False, dm_listening = True, dm_handed_over = False\<rparr>"
        have "serve_boot env opts sv os p = (Inr (l, ?dm, port), os4)"
          using None True t Inr o w d 3 by (simp add: serve_boot_def Let_def)
        then have "r = Inr (l, ?dm, port)" "os' = os4" using assms(7) by simp_all
        then show ?thesis using E None O W 3 path by simp
      qed
    qed
  qed
qed (use assms in \<open>auto simp: serve_boot_def\<close>)


section \<open>Booting again\<close>

text \<open>A system in which every step of a boot can succeed.\<close>

definition good_boot :: "serve_env \<Rightarrow> options \<Rightarrow> bool" where
  "good_boot env opts \<longleftrightarrow> sx_mkdir_ok env \<and> sx_lock_mkdir_ok env \<and>
     (\<forall>n. ae_read_ok (sx_acquire env n)) \<and> ae_open_ok (sx_acquire env 0) \<and> \<not> ae_flock_err (sx_acquire env 0) \<and>
     ae_write (sx_acquire env 0) = WritesAll \<and> sx_remove_ok env \<and> sx_listen_ok env \<and> sx_chmod_ok env \<and>
     sx_disc_write env = WritesAll \<and> sx_rename_ok env \<and>
     (0 < dp_ws_port opts \<longrightarrow> sx_entropy env \<noteq> None \<and> sx_token_write env = WritesAll \<and>
        sx_token_ro_write env = WritesAll \<and> (\<exists>port. sx_ws_bound env = Some (True, port)))"

lemma boot_succeeds:
  assumes "lock_inv (os, locks)" "locks p = None" "p \<in> set (os_procs os)" "good_boot env opts"
    and "dp_adopted opts = None" "path_free locks (lock_path opts)"
  obtains l d port os' where "serve_boot env opts sv os p = (Inr (l, d, port), os')"
proof -
  obtain r0 os0 where t: "try_acquire (sx_acquire env 0) os p (lock_path opts) = (r0, os0)" by fastforce
  have g: "\<forall>n. ae_read_ok (sx_acquire env n)" using assms(4) by (simp add: good_boot_def)
  have "r0 \<noteq> Inl e" for e
    using try_acquire_inv[OF assms(1-3) t] assms(4,6) by (auto simp: good_boot_def)
  then obtain l where "r0 = Inr l" by (cases r0) auto
  then have lock: "take_lock env opts os p = (Inr l, os0)"
    using acquire_once[OF assms(1-3) g t] assms(4,5) by (simp add: take_lock_def lock_path_def good_boot_def)
  obtain os2 where sock: "open_socket env (dp_socket_path opts) os0 = (None, os2)"
    using assms(4) by (cases "os_files os0 (dp_socket_path opts)") (auto simp: open_socket_def sock_bind_def good_boot_def Let_def)
  obtain tk port os3 where ws: "start_ws env opts os2 = (Inr (tk, port), os3)"
    using assms(4) by (cases "dp_ws_port opts \<le> 0") (auto simp: start_ws_def mint_tokens_def bind_ws_def save_file_def good_boot_def)
  obtain os4 where disc: "write_discovery env opts os3 p port = (None, os4)"
    using assms(4) by (auto simp: write_discovery_def save_file_def good_boot_def Let_def)
  show ?thesis
    by (rule that[of l _ port os4]) (use assms(4) lock sock ws disc in \<open>simp add: serve_boot_def good_boot_def Let_def\<close>)
qed

text \<open>Nothing in a boot starts or ends a process.\<close>

lemma file_procs [simp]:
  "os_procs (file_make os f) = os_procs os" "os_procs (file_put os f s) = os_procs os"
  "os_procs (sys_remove os f) = os_procs os" "os_procs (file_rename os a b) = os_procs os"
  "os_procs (sys_close os p d) = os_procs os" "os_procs (snd (lock_release os p l)) = os_procs os"
  by (simp_all add: file_make_def file_put_def sys_remove_def file_rename_def sys_close_def lock_release_def split: option.split)

lemma write_procs: "save_file w os f s = (b, os1) \<Longrightarrow> os_procs os1 = os_procs os"
  by (cases w) (auto simp: save_file_def)

lemma try_acquire_procs: "try_acquire env os p path = (r, os1) \<Longrightarrow> os_procs os1 = os_procs os"
  by (auto simp: try_acquire_def sys_open_def sys_flock_def sys_funlock_def write_content_def sys_write_def Let_def
      split: if_splits prod.splits bool.splits option.splits write_fate.splits)

lemma serve_boot_procs:
  assumes "lock_inv (os, locks)" "locks p = None" "p \<in> set (os_procs os)" "\<forall>n. ae_read_ok (sx_acquire env n)"
    and "dp_adopted opts = None" "serve_boot env opts sv os p = (Inr x, os')"
  shows "os_procs os' = os_procs os"
proof -
  obtain r0 os0 where t: "try_acquire (sx_acquire env 0) os p (lock_path opts) = (r0, os0)" by fastforce
  obtain l os1 where lock: "take_lock env opts os p = (Inr l, os1)"
    using assms(6) by (auto simp: serve_boot_def split: if_splits prod.splits sum.splits)
  have "os1 = os0"
    using lock assms(5) acquire_once[OF assms(1-4) t]
    by (auto simp: take_lock_def lock_path_def acquire_def split: prod.splits sum.splits if_splits lock_err.splits)
  then have p1: "os_procs os1 = os_procs os" using try_acquire_procs[OF t] by simp
  obtain e2 os2 where o: "open_socket env (dp_socket_path opts) os1 = (e2, os2)" by fastforce
  then have p2: "os_procs os2 = os_procs os1" by (auto simp: open_socket_def sock_bind_def Let_def split: if_splits)
  obtain r3 os3 where w: "start_ws env opts os2 = (r3, os3)" by fastforce
  then have p3: "os_procs os3 = os_procs os2"
    by (auto simp: start_ws_def mint_tokens_def dest!: write_procs split: if_splits option.splits prod.splits bool.splits sum.splits)
  obtain tk port where "e2 = None" "r3 = Inr (tk, port)"
    using assms(5,6) lock o w by (cases e2; cases r3) (auto simp: serve_boot_def boot_fail_def Let_def split: if_splits)
  moreover obtain e4 os4 where d: "write_discovery env opts os3 p port = (e4, os4)" by fastforce
  moreover have "os_procs os4 = os_procs os3"
    using d by (auto simp: write_discovery_def Let_def dest!: write_procs split: if_splits prod.splits bool.splits)
  ultimately show ?thesis
    using assms(5,6) lock o w p1 p2 p3 by (cases e4) (auto simp: serve_boot_def boot_fail_def Let_def split: if_splits)
qed

text \<open>C25. A home is never stuck: whether the daemon was killed, leaving its socket and its lock file
  behind, or stopped in order, the next one boots; and after an orderly stop the socket and the
  discovery file are gone.\<close>

theorem boot_again:
  assumes "lock_inv (os, locks)" "locks p = None" "p \<in> set (os_procs os)" "\<forall>n. ae_read_ok (sx_acquire env n)"
    and "dp_adopted opts = None" "own_home opts locks" "path_free locks (lock_path opts)"
    and "serve_boot env opts sv os p = (Inr (l, d, port), os1)"
    and "locks q = None" "q \<in> set (os_procs os)" "p \<noteq> q" "good_boot env' opts"
    and "os2 = sys_exit os1 p \<or> os2 = fst (snd (serve_stop se opts d l os1 p now))"
  shows "(\<exists>d' l' port' os3. serve_boot env' opts sv' os2 q = (Inr (l', d', port'), os3)) \<and>
    (os2 \<noteq> sys_exit os1 p \<longrightarrow> os_files os2 (dp_socket_path opts) = None \<and> os_files os2 (discovery_path opts) = None)"
proof -
  let ?sock = "dp_socket_path opts" and ?locks = "locks(p := Some l)"
  have b: "lock_inv (os1, ?locks)" "lo_path l = lock_path opts" "dm_listening d"
    using serve_boot_outcome[OF assms(1-6,8)] by simp_all
  have home: "own_home opts ?locks" by (rule own_home_locked[OF assms(6) b(2)])
  have undo: "locks(p := None) = locks" using assms(2) by auto
  have stop: "fst (snd (serve_stop se opts d l os1 p now)) =
      snd (lock_release (sys_remove (sys_remove (sys_remove os1 ?sock) ?sock) (discovery_path opts)) p (Some l))"
    using b(3) by (simp add: serve_stop_def discovery_path_def Let_def split: prod.split)
  have "lock_inv (sys_remove (sys_remove (sys_remove os1 ?sock) ?sock) (discovery_path opts), ?locks)"
    by (intro inv_sys_remove b) (use home in \<open>simp_all add: own_home_def own_files_def\<close>)
  from inv_release[OF this, of p l] have stopped: "lock_inv (fst (snd (serve_stop se opts d l os1 p now)), locks)"
    by (simp add: stop undo)
  have died: "lock_inv (sys_exit os1 p, locks)"
    using lock_step_inv[OF b(1), of "LockDie p"] by (simp add: undo)
  have inv: "lock_inv (os2, locks)" using stopped died assms(13) by blast
  have "q \<in> set (os_procs os2)"
    using assms(10,11,13) serve_boot_procs[OF assms(1-5,8)] by (auto simp: sys_exit_def stop)
  then obtain l' d' port' os3 where "serve_boot env' opts sv' os2 q = (Inr (l', d', port'), os3)"
    using boot_succeeds[OF inv assms(9) _ assms(12,5,7)] by blast
  moreover have "os_files os2 ?sock = None \<and> os_files os2 (discovery_path opts) = None" if "os2 \<noteq> sys_exit os1 p"
    using that assms(13) by (simp add: stop lock_release_def close_view)
  ultimately show ?thesis by blast
qed

section \<open>A concrete home\<close>

definition demo_options :: options where
  "demo_options = \<lparr>dp_socket_path = ''/run/s'', dp_home_dir = ''/home'', dp_max_sessions = 0, dp_ring_total_bytes = 0,
     dp_ws_port = 7, dp_retention_ttl = 0, dp_version = ''1'', dp_adopted = None\<rparr>"

definition demo_serve :: serve_env where
  "demo_serve = \<lparr>sx_mkdir_ok = True, sx_lock_mkdir_ok = True, sx_acquire = demo_acquire, sx_reopen = (\<lambda>p. Inl p),
     sx_now = 0, sx_remove_ok = True, sx_listen_ok = True, sx_chmod_ok = True, sx_entropy = Some ([1], [2]),
     sx_token_write = WritesAll, sx_token_ro_write = WritesAll, sx_ws_bound = Some (True, 7),
     sx_disc_write = WritesAll, sx_rename_ok = True\<rparr>"

definition demo_machine :: os_state where
  "demo_machine = sys_start (sys_start boot_os 7) 8"

lemma demo_machine_inv: "lock_inv (demo_machine, Map.empty)"
  using lock_run_inv[OF boot_lock_inv, of "[LockStart 7, LockStart 8]"]
  by (simp add: demo_machine_def boot_os_def sys_start_def)

lemma demo_paths:
  assumes "plain_name n"
  shows "path_join ''/home'' n = ''/home/'' @ n"
proof -
  have "split_on (CHR ''/'') (''/home'' @ CHR ''/'' # n) = [[], ''home'', n]"
    unfolding split_on_append using assms by (simp add: split_on_plain plain_name_def)
  then have "split_on (CHR ''/'') (''/home'' @ ''/'' @ n) = [[], ''home'', n]" by simp
  then show ?thesis using assms by (simp add: path_join_def path_clean_def clean_seg_def plain_name_def Let_def)
qed

lemma demo_home: "own_home demo_options Map.empty"
  by (simp add: own_home_def path_free_def demo_options_def own_files_def lock_path_def discovery_path_def demo_paths
      plain_name_def file_names)

lemma demo_good: "good_boot demo_serve demo_options" "\<forall>n. ae_read_ok (sx_acquire demo_serve n)"
  by (simp_all add: good_boot_def demo_serve_def demo_acquire_def)


theorem boot_again_witness:
  "\<exists>l d port os1. serve_boot demo_serve demo_options demo_server demo_machine 7 = (Inr (l, d, port), os1) \<and>
     (\<exists>d' l' port' os3. serve_boot demo_serve demo_options demo_server (sys_exit os1 7) 8 = (Inr (l', d', port'), os3))"
proof -
  have p: "7 \<in> set (os_procs demo_machine)" "dp_adopted demo_options = None"
    by (simp_all add: demo_machine_def sys_start_def demo_options_def)
  have e: "Map.empty 7 = None" by simp
  have free: "path_free Map.empty (lock_path demo_options)" by (simp add: path_free_def)
  obtain l d port os1 where r: "serve_boot demo_serve demo_options demo_server demo_machine 7 = (Inr (l, d, port), os1)"
    using boot_succeeds[OF demo_machine_inv e p(1) demo_good(1) p(2) free, of demo_server] by blast
  have q: "8 \<in> set (os_procs demo_machine)" "Map.empty 8 = None" "7 \<noteq> (8 :: nat)"
    by (simp_all add: demo_machine_def sys_start_def)
  note again = boot_again[OF demo_machine_inv e p(1) demo_good(2) p(2) demo_home free r q(2,1,3) demo_good(1)]
  show ?thesis using conjunct1[OF again[OF disjI1[OF refl]]] r by blast
qed

end
