(* ===== verification/Upgrade.thy ===== *)
theory Upgrade
  imports Daemon
begin

text \<open>
  A new daemon that starts beside a running one: the request of \<open>RequestTakeover\<close> in
  \<open>pkg/daemon/takeover.go\<close> and the command \<open>serve\<close> of \<open>cmd/runbaypty/serve.go\<close>, joined with the old
  daemon's connection, its handover, and the lock.
\<close>

section \<open>The request\<close>

text \<open>
  What the request meets: the private directory and its listener, the dial, the two messages, the
  types of the frames that come back, the call back, and the stream. A frame that is missing is a
  read error.
\<close>

record takeover_call =
  tc_reply_dir :: "string option"
  tc_listen_ok :: bool
  tc_dial_ok :: bool
  tc_hello_sent :: bool
  tc_req_sent :: bool
  tc_replies :: "frame_type list"
  tc_called_back :: bool
  tc_is_unix :: bool
  tc_codec :: handover_codec
  tc_stream :: chan
  tc_ack_ok :: bool

definition takeover_hello :: hello where
  "takeover_hello = \<lparr>he_req_id = ''t1'', he_protocol_version = ProtocolVersion, he_token = [], he_client_name = ''takeover''\<rparr>"

definition takeover_request :: "string \<Rightarrow> handover_req" where
  "takeover_request dir = \<lparr>hr_req_id = ''t2'', hr_reply_path = dir @ ''/'' @ ''t.sock''\<rparr>"

definition request_takeover :: "takeover_call \<Rightarrow> err + adopted" where
  "request_takeover tc =
     (if tc_reply_dir tc = None then Inl (OtherErr ''takeover: reply dir'')
      else if \<not> tc_listen_ok tc then Inl (OtherErr ''takeover: reply listener'')
      else if \<not> tc_dial_ok tc then Inl (Coded DaemonUnreachable)
      else if \<not> tc_hello_sent tc then Inl (OtherErr ''write'')
      else (case tc_replies tc of
          [] \<Rightarrow> Inl (OtherErr ''takeover: handshake with old daemon failed'')
        | t # ts \<Rightarrow>
            if t \<noteq> TypeHelloAck then Inl (OtherErr ''takeover: handshake with old daemon failed'')
            else if \<not> tc_req_sent tc then Inl (OtherErr ''write'')
            else (case ts of
                [] \<Rightarrow> Inl (OtherErr ''takeover: old daemon refused'')
              | t' # _ \<Rightarrow>
                  if t' \<noteq> TypeOK then Inl (OtherErr ''takeover: old daemon refused'')
                  else if \<not> tc_called_back tc then Inl (OtherErr ''takeover: old daemon never called back'')
                  else if \<not> tc_is_unix tc then Inl (OtherErr ''takeover: need *net.UnixConn'')
                  else (case receive (tc_codec tc) (tc_ack_ok tc) (tc_stream tc) [] of
                      Inl e \<Rightarrow> Inl (OtherErr e) | Inr a \<Rightarrow> Inr a))))"

section \<open>The command\<close>

record serve_flags =
  sf_max_sessions :: int
  sf_retention_ttl :: int
  sf_ring_total :: int
  sf_ws_port :: int
  sf_takeover :: bool

definition serve_adopted :: "bool \<Rightarrow> string option \<Rightarrow> string option \<Rightarrow> takeover_call \<Rightarrow> err + adopted option" where
  "serve_adopted takeover sock home tc =
     (if \<not> takeover then Inr None
      else if sock = None then Inl (OtherErr ''socket path'')
      else if home = None then Inl (OtherErr ''home'')
      else (case request_takeover tc of
          Inl e \<Rightarrow> if e \<noteq> Coded DaemonUnreachable then Inl e else Inr None
        | Inr a \<Rightarrow> Inr (Some a)))"

definition serve_options :: "serve_flags \<Rightarrow> string \<Rightarrow> adopted option \<Rightarrow> options" where
  "serve_options fl ver ad =
     \<lparr>dp_socket_path = [], dp_home_dir = [], dp_max_sessions = sf_max_sessions fl, dp_ring_total_bytes = sf_ring_total fl,
      dp_ws_port = sf_ws_port fl, dp_retention_ttl = sf_retention_ttl fl, dp_version = ver, dp_adopted = ad\<rparr>"

definition serve_command ::
  "serve_flags \<Rightarrow> string \<Rightarrow> string option \<Rightarrow> string option \<Rightarrow> takeover_call \<Rightarrow> serve_env \<Rightarrow> os_state \<Rightarrow> pid
   \<Rightarrow> (err + lock \<times> daemon \<times> nat) \<times> os_state" where
  "serve_command fl ver sock home tc env os p =
     (case serve_adopted (sf_takeover fl) sock home tc of
        Inl e \<Rightarrow> (Inl e, os)
      | Inr ad \<Rightarrow>
          (case new_server sock home (serve_options fl ver ad) of
             Inl e \<Rightarrow> (Inl (OtherErr e), os)
           | Inr (opts, sv) \<Rightarrow> serve_boot env opts sv os p))"

section \<open>The old daemon's answer\<close>

text \<open>The two frames, handled on one connection; the types of what it sends back.\<close>

definition handshake :: "conn_env \<Rightarrow> server \<Rightarrow> conn \<Rightarrow> string \<Rightarrow> server \<times> conn" where
  "handshake env sv c dir =
     (case handle_frame env sv c (InMsg (CHello takeover_hello)) of
        (sv1, c1, _) \<Rightarrow> (case handle_frame env sv1 c1 (InMsg (CHandoverReq (takeover_request dir))) of (sv2, c2, _) \<Rightarrow> (sv2, c2)))"

definition handshake_types :: "conn_env \<Rightarrow> server \<Rightarrow> conn \<Rightarrow> string \<Rightarrow> frame_type list" where
  "handshake_types env sv c dir = map server_type (drop (length (cn_out c)) (cn_out (snd (handshake env sv c dir))))"

lemma handshake_unix:
  assumes "small_headers (ce_marshal env)"
  shows "handshake_types env sv (new_conn client False) dir = [TypeHelloAck, TypeOK]"
    "sv_handovers (fst (handshake env sv (new_conn client False) dir)) = sv_handovers sv @ [hr_reply_path (takeover_request dir)]"
proof -
  have fits: "sendable (ce_marshal env) m" if "server_payload m = []" for m
    using output_fits[OF assms, of m] that by simp
  show "handshake_types env sv (new_conn client False) dir = [TypeHelloAck, TypeOK]"
    "sv_handovers (fst (handshake env sv (new_conn client False) dir)) = sv_handovers sv @ [hr_reply_path (takeover_request dir)]"
    by (simp_all add: handshake_types_def handshake_def handle_frame_def dispatch_def inbound_type_def client_type_def
        new_conn_def on_hello_def takeover_hello_def on_handover_req_def send_ok_def conn_send_def fits server_payload_def
        control_only_types_def server_type_def)
qed

section \<open>One owner\<close>

lemma request_receives:
  assumes "request_takeover tc = Inr a"
  shows "receive (tc_codec tc) (tc_ack_ok tc) (tc_stream tc) [] = Inr a"
  using assms by (auto simp: request_takeover_def split: if_splits list.splits sum.splits)

lemma request_completes:
  assumes "tc_reply_dir tc \<noteq> None" "tc_listen_ok tc" "tc_dial_ok tc" "tc_hello_sent tc" "tc_req_sent tc"
    and "tc_replies tc = [TypeHelloAck, TypeOK]" "tc_called_back tc" "tc_is_unix tc"
    and "receive (tc_codec tc) (tc_ack_ok tc) (tc_stream tc) [] = Inr a"
  shows "request_takeover tc = Inr a"
  using assms by (auto simp: request_takeover_def)

text \<open>Nothing is received without the acknowledgement.\<close>

lemma receive_acked: "receive hc ack_ok ch acc = Inr a \<Longrightarrow> ack_ok"
proof (induction hc ack_ok ch acc rule: receive.induct)
  case (1 hc ack_ok ch acc)
  show ?case
    using 1(2) by (subst (asm) receive.simps) (auto split: option.splits if_splits prod.splits dest: 1(1))
qed

text \<open>What the stream carries does not depend on the pause.\<close>

lemma adopted_at_paused:
  assumes "q < length (rg_heap r)" "distinct ps"
  shows "adopted_at te (fst (pause_all ok r ps)) q = adopted_at te r q"
  using pause_all_nth[OF assms, of ok]
proof
  assume "q \<in> set ps \<and> se_state (session_at r q) = StateRunning \<and>
    (\<exists>b. session_at (fst (pause_all ok r ps)) q = (session_at r q)\<lparr>se_paused := True, se_reader := b\<rparr>)"
  then show ?thesis by (auto simp: adopted_at_def handover_of_def Let_def split_beta)
qed (simp add: adopted_at_def)

lemma handover_stream_of:
  assumes "perform_handover te d = (d', ch)" "ch \<noteq> []"
  shows "\<exists>sent. handover_stream te (fst (pause_all (te_pause_ok te) (sv_reg (dm_server d)) (registry_list (sv_reg (dm_server d)))))
     (registry_list (sv_reg (dm_server d))) = (ch, sent)"
  using assms by (auto simp: perform_handover_def Let_def split: prod.splits if_splits)

lemma handover_commits:
  assumes "perform_handover te d = (d', ch)" "\<not> dm_handed_over d" "dm_handed_over d'"
  shows "te_ack te = Some ctrlAck"
  using assms by (auto simp: perform_handover_def rollback_def relisten_def Let_def split: prod.splits if_splits)

lemma handover_acked:
  assumes "perform_handover te d = (d', ch)" "te_ack te = Some ctrlAck"
    and "handover_stream te (fst (pause_all (te_pause_ok te) (sv_reg (dm_server d)) (registry_list (sv_reg (dm_server d)))))
     (registry_list (sv_reg (dm_server d))) = (ch, True)" "ch \<noteq> []"
  shows "dm_handed_over d'"
  using assms by (auto simp: perform_handover_def Let_def split: prod.splits if_splits)


text \<open>The demonstration daemon, asked over a connection of its own.\<close>

definition demo_call :: "nat \<Rightarrow> takeover_call" where
  "demo_call n = \<lparr>tc_reply_dir = Some ''/tmp/r'', tc_listen_ok = True, tc_dial_ok = True, tc_hello_sent = True,
     tc_req_sent = True, tc_replies = handshake_types demo_conn_env demo_server (new_conn ''t'' False) ''/tmp/r'',
     tc_called_back = True, tc_is_unix = True, tc_codec = te_codec (demo_takeover n),
     tc_stream = snd (perform_handover (demo_takeover n) demo_daemon), tc_ack_ok = True\<rparr>"


text \<open>The acknowledgement is one byte, and the old daemon waits for it with a deadline: when it is
  written but not read in time, the old daemon takes its sessions back while the new one has them,
  and both read the same PTYs.\<close>

lemma lost_ack_two_owners:
  assumes "index_inv (sv_reg (dm_server d)) ps" "\<not> dm_handed_over d"
    and "\<forall>p\<in>set (registry_list (sv_reg (dm_server d))).
        se_state (sv_session (dm_server d) p) = StateRunning \<longrightarrow>
          se_reader (sv_session (dm_server d) p) \<and> \<not> se_paused (sv_session (dm_server d) p)"
    and "\<forall>p. te_resume_ok te p" "te_relisten_ok te" "perform_handover te d = (d', tc_stream tc)"
    and "request_takeover tc = Inr a" "te_ack te \<noteq> Some ctrlAck"
  shows "serve_adopted True (Some sock) (Some home) tc = Inr (Some a) \<and>
    sv_reg (dm_server d') = sv_reg (dm_server d) \<and> dm_listening d'"
proof -
  have "\<not> dm_handed_over d'" using handover_commits[OF assms(6,2)] assms(8) by auto
  then show ?thesis using handover_outcome[OF assms(1-6)] assms(7) by (simp add: serve_adopted_def)
qed

section \<open>A daemon that cannot be reached\<close>

lemma serve_adopted_cold:
  assumes "\<nexists>a. request_takeover tc = Inr a"
  shows "\<exists>e. serve_adopted takeover sock home tc \<in> {Inl e, Inr None}"
  using assms by (auto simp: serve_adopted_def split: sum.splits)

text \<open>The lock of a home that a daemon holds is not taken, and nothing else is touched.\<close>

lemma take_lock_held:
  assumes "lock_inv (os, locks)" "locks p = None" "p \<in> set (os_procs os)" "\<forall>n. ae_read_ok (sx_acquire env n)"
    and "dp_adopted opts = None" "locks q = Some m" "lo_path m = lock_path opts"
    and "take_lock env opts os p = (r, os1)"
  shows "\<exists>e. r = Inl e" "lock_inv (os1, locks)" "f \<noteq> lock_path opts \<Longrightarrow> file_text os1 f = file_text os f"
proof -
  note T = take_lock_cases[OF assms(1-5,8)]
  show "\<exists>e. r = Inl e"
  proof (cases r)
    case (Inr l)
    then have inv: "lock_inv (os1, locks(p := Some l))" and path: "lo_path l = lock_path opts" using T by simp_all
    have "q \<noteq> p" using assms(2,6) by auto
    then have "p = q" using lock_exclusive_inv[OF inv, of p l q m] assms(6,7) path by simp
    with \<open>q \<noteq> p\<close> show ?thesis by simp
  qed simp
  then show "lock_inv (os1, locks)" using T by auto
  show "f \<noteq> lock_path opts \<Longrightarrow> file_text os1 f = file_text os f" using T by blast
qed

lemma new_server_paths:
  "new_server sock home (serve_options fl ver ad) = Inr (opts, sv) \<Longrightarrow>
   home = Some (dp_home_dir opts) \<and> sock = Some (dp_socket_path opts) \<and> dp_adopted opts = ad"
  by (auto simp: new_server_def serve_options_def split: option.splits)



end
