(* ===== verification/Style.thy ===== *)
theory Style
  imports Errcodes
begin

text \<open>
  The frame of every command: \<open>pkg/style/style.go\<close>, which decides whether the output is coloured,
  and \<open>run\<close> of \<open>cmd/runbaypty/main.go\<close>, which prints the error of a command and turns it into the
  exit code.
\<close>

section \<open>Colour\<close>

datatype mode = ModeAuto | ModeAlways | ModeNever

definition mode_string :: "mode \<Rightarrow> string" where
  "mode_string m = (case m of ModeAlways \<Rightarrow> ''always'' | ModeNever \<Rightarrow> ''never'' | ModeAuto \<Rightarrow> ''auto'')"

definition modeAlwaysSynonyms :: "string list" where
  "modeAlwaysSynonyms = [''always'', ''yes'', ''on'', ''true'', ''1'']"

definition modeNeverSynonyms :: "string list" where
  "modeNeverSynonyms = [''never'', ''no'', ''off'', ''false'', ''0'']"

definition parse_mode :: "string \<Rightarrow> mode" where
  "parse_mode s =
     (if s \<in> set modeAlwaysSynonyms then ModeAlways else if s \<in> set modeNeverSynonyms then ModeNever else ModeAuto)"

text \<open>The environment: \<open>NO_COLOR\<close> and \<open>FORCE_COLOR\<close>, empty when unset, and whether stdout is a terminal.\<close>

record style_env =
  st_no_color :: string
  st_force_color :: string
  st_terminal :: bool

record style =
  st_enabled :: bool
  st_mode :: mode

definition style_init :: "style_env \<Rightarrow> mode \<Rightarrow> style" where
  "style_init env flagMode =
     (let m = (if flagMode = ModeAuto then
                 (if st_no_color env \<noteq> [] then ModeNever else if st_force_color env \<noteq> [] then ModeAlways else flagMode)
               else flagMode)
      in \<lparr>st_enabled = (case m of ModeAlways \<Rightarrow> True | ModeNever \<Rightarrow> False | ModeAuto \<Rightarrow> st_terminal env), st_mode = m\<rparr>)"

text \<open>An escape sequence with its parameters.\<close>

definition ansi :: "string \<Rightarrow> string" where
  "ansi code = char_of (0x1b :: nat) # ''['' @ code @ ''m''"

definition style_wrap :: "style \<Rightarrow> string \<Rightarrow> string \<Rightarrow> string" where
  "style_wrap st s code = (if \<not> st_enabled st then s else code @ s @ ansi ''0'')"

definition style_success where "style_success st s = style_wrap st s (ansi ''92'')"

definition style_error where "style_error st s = style_wrap st s (ansi ''91'' @ ansi ''1'')"

definition style_warn where "style_warn st s = style_wrap st s (ansi ''33'')"

definition style_info where "style_info st s = style_wrap st s (ansi ''36'')"

definition style_hint where "style_hint st s = style_wrap st s (ansi ''34'')"

definition style_muted where "style_muted st s = style_wrap st s (ansi ''2'')"

definition style_code where "style_code st s = style_wrap st s (ansi ''35'')"

definition style_bold where "style_bold st s = style_wrap st s (ansi ''1'')"

definition scope_badge where "scope_badge st scope = style_wrap st (''['' @ scope @ '']'') (ansi ''36'')"

section \<open>The command line\<close>

definition exitOK :: int where "exitOK = 0"

definition exitError :: int where "exitError = 1"

definition exitDaemonUnreachable :: int where "exitDaemonUnreachable = 3"

definition exit_code_for :: "goerr \<Rightarrow> int" where
  "exit_code_for e = (if is_code e DaemonUnreachable then exitDaemonUnreachable else exitError)"

definition render_error :: "goerr \<Rightarrow> string" where
  "render_error e = (case as_cli e of Some cli \<Rightarrow> plain_error cli | None \<Rightarrow> error_string e)"

text \<open>
  \<open>execute\<close> is the command tree on the arguments, with what it reports, flag errors included. The
  colour flag is read before \<open>Execute\<close> has parsed the arguments: it has its default value there.
  The result: the exit code and what goes to stderr.
\<close>

definition flag_color_default :: string where
  "flag_color_default = ''auto''"

definition run_cli :: "style_env \<Rightarrow> (string list \<Rightarrow> goerr option) \<Rightarrow> string list \<Rightarrow> int \<times> string" where
  "run_cli env execute args =
     (let st = style_init env (parse_mode flag_color_default)
      in case execute args of
           Some e \<Rightarrow> (exit_code_for e, style_error st ''ERROR: '' @ render_error e @ [char_of (10 :: nat)])
         | None \<Rightarrow> (exitOK, []))"

section \<open>What they guarantee\<close>

text \<open>\<open>ParseMode\<close> reads back the canonical names.\<close>

lemma parse_mode_string: "parse_mode (mode_string m) = m"
  by (cases m) (simp_all add: parse_mode_def mode_string_def modeAlwaysSynonyms_def modeNeverSynonyms_def)

text \<open>The precedence of the package's documentation: an explicit mode, then \<open>NO_COLOR\<close>, then
  \<open>FORCE_COLOR\<close>, then the terminal.\<close>

lemma style_precedence:
  "st_enabled (style_init env m) \<longleftrightarrow>
     m = ModeAlways \<or> m = ModeAuto \<and> st_no_color env = [] \<and> (st_force_color env \<noteq> [] \<or> st_terminal env)"
  by (cases m) (simp_all add: style_init_def Let_def)

lemma style_plain:
  assumes "\<not> st_enabled st"
  shows "style_wrap st s code = s"
  using assms by (simp add: style_wrap_def)

text \<open>The exit code says what happened, and only that: 0 when the command returned no error, 3 when
  the outermost coded error of its chain is that the daemon cannot be reached, under whatever
  wrapping, and 1 otherwise; the 2 of the comment for usage errors is never returned. The first
  line on stderr carries the code of the error, and nothing is printed without one.\<close>

theorem exit_code_contract:
  "fst (run_cli env execute args) \<in> {exitOK, exitError, exitDaemonUnreachable} \<and>
   (fst (run_cli env execute args) = exitOK \<longleftrightarrow> execute args = None) \<and>
   (fst (run_cli env execute args) = exitDaemonUnreachable \<longleftrightarrow>
      (\<exists>e. execute args = Some e \<and> err_of e = Coded DaemonUnreachable)) \<and>
   (snd (run_cli env execute args) = [] \<longleftrightarrow> execute args = None)"
  by (auto simp: run_cli_def exit_code_for_def exitOK_def exitError_def exitDaemonUnreachable_def is_code_err_of
      style_error_def style_wrap_def Let_def split: option.splits simp del: err_of.simps)

text \<open>The colour flag has no effect: whatever the arguments ask for, the environment decides alone.\<close>

theorem color_flag_ignored:
  assumes "execute args = Some e" "st_no_color env \<noteq> []"
  shows "snd (run_cli env execute args) = ''ERROR: '' @ render_error e @ [char_of (10 :: nat)]"
proof -
  have "parse_mode flag_color_default = ModeAuto" using parse_mode_string[of ModeAuto] by (simp add: mode_string_def flag_color_default_def)
  then have "\<not> st_enabled (style_init env (parse_mode flag_color_default))" using assms(2) by (simp add: style_precedence)
  then show ?thesis using assms(1) by (simp add: run_cli_def style_error_def style_plain Let_def)
qed

end
