(* ===== verification/Service.thy ===== *)
theory Service
  imports Upgrade Style
begin

text \<open>
  The supervised service, \<open>cmd/runbaypty/daemon_cmd.go\<close>: the paths and the unit files of \<open>daemon
  install\<close>, the copy of the binary, the commands given to launchd or systemd, and \<open>daemon status\<close>,
  which reads the discovery file that the daemon of \<open>Daemon\<close> writes. Files are those of the kernel
  model of \<open>ProcessLock\<close>.
\<close>

section \<open>Names\<close>

definition BinaryName :: string where "BinaryName = ''runbaypty''"

definition EnvHome :: string where "EnvHome = ''RUNBAYPTY_HOME''"

definition LoopbackHost :: string where "LoopbackHost = ''127.0.0.1''"

definition DaemonStdoutLog :: string where "DaemonStdoutLog = ''daemon.out.log''"

definition DaemonStderrLog :: string where "DaemonStderrLog = ''daemon.err.log''"

definition StableBinDirname :: string where "StableBinDirname = ''bin''"

definition launchdLabel :: string where "launchdLabel = ''com.runbay.runbaypty''"

definition systemdUnitName :: string where "systemdUnitName = ''runbaypty.service''"

definition launchd_domain :: "int \<Rightarrow> string" where
  "launchd_domain uid = ''gui/'' @ int_string uid"

definition launchd_service :: "int \<Rightarrow> string" where
  "launchd_service uid = ''gui/'' @ int_string uid @ ''/'' @ launchdLabel"

text \<open>\<open>filepath.Join\<close> of any number of elements.\<close>

definition path_joins :: "string list \<Rightarrow> string" where
  "path_joins es = (case dropWhile (\<lambda>e. e = []) es of [] \<Rightarrow> [] | es' \<Rightarrow> path_clean (join_with ''/'' es'))"

lemma path_joins_two: "path_joins [a, b] = path_join a b"
  by (simp add: path_joins_def path_join_def)

section \<open>Unit files\<close>

definition text_lines :: "string list \<Rightarrow> string" where
  "text_lines ls = concat (map (\<lambda>l. l @ [newline]) ls)"

definition tabs :: "nat \<Rightarrow> string" where
  "tabs n = replicate n (char_of (9 :: nat))"

definition plist_tag :: "nat \<Rightarrow> string \<Rightarrow> string \<Rightarrow> string" where
  "plist_tag n t body = tabs n @ ''<'' @ t @ ''>'' @ body @ ''</'' @ t @ ''>''"

definition launchd_plist :: "string \<Rightarrow> string \<Rightarrow> string" where
  \<open>launchd_plist binPath homeDir = text_lines
    [''<?xml version="1.0" encoding="UTF-8"?>'',
     ''<!DOCTYPE plist PUBLIC "-//Apple//DTD PLIST 1.0//EN" "http://www.apple.com/DTDs/PropertyList-1.0.dtd">'',
     ''<plist version="1.0">'',
     ''<dict>'',
     plist_tag 1 ''key'' ''Label'',
     plist_tag 1 ''string'' launchdLabel,
     plist_tag 1 ''key'' ''ProgramArguments'',
     tabs 1 @ ''<array>'',
     plist_tag 2 ''string'' binPath,
     plist_tag 2 ''string'' ''serve'',
     tabs 1 @ ''</array>'',
     plist_tag 1 ''key'' ''EnvironmentVariables'',
     tabs 1 @ ''<dict>'',
     plist_tag 2 ''key'' EnvHome,
     plist_tag 2 ''string'' homeDir,
     tabs 1 @ ''</dict>'',
     plist_tag 1 ''key'' ''RunAtLoad'',
     tabs 1 @ ''<true/>'',
     plist_tag 1 ''key'' ''KeepAlive'',
     tabs 1 @ ''<true/>'',
     plist_tag 1 ''key'' ''ProcessType'',
     plist_tag 1 ''string'' ''Background'',
     plist_tag 1 ''key'' ''StandardOutPath'',
     plist_tag 1 ''string'' (path_join homeDir DaemonStdoutLog),
     plist_tag 1 ''key'' ''StandardErrorPath'',
     plist_tag 1 ''string'' (path_join homeDir DaemonStderrLog),
     ''</dict>'',
     ''</plist>'']\<close>

definition systemd_unit :: "string \<Rightarrow> string \<Rightarrow> string" where
  "systemd_unit binPath homeDir = text_lines
    [''[Unit]'',
     ''Description=runbaypty '' @ map char_of [0xE2, 0x80, 0x94 :: nat] @ '' persistent PTY daemon'',
     ''Documentation=https://github.com/thesatellite-ai/runbaypty'',
     [],
     ''[Service]'',
     ''Type=simple'',
     ''ExecStart='' @ binPath @ '' serve'',
     ''Environment='' @ EnvHome @ ''='' @ homeDir,
     ''Restart=on-failure'',
     ''RestartSec=1'',
     [],
     ''[Install]'',
     ''WantedBy=default.target'']"

section \<open>Installing\<close>

record install_paths =
  ip_home_dir :: string
  ip_stable_bin :: string
  ip_unit_path :: string

definition stable_bin_dir :: "string \<Rightarrow> string" where
  "stable_bin_dir homeDir = path_join homeDir StableBinDirname"

text \<open>
  The system as the commands meet it: its name, the homes of the daemon and of the user, the user
  id, the path of the running binary, the outcome of each call, and whether launchctl or systemctl
  succeeds on a command line. \<open>ie_copy\<close> covers creating the temporary file and copying into it.
\<close>

record install_env =
  ie_goos :: string
  ie_home :: "string option"
  ie_user_home :: "string option"
  ie_uid :: int
  ie_exe :: "string option"
  ie_bin_mkdir_ok :: bool
  ie_open_ok :: bool
  ie_copy :: write_fate
  ie_close_ok :: bool
  ie_rename_ok :: bool
  ie_unit_mkdir_ok :: bool
  ie_unit_write :: write_fate
  ie_supervisor :: "string list \<Rightarrow> bool"
  ie_remove_ok :: bool

definition resolve_install_paths :: "install_env \<Rightarrow> err + install_paths" where
  "resolve_install_paths env =
     (case ie_home env of
        None \<Rightarrow> Inl (Coded Internal)
      | Some home \<Rightarrow>
          (case ie_user_home env of
             None \<Rightarrow> Inl (Coded Internal)
           | Some userHome \<Rightarrow>
               let bin = path_join (stable_bin_dir home) BinaryName
               in if ie_goos env = ''darwin'' then
                    Inr \<lparr>ip_home_dir = home, ip_stable_bin = bin,
                      ip_unit_path = path_joins [userHome, ''Library'', ''LaunchAgents'', launchdLabel @ ''.plist'']\<rparr>
                  else if ie_goos env = ''linux'' then
                    Inr \<lparr>ip_home_dir = home, ip_stable_bin = bin,
                      ip_unit_path = path_joins [userHome, ''.config'', ''systemd'', ''user'', systemdUnitName]\<rparr>
                  else Inl (Coded Unsupported)))"

definition copy_binary :: "install_env \<Rightarrow> os_state \<Rightarrow> string \<Rightarrow> err option \<times> os_state" where
  "copy_binary env os dst =
     (case ie_exe env of
        None \<Rightarrow> (Some (Coded Internal), os)
      | Some src \<Rightarrow>
          if \<not> ie_bin_mkdir_ok env then (Some (OtherErr ''create''), os)
          else (case (if ie_open_ok env then file_text os src else None) of
              None \<Rightarrow> (Some (OtherErr ''open''), os)
            | Some binary \<Rightarrow>
                (case save_file (ie_copy env) os (dst @ ''.tmp'') binary of
                   (False, os1) \<Rightarrow> (Some (OtherErr ''copy binary''), os1)
                 | (True, os1) \<Rightarrow>
                     if \<not> ie_close_ok env then (Some (OtherErr ''flush''), os1)
                     else if \<not> ie_rename_ok env then (Some (OtherErr ''rename''), os1)
                     else (None, file_rename os1 (dst @ ''.tmp'') dst))))"

text \<open>
  Commands for the supervisor in order. The first component says whether a failure ends the
  sequence; the result lists the command lines that were run.
\<close>

fun run_supervisors :: "(string list \<Rightarrow> bool) \<Rightarrow> (bool \<times> string list) list \<Rightarrow> err option \<times> string list list" where
  "run_supervisors ok [] = (None, [])"
| "run_supervisors ok ((strict, c) # cs) =
     (if ok c \<or> \<not> strict then (case run_supervisors ok cs of (e, run) \<Rightarrow> (e, c # run)) else (Some (Coded Internal), [c]))"

definition bootout :: "int \<Rightarrow> string list" where
  "bootout uid = [''launchctl'', ''bootout'', launchd_service uid]"

definition register_commands :: "install_env \<Rightarrow> install_paths \<Rightarrow> (bool \<times> string list) list" where
  "register_commands env p =
     (if ie_goos env = ''darwin'' then
        [(False, bootout (ie_uid env)), (True, [''launchctl'', ''bootstrap'', launchd_domain (ie_uid env), ip_unit_path p])]
      else [(True, [''systemctl'', ''--user'', ''daemon-reload'']),
            (True, [''systemctl'', ''--user'', ''enable'', ''--now'', systemdUnitName])])"

definition install_unit :: "install_env \<Rightarrow> install_paths \<Rightarrow> string" where
  "install_unit env p =
     (if ie_goos env = ''darwin'' then launchd_plist (ip_stable_bin p) (ip_home_dir p)
      else systemd_unit (ip_stable_bin p) (ip_home_dir p))"

definition install_command :: "install_env \<Rightarrow> os_state \<Rightarrow> err option \<times> os_state \<times> string list list" where
  "install_command env os =
     (case resolve_install_paths env of
        Inl e \<Rightarrow> (Some e, os, [])
      | Inr p \<Rightarrow>
          (case copy_binary env os (ip_stable_bin p) of
             (Some e, os1) \<Rightarrow> (Some e, os1, [])
           | (None, os1) \<Rightarrow>
               if \<not> ie_unit_mkdir_ok env then (Some (Coded Internal), os1, [])
               else (case save_file (ie_unit_write env) os1 (ip_unit_path p) (install_unit env p) of
                   (False, os2) \<Rightarrow> (Some (Coded Internal), os2, [])
                 | (True, os2) \<Rightarrow>
                     (case run_supervisors (ie_supervisor env) (register_commands env p) of
                        (e, run) \<Rightarrow> (e, os2, run)))))"

definition uninstall_command :: "install_env \<Rightarrow> os_state \<Rightarrow> err option \<times> os_state \<times> string list list" where
  "uninstall_command env os =
     (case resolve_install_paths env of
        Inl e \<Rightarrow> (Some e, os, [])
      | Inr p \<Rightarrow>
          (let c = (if ie_goos env = ''darwin'' then bootout (ie_uid env)
                    else [''systemctl'', ''--user'', ''disable'', ''--now'', systemdUnitName])
           in if os_files os (ip_unit_path p) = None then (None, os, [c])
              else if \<not> ie_remove_ok env then (Some (Coded Internal), os, [c])
              else (None, sys_remove os (ip_unit_path p), [c])))"

definition start_command :: "install_env \<Rightarrow> err option \<times> string list list" where
  "start_command env = run_supervisors (ie_supervisor env)
     [(True, if ie_goos env = ''darwin'' then [''launchctl'', ''kickstart'', ''-k'', launchd_service (ie_uid env)]
             else [''systemctl'', ''--user'', ''restart'', systemdUnitName])]"

definition stop_command :: "install_env \<Rightarrow> err option \<times> string list list" where
  "stop_command env = run_supervisors (ie_supervisor env)
     [(True, if ie_goos env = ''darwin'' then bootout (ie_uid env) else [''systemctl'', ''--user'', ''stop'', systemdUnitName])]"

section \<open>Status\<close>

text \<open>Signal 0 to a process of the user: it exists; and to pid 0, the caller's own group, it succeeds.\<close>

definition kill_zero :: "os_state \<Rightarrow> nat \<Rightarrow> bool" where
  "kill_zero os n \<longleftrightarrow> n = 0 \<or> n \<in> set (os_procs os)"

definition middle_dot :: string where
  "middle_dot = '' '' @ map char_of [0xC2, 0xB7 :: nat] @ '' ''"

definition status_text :: "string \<Rightarrow> discovery \<Rightarrow> string" where
  "status_text version d =
     ''running: pid '' @ nat_string (di_pid d) @ middle_dot @ ''version '' @ di_version d @ middle_dot @
     ''protocol v'' @ int_string (di_protocol_version d) @ [newline] @ ''socket:  '' @ di_socket_path d @ [newline] @
     (if 0 < di_ws_port d
      then ''ws:      '' @ LoopbackHost @ '':'' @ nat_string (di_ws_port d) @ '' (tokens: '' @ di_token_path d @ '')'' @ [newline]
      else []) @
     (if di_version d \<noteq> version
      then [newline] @ ''UPDATE AVAILABLE: daemon runs '' @ di_version d @ '', this binary is '' @ version @ ''.'' @ [newline] @
        ''Sessions churn on daemon restart '' @ map char_of [0xE2, 0x80, 0x94 :: nat] @ '' when ready:'' @ [newline] @
        ''  '' @ BinaryName @ '' daemon install && '' @ BinaryName @ '' daemon start'' @ [newline]
      else [])"

datatype status_out = StatusJSON bool discovery | StatusText string

text \<open>\<open>parse\<close> is \<open>json.Unmarshal\<close> into a \<open>Discovery\<close>; \<open>read_ok\<close> whether a file that is there can be read.\<close>

definition status_command ::
  "(string \<Rightarrow> discovery option) \<Rightarrow> bool \<Rightarrow> string \<Rightarrow> bool \<Rightarrow> string option \<Rightarrow> os_state \<Rightarrow> err + status_out" where
  "status_command parse read_ok version json home os =
     (case home of
        None \<Rightarrow> Inl (Coded Internal)
      | Some h \<Rightarrow>
          (case file_text os (path_join h DiscoveryFilename) of
             None \<Rightarrow> Inl (Coded DaemonUnreachable)
           | Some raw \<Rightarrow>
               if \<not> read_ok then Inl (Coded Internal)
               else (case parse raw of
                   None \<Rightarrow> Inl (Coded Internal)
                 | Some d \<Rightarrow>
                     let alive = kill_zero os (di_pid d)
                     in if json then Inr (StatusJSON alive d)
                        else if \<not> alive then Inl (Coded DaemonUnreachable)
                        else Inr (StatusText (status_text version d)))))"

section \<open>The copy is atomic\<close>

lemma save_file_other:
  assumes "lock_inv (os, locks)" "save_file w os g s = (b, os1)" "f \<noteq> g"
  shows "file_text os1 f = file_text os f" "os_files os1 f = os_files os f"
    "os_files os f = Some i \<Longrightarrow> os_data os1 i = os_data os i"
proof -
  note D = lock_invD[OF assms(1)]
  have other: "os_files os g \<noteq> Some j" if "os_files os f = Some j" for j using D(9)[OF that, of g] assms(3) by auto
  show f: "os_files os1 f = os_files os f"
    using assms(2,3) by (cases w) (auto simp: save_file_def file_put_def file_make_def split: option.split)
  show d: "os_files os f = Some i \<Longrightarrow> os_data os1 i = os_data os i" for i
    using assms(2,3) other[of i] D(7)[of f i]
    by (cases w) (auto simp: save_file_def file_put_def file_make_def split: option.split)
  show "file_text os1 f = file_text os f" using f d by (cases "os_files os f") (simp_all add: file_text_def)
qed

text \<open>Copying the binary is all or nothing for the path the supervisor points at: it holds the whole
  binary that runs, or, when any step failed, what it held before; the file a running daemon was
  started from is never written to; and no other file but the temporary one changes.\<close>

theorem copy_binary_atomic:
  assumes "lock_inv (os, locks)" "copy_binary env os dst = (e, os')"
  shows "(e = None \<longrightarrow> (\<exists>src. ie_exe env = Some src \<and> file_text os' dst = file_text os src \<and> file_text os src \<noteq> None)) \<and>
    (e \<noteq> None \<longrightarrow> file_text os' dst = file_text os dst) \<and>
    (\<forall>i. os_files os dst = Some i \<longrightarrow> os_data os' i = os_data os i) \<and>
    (\<forall>f. f \<noteq> dst \<and> f \<noteq> dst @ ''.tmp'' \<longrightarrow> file_text os' f = file_text os f)"
proof -
  let ?tmp = "dst @ ''.tmp''"
  have tmp: "dst \<noteq> ?tmp" by simp
  show ?thesis
  proof (cases "\<exists>src binary. ie_exe env = Some src \<and> ie_bin_mkdir_ok env \<and> ie_open_ok env \<and> file_text os src = Some binary")
    case False
    then have "os' = os" "e \<noteq> None" using assms(2) by (auto simp: copy_binary_def split: option.splits if_splits)
    then show ?thesis by auto
  next
    case True
    then obtain src binary where src: "ie_exe env = Some src" "ie_bin_mkdir_ok env" "ie_open_ok env" "file_text os src = Some binary"
      by blast
    obtain b os1 where w: "save_file (ie_copy env) os ?tmp binary = (b, os1)" by fastforce
    note other = save_file_other[OF assms(1) w]
    have run: "copy_binary env os dst = (if \<not> b then (Some (OtherErr ''copy binary''), os1)
        else if \<not> ie_close_ok env then (Some (OtherErr ''flush''), os1)
        else if \<not> ie_rename_ok env then (Some (OtherErr ''rename''), os1) else (None, file_rename os1 ?tmp dst))"
      using src w by (cases b) (simp_all add: copy_binary_def)
    show ?thesis
    proof (cases "e = None")
      case True
      then have "os' = file_rename os1 ?tmp dst" "b" using run assms(2) by (auto split: if_splits)
      moreover have "file_text os1 ?tmp = Some binary" using save_file_text[of _ os ?tmp binary os1] w \<open>b\<close> by simp
      ultimately show ?thesis
        using True src other(1,2) other(3)[OF tmp] by (auto simp: file_text_def file_rename_def)
    next
      case False
      then have "os' = os1" using run assms(2) by (auto split: if_splits)
      then show ?thesis using False other(1) other(3)[OF tmp] tmp by auto
    qed
  qed
qed

definition demo_install :: install_env where
  "demo_install = \<lparr>ie_goos = ''linux'', ie_home = Some ''/h'', ie_user_home = Some ''/u'', ie_uid = 7, ie_exe = Some ''/b'',
     ie_bin_mkdir_ok = True, ie_open_ok = True, ie_copy = WritesAll, ie_close_ok = True, ie_rename_ok = True,
     ie_unit_mkdir_ok = True, ie_unit_write = WritesAll, ie_supervisor = (\<lambda>c. True), ie_remove_ok = True\<rparr>"

theorem copy_binary_atomic_witness:
  "let os = file_put (file_make demo_machine ''/b'') ''/b'' ''elf''
   in file_text (snd (copy_binary demo_install os ''/d'')) ''/d'' = Some ''elf'' \<and>
      file_text (snd (copy_binary (demo_install\<lparr>ie_copy := WritesPart 1\<rparr>) os ''/d'')) ''/d'' = None"
proof -
  let ?os = "file_put (file_make demo_machine ''/b'') ''/b'' ''elf''"
  have inv: "lock_inv (?os, Map.empty)"
    by (intro inv_file_put inv_file_make demo_machine_inv) (simp add: path_free_def)
  have exe: "file_text ?os ''/b'' = Some ''elf''" "file_text ?os ''/d'' = None"
    by (simp_all add: file_text_def file_put_def file_make_def demo_machine_def sys_start_def boot_os_def)
  have ok: "fst (copy_binary demo_install ?os ''/d'') = None" "ie_exe demo_install = Some ''/b''"
    using exe by (simp_all add: copy_binary_def demo_install_def save_file_def)
  have bad: "fst (copy_binary (demo_install\<lparr>ie_copy := WritesPart 1\<rparr>) ?os ''/d'') \<noteq> None"
    using exe by (simp add: copy_binary_def demo_install_def save_file_def)
  note at = copy_binary_atomic[OF inv surjective_pairing]
  show ?thesis using at[of demo_install "''/d''"] at[of "demo_install\<lparr>ie_copy := WritesPart 1\<rparr>" "''/d''"] ok bad exe by simp
qed

text \<open>The supervisor is only spoken to once everything it will start is in place: the binary is the
  one that ran the command, and the unit file names it.\<close>

lemma install_before_register:
  assumes "lock_inv (os, locks)" "resolve_install_paths env = Inr p" "install_command env os = (e, os', run)" "run \<noteq> []"
    and "path_free locks (ip_stable_bin p)" "path_free locks (ip_stable_bin p @ ''.tmp'')" "ip_unit_path p \<noteq> ip_stable_bin p"
  shows "(\<exists>src. ie_exe env = Some src \<and> file_text os' (ip_stable_bin p) = file_text os src \<and> file_text os src \<noteq> None) \<and>
    file_text os' (ip_unit_path p) = Some (install_unit env p)"
proof -
  obtain e1 os1 where c: "copy_binary env os (ip_stable_bin p) = (e1, os1)" by fastforce
  obtain b os2 where w: "save_file (ie_unit_write env) os1 (ip_unit_path p) (install_unit env p) = (b, os2)" by fastforce
  have "e1 = None" "b" "os' = os2"
    using assms(2-4) c w by (cases e1; cases b; auto simp: install_command_def split: if_splits prod.splits)+
  obtain src bin where src: "ie_exe env = Some src" "file_text os src = Some bin" "file_text os1 (ip_stable_bin p) = Some bin"
      "lock_inv (os1, locks)"
  proof -
    let ?tmp = "ip_stable_bin p @ ''.tmp''"
    obtain src bin b2 osa where x: "ie_exe env = Some src" "file_text os src = Some bin"
        "save_file (ie_copy env) os ?tmp bin = (True, osa)" "os1 = file_rename osa ?tmp (ip_stable_bin p)"
      using c \<open>e1 = None\<close> by (auto simp: copy_binary_def split: option.splits if_splits prod.splits bool.splits)
    have "lock_inv (osa, locks)" using inv_save_file[OF assms(1,6), of "ie_copy env" bin] x(3) by simp
    then have "lock_inv (os1, locks)" using inv_file_rename assms(5,6) x(4) by simp
    moreover have "file_text os1 (ip_stable_bin p) = Some bin"
      using save_file_text[OF x(3)] x(4) by (auto simp: file_text_def file_rename_def)
    ultimately show ?thesis using that x by blast
  qed
  have "file_text os2 (ip_stable_bin p) = Some bin"
    using save_file_other(1)[OF src(4) w, of "ip_stable_bin p"] assms(7) src(3) by simp
  then show ?thesis using src save_file_text[of _ os1] w \<open>b\<close> \<open>os' = os2\<close> by simp
qed

section \<open>Status tells the truth\<close>

text \<open>What becomes of the discovery file and of the process of a daemon that has booted.\<close>

lemma status_text_reported:
  assumes "file_text os (path_join h DiscoveryFilename) = Some raw" "parse raw = Some d"
  shows "status_command parse True version False (Some h) os =
    (if kill_zero os (di_pid d) then Inr (StatusText (status_text version d)) else Inl (Coded DaemonUnreachable))"
  using assms by (simp add: status_command_def)

lemma stopped_files:
  assumes "dm_listening d"
  shows "file_text (fst (snd (serve_stop se opts d l os p now))) (discovery_path opts) = None"
  using assms by (simp add: serve_stop_def discovery_path_def lock_release_def close_view file_text_def Let_def split: prod.split)



end
