(* ===== verification/AttachStream.thy ===== *)
theory AttachStream
  imports Messages Machine
begin

text \<open>
  The attach stream of the client, \<open>pkg/client/stream.go\<close>: what the reader goroutine delivers,
  and what the consumer reads. Each method holds the stream's mutex and is one step; a read that
  would wait on the condition variable is \<open>None\<close> and leaves the stream as it is.
\<close>

record stream =
  st_session_id :: string
  st_buf :: "byte list"
  st_seq :: u64
  st_closed :: bool
  st_err :: "err option"
  st_exit_at :: "exit_msg option"
  st_refusal :: "err option"

definition new_stream :: "string \<Rightarrow> u64 option \<Rightarrow> stream" where
  "new_stream sid since =
     \<lparr>st_session_id = sid, st_buf = [], st_seq = (case since of Some n \<Rightarrow> n | None \<Rightarrow> 0), st_closed = False,
      st_err = None, st_exit_at = None, st_refusal = None\<rparr>"

definition stream_deliver :: "stream \<Rightarrow> u64 \<Rightarrow> byte list \<Rightarrow> stream" where
  "stream_deliver st sq payload =
     (if st_closed st then st
      else st\<lparr>st_buf := st_buf st @ payload, st_seq := sq + of_nat (length payload)\<rparr>)"

definition stream_exit :: "stream \<Rightarrow> exit_msg \<Rightarrow> stream" where
  "stream_exit st ex = st\<lparr>st_exit_at := Some ex, st_closed := True\<rparr>"

definition stream_finish :: "stream \<Rightarrow> err option \<Rightarrow> stream" where
  "stream_finish st e = (if st_closed st then st else st\<lparr>st_closed := True, st_err := e\<rparr>)"

definition stream_push_err :: "stream \<Rightarrow> err \<Rightarrow> stream" where
  "stream_push_err st e = (if e = Coded RingGone then st else st\<lparr>st_refusal := Some e\<rparr>)"

definition write_refusal :: "stream \<Rightarrow> err option \<times> stream" where
  "write_refusal st = (st_refusal st, st\<lparr>st_refusal := None\<rparr>)"

definition stream_exit_code :: "stream \<Rightarrow> (int \<times> string) option" where
  "stream_exit_code st = map_option (\<lambda>ex. (ex_exit_code ex, ex_signal ex)) (st_exit_at st)"

datatype read_result = ReadBytes "byte list" | ReadErr err | ReadEOF

text \<open>\<open>Read\<close> with a buffer of \<open>n\<close> bytes.\<close>

definition stream_read :: "nat \<Rightarrow> stream \<Rightarrow> read_result option \<times> stream" where
  "stream_read n st =
     (if st_buf st = [] \<and> \<not> st_closed st then (None, st)
      else if st_buf st \<noteq> [] then (Some (ReadBytes (take n (st_buf st))), st\<lparr>st_buf := drop n (st_buf st)\<rparr>)
      else (case st_err st of Some e \<Rightarrow> (Some (ReadErr e), st) | None \<Rightarrow> (Some ReadEOF, st)))"

section \<open>The stream and its consumer\<close>

datatype stream_op =
    StDeliver u64 "byte list" | StExit exit_msg | StFinish "err option" | StPushErr err | StRefusal | StRead nat

text \<open>The stream and what the consumer has been given so far.\<close>

fun stream_step :: "stream \<times> read_result list \<Rightarrow> stream_op \<Rightarrow> stream \<times> read_result list" where
  "stream_step (st, out) (StDeliver sq p) = (stream_deliver st sq p, out)"
| "stream_step (st, out) (StExit ex) = (stream_exit st ex, out)"
| "stream_step (st, out) (StFinish e) = (stream_finish st e, out)"
| "stream_step (st, out) (StPushErr e) = (stream_push_err st e, out)"
| "stream_step (st, out) StRefusal = (snd (write_refusal st), out)"
| "stream_step (st, out) (StRead n) =
     (case stream_read n st of (None, st') \<Rightarrow> (st', out) | (Some r, st') \<Rightarrow> (st', out @ [r]))"

definition bytes_of :: "read_result list \<Rightarrow> byte list" where
  "bytes_of rs = concat (map (\<lambda>r. case r of ReadBytes b \<Rightarrow> b | _ \<Rightarrow> []) rs)"

text \<open>What the reader goroutine delivered before the stream was closed.\<close>

fun delivered :: "stream_op list \<Rightarrow> byte list" where
  "delivered [] = []"
| "delivered (StDeliver sq p # ops) = p @ delivered ops"
| "delivered (StExit ex # ops) = []"
| "delivered (StFinish e # ops) = []"
| "delivered (_ # ops) = delivered ops"

lemma bytes_of_append [simp]: "bytes_of (xs @ ys) = bytes_of xs @ bytes_of ys"
  by (simp add: bytes_of_def)

lemmas stream_defs = stream_deliver_def stream_exit_def stream_finish_def stream_push_err_def write_refusal_def
  stream_read_def bytes_of_def

lemma stream_run_closed:
  "st_closed st \<Longrightarrow> foldl stream_step (st, out) ops = (st', out') \<Longrightarrow>
   st_closed st' \<and> bytes_of out' @ st_buf st' = bytes_of out @ st_buf st"
proof (induction ops arbitrary: st out)
  case (Cons op ops)
  obtain st1 out1 where s: "stream_step (st, out) op = (st1, out1)" by fastforce
  have "st_closed st1 \<and> bytes_of out1 @ st_buf st1 = bytes_of out @ st_buf st"
    using s Cons.prems(1) by (cases op) (auto simp: stream_defs split: if_splits option.splits)
  then show ?case using Cons.IH[of st1 out1] Cons.prems(2) s by simp
qed simp

lemma stream_run:
  "\<not> st_closed st \<Longrightarrow> foldl stream_step (st, out) ops = (st', out') \<Longrightarrow>
   bytes_of out' @ st_buf st' = bytes_of out @ st_buf st @ delivered ops"
proof (induction ops arbitrary: st out)
  case (Cons op ops)
  obtain st1 out1 where s: "stream_step (st, out) op = (st1, out1)" by fastforce
  then have r: "foldl stream_step (st1, out1) ops = (st', out')" using Cons.prems(2) by simp
  show ?case
  proof (cases "st_closed st1")
    case True
    then have "delivered (op # ops) = []" "bytes_of out1 @ st_buf st1 = bytes_of out @ st_buf st"
      using s Cons.prems(1) by (cases op; auto simp: stream_defs split: if_splits option.splits)+
    then show ?thesis using stream_run_closed[OF True r] by simp
  next
    case False
    have "bytes_of out1 @ st_buf st1 @ delivered ops = bytes_of out @ st_buf st @ delivered (op # ops)"
      using s False Cons.prems(1) by (cases op) (auto simp: stream_defs split: if_splits option.splits)
    then show ?thesis using Cons.IH[OF False r] by simp
  qed
qed simp

text \<open>C35. A stream is an honest reader: whatever sizes the consumer reads in and however its reads
  interleave with the deliveries, it gets the delivered bytes in order, nothing lost, nothing
  twice; and it is told the end, by EOF or an error, only when it has read all of them.\<close>

theorem stream_reads_delivered:
  assumes "foldl stream_step (new_stream sid since, []) ops = (st, out)"
  shows "bytes_of out @ st_buf st = delivered ops \<and>
    (\<forall>n r. stream_read n st = (Some r, st) \<and> (\<forall>b. r \<noteq> ReadBytes b) \<longrightarrow> bytes_of out = delivered ops)"
proof -
  have "bytes_of out @ st_buf st = delivered ops"
    using stream_run[OF _ assms] by (simp add: new_stream_def bytes_of_def)
  then show ?thesis by (auto simp: stream_read_def split: if_splits)
qed

theorem stream_reads_delivered_witness:
  "bytes_of (snd (foldl stream_step (new_stream ''s'' None, [])
     [StDeliver 0 [1, 2, 3], StRead 2, StDeliver 3 [4], StFinish None, StDeliver 4 [5], StRead 9, StRead 9])) = [1, 2, 3, 4]"
proof -
  let ?ops = "[StDeliver 0 [1, 2, 3], StRead 2, StDeliver 3 [4], StFinish None, StDeliver 4 [5], StRead 9, StRead 9]"
  obtain st out where r: "foldl stream_step (new_stream ''s'' None, []) ?ops = (st, out)" by fastforce
  then have "st_buf st = []" by (auto simp: stream_defs new_stream_def)
  then show ?thesis using conjunct1[OF stream_reads_delivered[OF r]] unfolding r by simp
qed

end
