(* ===== verification/Client.thy ===== *)
theory Client
  imports AttachStream Conn
begin

text \<open>
  The client library, \<open>pkg/client/client.go\<close> with the attach and detach of \<open>stream.go\<close>: the table of
  pending requests, the reader goroutine that sorts the frames of the daemon, and every method.
  A method is a function of what happens on the connection while it waits.
\<close>

section \<open>State\<close>

text \<open>
  A frame as the reader sees it: with its header, or with one that does not decode as a message
  of its type, and the request id that can still be read off it (empty when there is none).
\<close>

datatype rx = RxMsg server_msg | RxBad frame_type string

definition server_req_id :: "server_msg \<Rightarrow> string" where
  "server_req_id m = (case m of
      SHelloAck h \<Rightarrow> ha_req_id h | SError e \<Rightarrow> em_req_id e | SSpawnOK s \<Rightarrow> so_req_id s
    | SListOK l \<Rightarrow> lo_req_id l | SInfoOK i \<Rightarrow> io_req_id i | SAttachOK a \<Rightarrow> ao_req_id a | SOK k \<Rightarrow> ok_req_id k
    | SWatchOK w \<Rightarrow> wo_req_id w | SReplayCommandOK r _ \<Rightarrow> ro_req_id r | _ \<Rightarrow> [])"

definition rx_type :: "rx \<Rightarrow> frame_type" where
  "rx_type f = (case f of RxMsg m \<Rightarrow> server_type m | RxBad t _ \<Rightarrow> t)"

definition rx_req_id :: "rx \<Rightarrow> string" where
  "rx_req_id f = (case f of RxMsg m \<Rightarrow> server_req_id m | RxBad _ i \<Rightarrow> i)"

text \<open>The response slot of a request: a channel with room for one frame.\<close>

datatype slot = SlotEmpty | SlotFull rx | SlotClosed

record 'a push_chan =
  pc_queue :: "'a list"
  pc_closed :: bool

text \<open>
  Streams and push channels outlive the maps that route to them, so they are in a heap:
  \<open>cl_streams\<close> and \<open>cl_watchers\<close> hold indices. \<open>cl_slots\<close> holds the slot of every request made.
\<close>

record client =
  cl_next_req :: nat
  cl_pending :: "string list"
  cl_slots :: "(string, slot) gomap"
  cl_streams :: "(string, nat) gomap"
  cl_heap :: "stream list"
  cl_watchers :: "(string, nat) gomap"
  cl_watch_chans :: "watch_event push_chan list"
  cl_events :: "nat option"
  cl_event_chans :: "event push_chan list"
  cl_client_id :: string
  cl_closed :: bool
  cl_done :: bool
  cl_out :: "client_msg list"

definition new_client :: client where
  "new_client = \<lparr>cl_next_req = 0, cl_pending = [], cl_slots = [], cl_streams = [], cl_heap = [],
     cl_watchers = [], cl_watch_chans = [], cl_events = None, cl_event_chans = [], cl_client_id = [],
     cl_closed = False, cl_done = False, cl_out = []\<rparr>"

definition pushChanSize :: nat where
  "pushChanSize = 64"

section \<open>The reader\<close>

definition settle :: "client \<Rightarrow> string \<Rightarrow> rx \<Rightarrow> client" where
  "settle c reqID f =
     (if reqID \<in> set (cl_pending c)
      then c\<lparr>cl_pending := removeAll reqID (cl_pending c), cl_slots := mput reqID (SlotFull f) (cl_slots c)\<rparr>
      else c)"

definition on_stream :: "client \<Rightarrow> string \<Rightarrow> (stream \<Rightarrow> stream) \<Rightarrow> client" where
  "on_stream c sid f =
     (case mget (cl_streams c) sid of None \<Rightarrow> c | Some i \<Rightarrow> c\<lparr>cl_heap := (cl_heap c)[i := f (cl_heap c ! i)]\<rparr>)"

text \<open>The non-blocking send of the push channels.\<close>

definition chan_offer :: "'a push_chan \<Rightarrow> 'a \<Rightarrow> 'a push_chan" where
  "chan_offer ch x = (if length (pc_queue ch) < pushChanSize then ch\<lparr>pc_queue := pc_queue ch @ [x]\<rparr> else ch)"

definition route_watch_event :: "client \<Rightarrow> watch_event \<Rightarrow> client" where
  "route_watch_event c we =
     (case mget (cl_watchers c) (we_watch_id we) of
        None \<Rightarrow> c
      | Some i \<Rightarrow> c\<lparr>cl_watch_chans := (cl_watch_chans c)[i := chan_offer (cl_watch_chans c ! i) we]\<rparr>)"

definition route_event :: "client \<Rightarrow> event \<Rightarrow> client" where
  "route_event c ev =
     (case cl_events c of
        None \<Rightarrow> c
      | Some i \<Rightarrow> c\<lparr>cl_event_chans := (cl_event_chans c)[i := chan_offer (cl_event_chans c ! i) ev]\<rparr>)"

definition route_push_error :: "client \<Rightarrow> error_msg \<Rightarrow> client" where
  "route_push_error c em = foldl (\<lambda>c sid. on_stream c sid (\<lambda>st. stream_push_err st (Coded (em_code em)))) c (map fst (cl_streams c))"

text \<open>One frame of the loop; once the loop has ended nothing reads any more.\<close>

definition client_rx :: "client \<Rightarrow> rx \<Rightarrow> client" where
  "client_rx c f =
     (if cl_done c then c
      else case f of
          RxMsg (SOutput h p) \<Rightarrow> on_stream c (oh_session_id h) (\<lambda>st. stream_deliver st (oh_seq h) p)
        | RxMsg (SExit ex) \<Rightarrow> on_stream c (ex_session_id ex) (\<lambda>st. stream_exit st ex)
        | RxMsg (SWatchEvent we) \<Rightarrow> route_watch_event c we
        | RxMsg (SEvent ev) \<Rightarrow> route_event c ev
        | RxMsg (SError em) \<Rightarrow> if em_req_id em \<noteq> [] then settle c (em_req_id em) f else route_push_error c em
        | RxMsg m \<Rightarrow> if server_req_id m \<noteq> [] then settle c (server_req_id m) f else c
        | RxBad t i \<Rightarrow>
            if t \<in> {TypeOutput, TypeExit, TypeWatchEvent, TypeEvent, TypeError} then c
            else if i \<noteq> [] then settle c i f else c)"

text \<open>The read error that ends the loop: \<open>failAll\<close>.\<close>

definition fail_all :: "client \<Rightarrow> client" where
  "fail_all c =
     c\<lparr>cl_pending := [],
       cl_slots := map (\<lambda>(i, s). (i, if i \<in> set (cl_pending c) then SlotClosed else s)) (cl_slots c),
       cl_streams := [],
       cl_heap := foldl (\<lambda>h i. h[i := stream_finish (h ! i) (Some (Coded DaemonUnreachable))]) (cl_heap c) (map snd (cl_streams c)),
       cl_watchers := [],
       cl_watch_chans := foldl (\<lambda>h i. h[i := (h ! i)\<lparr>pc_closed := True\<rparr>]) (cl_watch_chans c) (map snd (cl_watchers c)),
       cl_events := None,
       cl_event_chans := (case cl_events c of None \<Rightarrow> cl_event_chans c
         | Some i \<Rightarrow> (cl_event_chans c)[i := (cl_event_chans c ! i)\<lparr>pc_closed := True\<rparr>])\<rparr>"

definition client_rx_error :: "client \<Rightarrow> client" where
  "client_rx_error c = (if cl_done c then c else (fail_all c)\<lparr>cl_done := True\<rparr>)"

section \<open>Requests\<close>

definition request_begin :: "client \<Rightarrow> (err + string) \<times> client" where
  "request_begin c =
     (if cl_closed c then (Inl (Coded DaemonUnreachable), c)
      else
        let n = Suc (cl_next_req c); reqID = ''c'' @ nat_string n
        in (Inr reqID, c\<lparr>cl_next_req := n, cl_pending := reqID # cl_pending c,
             cl_slots := mput reqID SlotEmpty (cl_slots c)\<rparr>))"

text \<open>\<open>sent\<close> is whether the encoder could write the message.\<close>

definition request_send :: "bool \<Rightarrow> client \<Rightarrow> string \<Rightarrow> client_msg \<Rightarrow> err option \<times> client" where
  "request_send sent c reqID m =
     (if sent then (None, c\<lparr>cl_out := cl_out c @ [m]\<rparr>)
      else (Some (OtherErr ''client: send''), c\<lparr>cl_pending := removeAll reqID (cl_pending c)\<rparr>))"

definition request_cancel :: "client \<Rightarrow> string \<Rightarrow> client" where
  "request_cancel c reqID = c\<lparr>cl_pending := removeAll reqID (cl_pending c)\<rparr>"

definition request_result :: "frame_type \<Rightarrow> rx \<Rightarrow> err + rx" where
  "request_result wantType f =
     (if rx_type f = TypeError then
        (case f of RxMsg (SError em) \<Rightarrow> Inl (Coded (em_code em)) | _ \<Rightarrow> Inl (OtherErr ''decode header''))
      else if rx_type f \<noteq> wantType then Inl (Coded BadFrame)
      else Inr f)"

text \<open>What happens on the connection while a request waits: a frame, the end of reading, or the
  end of the caller's context.\<close>

datatype net_event = NetFrame rx | NetError | NetCancel

text \<open>\<open>None\<close>: still waiting when the events are over.\<close>

fun await :: "client \<Rightarrow> string \<Rightarrow> frame_type \<Rightarrow> net_event list \<Rightarrow> (err + rx) option \<times> client \<times> net_event list" where
  "await c reqID wantType es =
     (case mget (cl_slots c) reqID of
        Some (SlotFull f) \<Rightarrow> (Some (request_result wantType f), c, es)
      | Some SlotClosed \<Rightarrow> (Some (Inl (Coded DaemonUnreachable)), c, es)
      | _ \<Rightarrow>
          (case es of
             [] \<Rightarrow> (None, c, [])
           | NetFrame f # es' \<Rightarrow> await (client_rx c f) reqID wantType es'
           | NetError # es' \<Rightarrow> await (client_rx_error c) reqID wantType es'
           | NetCancel # es' \<Rightarrow> (Some (Inl (OtherErr ''context'')), request_cancel c reqID, es')))"

declare await.simps [simp del]

definition request ::
  "bool \<Rightarrow> client \<Rightarrow> (string \<Rightarrow> client_msg) \<Rightarrow> frame_type \<Rightarrow> net_event list
   \<Rightarrow> (err + rx) option \<times> client \<times> net_event list" where
  "request sent c build wantType es =
     (case request_begin c of
        (Inl e, c1) \<Rightarrow> (Some (Inl e), c1, es)
      | (Inr reqID, c1) \<Rightarrow>
          (case request_send sent c1 reqID (build reqID) of
             (Some e, c2) \<Rightarrow> (Some (Inl e), c2, es)
           | (None, c2) \<Rightarrow> await c2 reqID wantType es))"

section \<open>Methods\<close>

text \<open>A method that decodes its response, and one that only wants the \<open>OK\<close>.\<close>

definition call ::
  "bool \<Rightarrow> client \<Rightarrow> (string \<Rightarrow> client_msg) \<Rightarrow> frame_type \<Rightarrow> (server_msg \<Rightarrow> 'a option) \<Rightarrow> net_event list
   \<Rightarrow> (err + 'a) option \<times> client \<times> net_event list" where
  "call sent c build wantType get es =
     (case request sent c build wantType es of
        (r, c', es') \<Rightarrow>
          (map_option (\<lambda>r. case r of
              Inl e \<Rightarrow> Inl e
            | Inr f \<Rightarrow> (case f of
                  RxMsg m \<Rightarrow> (case get m of Some a \<Rightarrow> Inr a | None \<Rightarrow> Inl (OtherErr ''decode header''))
                | RxBad _ _ \<Rightarrow> Inl (OtherErr ''decode header''))) r, c', es'))"

definition call_ok ::
  "bool \<Rightarrow> client \<Rightarrow> (string \<Rightarrow> client_msg) \<Rightarrow> net_event list \<Rightarrow> (err + unit) option \<times> client \<times> net_event list" where
  "call_ok sent c build es =
     (case request sent c build TypeOK es of
        (r, c', es') \<Rightarrow> (map_option (\<lambda>r. case r of Inl e \<Rightarrow> Inl e | Inr _ \<Rightarrow> Inr ()) r, c', es'))"

definition sdkClientName :: string where
  "sdkClientName = ''go-sdk''"

text \<open>\<open>Close\<close> waits for the reader, which the closed connection ends.\<close>

definition client_close :: "client \<Rightarrow> client" where
  "client_close c = (if cl_closed c then c else client_rx_error (c\<lparr>cl_closed := True\<rparr>))"

definition client_dial :: "bool \<Rightarrow> bool \<Rightarrow> net_event list \<Rightarrow> (err + client) option \<times> net_event list" where
  "client_dial reachable sent es =
     (if \<not> reachable then (Some (Inl (Coded DaemonUnreachable)), es)
      else (case call sent new_client
            (\<lambda>i. CHello \<lparr>he_req_id = i, he_protocol_version = ProtocolVersion, he_token = [], he_client_name = sdkClientName\<rparr>)
            TypeHelloAck (\<lambda>m. case m of SHelloAck h \<Rightarrow> Some h | _ \<Rightarrow> None) es of
          (None, c, es') \<Rightarrow> (None, es')
        | (Some (Inl e), c, es') \<Rightarrow> (Some (Inl e), es')
        | (Some (Inr ack), c, es') \<Rightarrow> (Some (Inr (c\<lparr>cl_client_id := ha_client_id ack\<rparr>)), es')))"

record spawn_opts =
  op_cmd :: string
  op_args :: "string list"
  op_cwd :: string
  op_env :: "string list"
  op_cols :: u16
  op_rows :: u16
  op_name :: string
  op_meta :: "(string, string) gomap"
  op_annotations :: string
  op_ring_bytes :: int
  op_log_path :: string
  op_no_linger :: bool

definition spawn_msg :: "spawn_opts \<Rightarrow> string \<Rightarrow> client_msg" where
  "spawn_msg opts i =
     (let unset = (op_cols opts = 0 \<or> op_rows opts = 0)
      in CSpawn \<lparr>sp_req_id = i, sp_cmd = op_cmd opts, sp_args = op_args opts, sp_cwd = op_cwd opts, sp_env = op_env opts,
           sp_cols = (if unset then 80 else op_cols opts), sp_rows = (if unset then 24 else op_rows opts),
           sp_name = op_name opts, sp_meta = op_meta opts, sp_annotations = op_annotations opts,
           sp_ring_bytes = op_ring_bytes opts, sp_log_path = op_log_path opts,
           sp_linger = (if op_no_linger opts then Some False else None)\<rparr>)"

definition client_spawn where
  "client_spawn sent c opts es = call sent c (spawn_msg opts) TypeSpawnOK
     (\<lambda>m. case m of SSpawnOK k \<Rightarrow> Some (so_session_id k, so_pid k) | _ \<Rightarrow> None) es"

definition client_list where
  "client_list sent c es = call sent c (\<lambda>i. CList \<lparr>li_req_id = i\<rparr>) TypeListOK
     (\<lambda>m. case m of SListOK k \<Rightarrow> Some (lo_sessions k) | _ \<Rightarrow> None) es"

definition client_info where
  "client_info sent c idOrName es = call sent c (\<lambda>i. CInfo \<lparr>if_req_id = i, if_session_id = idOrName\<rparr>) TypeInfoOK
     (\<lambda>m. case m of SInfoOK k \<Rightarrow> Some (io_session k) | _ \<Rightarrow> None) es"

definition client_kill where
  "client_kill sent c idOrName sig es =
     call_ok sent c (\<lambda>i. CKill \<lparr>ki_req_id = i, ki_session_id = idOrName, ki_signal = sig\<rparr>) es"

definition client_resize where
  "client_resize sent c idOrName cols rows es =
     call_ok sent c (\<lambda>i. CResize \<lparr>rz_req_id = i, rz_session_id = idOrName, rz_cols = cols, rz_rows = rows\<rparr>) es"

definition client_rename where
  "client_rename sent c idOrName newName es =
     call_ok sent c (\<lambda>i. CRename \<lparr>rn_req_id = i, rn_session_id = idOrName, rn_name = newName\<rparr>) es"

definition client_set_meta where
  "client_set_meta sent c idOrName meta es =
     call_ok sent c (\<lambda>i. CSetMeta \<lparr>sm_req_id = i, sm_session_id = idOrName, sm_meta = meta\<rparr>) es"

definition client_set_meta_json where
  "client_set_meta_json sent c idOrName patch mode ifVersion es =
     call_ok sent c (\<lambda>i. CSetMetaJSON \<lparr>sj_req_id = i, sj_session_id = idOrName, sj_mode = mode,
       sj_if_version = ifVersion, sj_patch = patch\<rparr>) es"

definition client_take_write where
  "client_take_write sent c idOrName es =
     call_ok sent c (\<lambda>i. CTakeWrite \<lparr>tw_req_id = i, tw_session_id = idOrName\<rparr>) es"

definition client_release_write where
  "client_release_write sent c idOrName es =
     call_ok sent c (\<lambda>i. CReleaseWrite \<lparr>rw_req_id = i, rw_session_id = idOrName\<rparr>) es"

definition client_input_eof where
  "client_input_eof sent c idOrName es =
     call_ok sent c (\<lambda>i. CInputEOF \<lparr>ie_req_id = i, ie_session_id = idOrName\<rparr>) es"

definition client_input :: "bool \<Rightarrow> client \<Rightarrow> string \<Rightarrow> byte list \<Rightarrow> err option \<times> client" where
  "client_input sent c sid p =
     (if sent then (None, c\<lparr>cl_out := cl_out c @ [CInput \<lparr>in_req_id = [], in_session_id = sid\<rparr> p]\<rparr>)
      else (Some (OtherErr ''write''), c))"

text \<open>The channel is registered after the response: what the reader routes in between is dropped.
  \<open>between\<close> are the frames of that gap.\<close>

definition client_watch where
  "client_watch sent c idOrName pattern between es =
     (case call sent c (\<lambda>i. CWatch \<lparr>wa_req_id = i, wa_session_id = idOrName, wa_pattern = pattern\<rparr>) TypeWatchOK
         (\<lambda>m. case m of SWatchOK k \<Rightarrow> Some (wo_watch_id k) | _ \<Rightarrow> None) es of
        (Some (Inr wid), c1, es') \<Rightarrow>
          let c2 = foldl client_rx c1 between; ch = length (cl_watch_chans c2)
          in (Some (Inr ch), c2\<lparr>cl_watch_chans := cl_watch_chans c2 @ [\<lparr>pc_queue = [], pc_closed = False\<rparr>],
               cl_watchers := mput wid ch (cl_watchers c2)\<rparr>, es')
      | (Some (Inl e), c1, es') \<Rightarrow> (Some (Inl e), c1, es')
      | (None, c1, es') \<Rightarrow> (None, c1, es'))"

definition client_last_command_output where
  "client_last_command_output sent c idOrName es =
     call sent c (\<lambda>i. CReplayCommand \<lparr>rc_req_id = i, rc_session_id = idOrName\<rparr>) TypeReplayCommandOK
       (\<lambda>m. case m of SReplayCommandOK k p \<Rightarrow> Some (p, ro_start_seq k, ro_end_seq k) | _ \<Rightarrow> None) es"

definition client_subscribe_events where
  "client_subscribe_events sent c sessionFilter es =
     (if cl_events c \<noteq> None then (Some (Inl (Coded InvalidInput)), c, es)
      else
        let ch = length (cl_event_chans c);
            c1 = c\<lparr>cl_event_chans := cl_event_chans c @ [\<lparr>pc_queue = [], pc_closed = False\<rparr>], cl_events := Some ch\<rparr>
        in case call_ok sent c1 (\<lambda>i. CSubEvents \<lparr>se_req_id = i, se_session_id = sessionFilter\<rparr>) es of
             (Some (Inl e), c2, es') \<Rightarrow> (Some (Inl e), c2\<lparr>cl_events := None\<rparr>, es')
           | (Some (Inr _), c2, es') \<Rightarrow> (Some (Inr ch), c2, es')
           | (None, c2, es') \<Rightarrow> (None, c2, es'))"

text \<open>Attach and detach of \<open>stream.go\<close>: the result of an attach is the stream's place in the heap.\<close>

definition client_attach where
  "client_attach sent1 sent2 c idOrName sinceSeq readOnly es =
     (case client_info sent1 c idOrName es of
        (Some (Inr info), c1, es1) \<Rightarrow>
          let sid = si_id info; i = length (cl_heap c1)
          in if mget (cl_streams c1) sid \<noteq> None then (Some (Inl (Coded InvalidInput)), c1, es1)
             else
               let c2 = c1\<lparr>cl_heap := cl_heap c1 @ [new_stream sid sinceSeq], cl_streams := mput sid i (cl_streams c1)\<rparr>
               in (case request sent2 c2 (\<lambda>q. CAttach \<lparr>at_req_id = q, at_session_id = sid, at_since_seq = sinceSeq,
                       at_read_only = readOnly\<rparr>) TypeAttachOK es1 of
                     (Some (Inl e), c3, es3) \<Rightarrow> (Some (Inl e), c3\<lparr>cl_streams := mdel sid (cl_streams c3)\<rparr>, es3)
                   | (Some (Inr f), c3, es3) \<Rightarrow> (Some (Inr i), c3, es3)
                   | (None, c3, es3) \<Rightarrow> (None, c3, es3))
      | (Some (Inl e), c1, es1) \<Rightarrow> (Some (Inl e), c1, es1)
      | (None, c1, es1) \<Rightarrow> (None, c1, es1))"

definition client_detach where
  "client_detach sent c i es =
     (let sid = st_session_id (cl_heap c ! i)
      in case call_ok sent c (\<lambda>q. CDetach \<lparr>de_req_id = q, de_session_id = sid\<rparr>) es of
           (None, c1, es1) \<Rightarrow> (None, c1, es1)
         | (Some r, c1, es1) \<Rightarrow>
             (Some (case r of Inl e \<Rightarrow> Some e | Inr _ \<Rightarrow> None),
              c1\<lparr>cl_streams := mdel sid (cl_streams c1), cl_heap := (cl_heap c1)[i := stream_finish (cl_heap c1 ! i) None]\<rparr>, es1))"

section \<open>Any number of callers\<close>

text \<open>The atomic parts of the methods of any number of goroutines, and the reader, in any order.\<close>

datatype client_op =
    ClBegin | ClSend bool string client_msg | ClCancel string
  | ClStream string "u64 option" | ClUnstream string | ClWatcher string | ClEvents
  | ClRx rx | ClRxError | ClClose

fun client_step :: "client \<Rightarrow> client_op \<Rightarrow> client" where
  "client_step c ClBegin = snd (request_begin c)"
| "client_step c (ClSend sent i m) = snd (request_send sent c i m)"
| "client_step c (ClCancel i) = request_cancel c i"
| "client_step c (ClStream sid since) =
     c\<lparr>cl_heap := cl_heap c @ [new_stream sid since], cl_streams := mput sid (length (cl_heap c)) (cl_streams c)\<rparr>"
| "client_step c (ClUnstream sid) = c\<lparr>cl_streams := mdel sid (cl_streams c)\<rparr>"
| "client_step c (ClWatcher wid) =
     c\<lparr>cl_watch_chans := cl_watch_chans c @ [\<lparr>pc_queue = [], pc_closed = False\<rparr>],
       cl_watchers := mput wid (length (cl_watch_chans c)) (cl_watchers c)\<rparr>"
| "client_step c ClEvents =
     c\<lparr>cl_event_chans := cl_event_chans c @ [\<lparr>pc_queue = [], pc_closed = False\<rparr>], cl_events := Some (length (cl_event_chans c))\<rparr>"
| "client_step c (ClRx f) = client_rx c f"
| "client_step c ClRxError = client_rx_error c"
| "client_step c ClClose = client_close c"

definition client_inv :: "client \<Rightarrow> bool" where
  "client_inv c \<longleftrightarrow> mwf (cl_slots c) \<and>
     (\<forall>i\<in>set (cl_pending c). mget (cl_slots c) i = Some SlotEmpty) \<and>
     (\<forall>i f. mget (cl_slots c) i = Some (SlotFull f) \<longrightarrow> rx_req_id f = i) \<and>
     (\<forall>i. mget (cl_slots c) i \<noteq> None \<longrightarrow> (\<exists>k\<le>cl_next_req c. i = ''c'' @ nat_string k))"

lemma nat_string_inj: "nat_string a = nat_string b \<Longrightarrow> a = b"
  by (metis parse_nat_string option.inject add_left_cancel)

text \<open>What the operations do to the table of requests.\<close>

lemma on_stream_frame [simp]:
  "cl_slots (on_stream c sid f) = cl_slots c" "cl_pending (on_stream c sid f) = cl_pending c"
  "cl_next_req (on_stream c sid f) = cl_next_req c" "cl_done (on_stream c sid f) = cl_done c"
  "cl_closed (on_stream c sid f) = cl_closed c"
  by (simp_all add: on_stream_def split: option.split)

lemma on_streams_frame:
  "let c' = foldl (\<lambda>c sid. on_stream c sid g) c sids in cl_slots c' = cl_slots c \<and> cl_pending c' = cl_pending c \<and>
     cl_next_req c' = cl_next_req c \<and> cl_done c' = cl_done c \<and> cl_closed c' = cl_closed c"
  by (induction sids arbitrary: c) (simp_all add: Let_def)

lemma route_frame [simp]:
  "cl_slots (route_watch_event c we) = cl_slots c" "cl_pending (route_watch_event c we) = cl_pending c"
  "cl_next_req (route_watch_event c we) = cl_next_req c" "cl_done (route_watch_event c we) = cl_done c"
  "cl_slots (route_event c ev) = cl_slots c" "cl_pending (route_event c ev) = cl_pending c"
  "cl_next_req (route_event c ev) = cl_next_req c" "cl_done (route_event c ev) = cl_done c"
  "cl_slots (route_push_error c em) = cl_slots c" "cl_pending (route_push_error c em) = cl_pending c"
  "cl_next_req (route_push_error c em) = cl_next_req c" "cl_done (route_push_error c em) = cl_done c"
  using on_streams_frame[of "\<lambda>st. stream_push_err st (Coded (em_code em))" c "map fst (cl_streams c)"]
  by (simp_all add: route_watch_event_def route_event_def route_push_error_def Let_def split: option.split)

definition same_table :: "client \<Rightarrow> client \<Rightarrow> bool" where
  "same_table c c' \<longleftrightarrow> cl_slots c' = cl_slots c \<and> cl_pending c' = cl_pending c \<and> cl_next_req c' = cl_next_req c \<and>
     cl_done c' = cl_done c"

lemma same_table_route [simp]:
  "same_table c c" "same_table c (on_stream c sid f)" "same_table c (route_watch_event c we)"
  "same_table c (route_event c ev)" "same_table c (route_push_error c em)"
  by (simp_all add: same_table_def)

text \<open>A frame either leaves the table alone or settles the request whose id it carries.\<close>

lemma client_rx_done [simp]: "cl_done c \<Longrightarrow> client_rx c f = c"
  by (simp add: client_rx_def)

lemma client_rx_bad: "\<not> cl_done c \<Longrightarrow> client_rx c (RxBad t i) = c \<or> client_rx c (RxBad t i) = settle c i (RxBad t i)"
  by (simp add: client_rx_def)

lemma client_rx_response:
  assumes "\<not> cl_done c" "server_req_id m \<noteq> []" "server_type m \<notin> {TypeOutput, TypeExit, TypeWatchEvent, TypeEvent, TypeError}"
  shows "client_rx c (RxMsg m) = settle c (server_req_id m) (RxMsg m)"
  using assms by (cases m) (simp_all add: client_rx_def server_req_id_def server_type_def)

lemma client_rx_push:
  assumes "\<not> cl_done c" "server_req_id m = [] \<or> server_type m \<in> {TypeOutput, TypeExit, TypeWatchEvent, TypeEvent}"
  shows "same_table c (client_rx c (RxMsg m))"
  using assms by (cases m) (simp_all add: client_rx_def server_req_id_def server_type_def)

lemma client_rx_error_frame:
  "\<not> cl_done c \<Longrightarrow> server_type m = TypeError \<Longrightarrow> server_req_id m \<noteq> [] \<Longrightarrow>
   client_rx c (RxMsg m) = settle c (server_req_id m) (RxMsg m)"
  by (cases m) (simp_all add: client_rx_def server_req_id_def server_type_def)

lemma client_rx_split: "same_table c (client_rx c f) \<or> \<not> cl_done c \<and> client_rx c f = settle c (rx_req_id f) f"
proof (cases "cl_done c")
  case False
  show ?thesis
  proof (cases f)
    case (RxMsg m)
    consider "server_req_id m = [] \<or> server_type m \<in> {TypeOutput, TypeExit, TypeWatchEvent, TypeEvent}"
      | "server_req_id m \<noteq> []" "server_type m = TypeError"
      | "server_req_id m \<noteq> []" "server_type m \<notin> {TypeOutput, TypeExit, TypeWatchEvent, TypeEvent, TypeError}"
      by blast
    then show ?thesis
      unfolding RxMsg rx_req_id_def rx.case
      by cases (use False client_rx_push client_rx_error_frame client_rx_response in blast)+
  next
    case (RxBad t i)
    show ?thesis
      unfolding RxBad rx_req_id_def rx.case using client_rx_bad[OF False, of t i] False same_table_route(1)[of c] by metis
  qed
qed simp

lemma client_rx_cases:
  obtains (same) "cl_slots (client_rx c f) = cl_slots c" "cl_pending (client_rx c f) = cl_pending c"
      "cl_next_req (client_rx c f) = cl_next_req c" "cl_done (client_rx c f) = cl_done c"
  | (settle) "\<not> cl_done c" "rx_req_id f \<in> set (cl_pending c)" "client_rx c f = settle c (rx_req_id f) f"
proof (cases "same_table c (client_rx c f)")
  case True
  then show ?thesis by (intro same) (simp_all add: same_table_def)
next
  case False
  then have a: "\<not> cl_done c" "client_rx c f = settle c (rx_req_id f) f" using client_rx_split[of c f] by blast+
  then have "rx_req_id f \<in> set (cl_pending c)" using False same_table_route(1)[of c] unfolding settle_def by metis
  then show ?thesis using a by (intro settle)
qed

lemma mget_map_slots: "mget (map (\<lambda>(i, s). (i, g i s)) m) k = map_option (g k) (mget m k)"
  by (induction m) (auto simp: mget_def)

lemma mwf_map_slots: "mwf (map (\<lambda>(i, s). (i, g i s)) m) = mwf m"
  by (simp add: mwf_def comp_def split_beta)

lemma fail_all_table:
  "mget (cl_slots (fail_all c)) i = map_option (\<lambda>s. if i \<in> set (cl_pending c) then SlotClosed else s) (mget (cl_slots c) i)"
  "cl_pending (fail_all c) = []" "cl_next_req (fail_all c) = cl_next_req c" "mwf (cl_slots (fail_all c)) = mwf (cl_slots c)"
  by (simp_all add: fail_all_def mget_map_slots[of "\<lambda>i s. if i \<in> set (cl_pending c) then SlotClosed else s"]
      mwf_map_slots[of "\<lambda>i s. if i \<in> set (cl_pending c) then SlotClosed else s"])

lemma client_inv_fail: "client_inv c \<Longrightarrow> client_inv ((fail_all c)\<lparr>cl_done := True\<rparr>)"
  by (auto simp: client_inv_def fail_all_table)

lemma client_inv_cong:
  "cl_slots c' = cl_slots c \<Longrightarrow> set (cl_pending c') \<subseteq> set (cl_pending c) \<Longrightarrow> cl_next_req c' = cl_next_req c \<Longrightarrow>
   client_inv c \<Longrightarrow> client_inv c'"
  by (auto simp: client_inv_def)

lemma fresh_id:
  "client_inv c \<Longrightarrow> mget (cl_slots c) (''c'' @ nat_string (Suc (cl_next_req c))) = None"
  unfolding client_inv_def using nat_string_inj by fastforce

interpretation client_machine: machine client_step client_inv
proof
  fix c x assume inv: "client_inv c"
  show "client_inv (client_step c x)"
  proof (cases x)
    case ClBegin
    have "''c'' @ nat_string (Suc (cl_next_req c)) \<notin> set (cl_pending c)"
      using fresh_id[OF inv] inv by (auto simp: client_inv_def)
    then show ?thesis using inv by (auto simp: ClBegin request_begin_def client_inv_def Let_def) (meson le_SucI)
  next
    case (ClRx f)
    show ?thesis
    proof (cases rule: client_rx_cases[of c f])
      case same
      then show ?thesis using inv by (simp add: ClRx client_inv_def)
    next
      case settle
      then show ?thesis using inv by (auto simp: ClRx settle_def client_inv_def)
    qed
  next
    case ClClose
    have "client_inv (c\<lparr>cl_closed := True\<rparr>)" using inv by (simp add: client_inv_def)
    then show ?thesis using inv by (auto simp: ClClose client_close_def client_rx_error_def client_inv_fail)
  qed (use inv in \<open>auto simp: request_send_def request_cancel_def client_rx_error_def client_inv_fail
      intro!: client_inv_cong[of _ c]\<close>)
qed

lemma new_client_inv: "client_inv new_client"
  by (simp add: new_client_def client_inv_def)

text \<open>A slot that was answered or closed stays as it is, and an answer was received.\<close>

lemma slot_final:
  assumes "client_inv c" "mget (cl_slots c) i = Some s" "s \<noteq> SlotEmpty"
  shows "mget (cl_slots (foldl client_step c ops)) i = Some s"
proof -
  have one: "mget (cl_slots (client_step c x)) i = Some s" if "client_inv c" "mget (cl_slots c) i = Some s" for c x
  proof (cases x)
    case ClBegin
    then show ?thesis using fresh_id[OF that(1)] that(2) by (auto simp: request_begin_def Let_def)
  next
    case (ClRx f)
    show ?thesis
    proof (cases rule: client_rx_cases[of c f])
      case settle
      then have "i \<noteq> rx_req_id f" using that assms(3) by (auto simp: client_inv_def)
      then show ?thesis using that(2) settle by (simp add: ClRx settle_def)
    qed (use that in \<open>simp add: ClRx\<close>)
  next
    case ClClose
    have "i \<notin> set (cl_pending c)" using that assms(3) by (auto simp: client_inv_def)
    then show ?thesis using that(2) by (auto simp: ClClose client_close_def client_rx_error_def fail_all_table)
  next
    case ClRxError
    have "i \<notin> set (cl_pending c)" using that assms(3) by (auto simp: client_inv_def)
    then show ?thesis using that(2) by (auto simp: ClRxError client_rx_error_def fail_all_table)
  qed (use that in \<open>auto simp: request_send_def request_cancel_def\<close>)
  show ?thesis
    using assms(1,2)
  proof (induction ops arbitrary: c)
    case (Cons x ops)
    then show ?case using one[OF Cons.prems] client_machine.inv_step[OF Cons.prems(1)] by simp
  qed simp
qed

lemma slot_received:
  "mget (cl_slots (foldl client_step new_client ops)) i = Some (SlotFull f) \<Longrightarrow> ClRx f \<in> set ops"
proof (induction ops rule: rev_induct)
  case (snoc x ops)
  let ?c = "foldl client_step new_client ops"
  have inv: "client_inv ?c" by (rule client_machine.inv_run[OF new_client_inv])
  have "mget (cl_slots ?c) i = Some (SlotFull f) \<or> x = ClRx f"
  proof (cases x)
    case (ClRx g)
    show ?thesis
    proof (cases rule: client_rx_cases[of ?c g])
      case settle
      then show ?thesis using snoc.prems by (auto simp: ClRx settle_def split: if_splits)
    qed (use snoc.prems in \<open>simp add: ClRx\<close>)
  qed (use snoc.prems in \<open>auto simp: request_begin_def request_send_def request_cancel_def client_close_def
      client_rx_error_def fail_all_table Let_def split: if_splits\<close>)
  then show ?case using snoc.IH by auto
qed (simp add: new_client_def)

section \<open>Requests and answers\<close>

text \<open>C24. Answers find their callers: in any interleaving of any number of requests, a caller is only
  ever given a frame that was received and carries the id of its own request, ids are never used
  twice, and when the connection dies every request then waiting is told so, for good.\<close>

theorem responses_matched:
  assumes "foldl client_step new_client ops = c"
  shows "(\<forall>i f. mget (cl_slots c) i = Some (SlotFull f) \<longrightarrow> rx_req_id f = i \<and> ClRx f \<in> set ops) \<and>
    (\<forall>i. fst (request_begin c) = Inr i \<longrightarrow> mget (cl_slots c) i = None) \<and>
    (\<forall>ops1 ops2 i. ops = ops1 @ ClRxError # ops2 \<longrightarrow> \<not> cl_done (foldl client_step new_client ops1) \<longrightarrow>
       i \<in> set (cl_pending (foldl client_step new_client ops1)) \<longrightarrow> mget (cl_slots c) i = Some SlotClosed)"
proof (intro conjI allI impI)
  have inv: "client_inv c" using client_machine.inv_run[OF new_client_inv] assms by blast
  show "rx_req_id f = i" if "mget (cl_slots c) i = Some (SlotFull f)" for i f
    using inv that by (simp add: client_inv_def)
  show "ClRx f \<in> set ops" if "mget (cl_slots c) i = Some (SlotFull f)" for i f
    using that assms by (intro slot_received) auto
  show "mget (cl_slots c) i = None" if "fst (request_begin c) = Inr i" for i
    using that fresh_id[OF inv] by (auto simp: request_begin_def Let_def split: if_splits)
  fix ops1 ops2 i
  let ?c1 = "foldl client_step new_client ops1"
  assume o: "ops = ops1 @ ClRxError # ops2" "\<not> cl_done ?c1" "i \<in> set (cl_pending ?c1)"
  have inv1: "client_inv ?c1" by (rule client_machine.inv_run[OF new_client_inv])
  then have "mget (cl_slots (client_step ?c1 ClRxError)) i = Some SlotClosed"
    using o(2,3) by (simp add: client_rx_error_def fail_all_table client_inv_def)
  from slot_final[OF client_machine.inv_step[OF inv1] this] show "mget (cl_slots c) i = Some SlotClosed"
    using assms o(1) by auto
qed

text \<open>A reader that has ended: the reading stops, but the connection is not closed.\<close>

lemma await_dead:
  "cl_done c \<Longrightarrow> mget (cl_slots c) i = Some SlotEmpty \<Longrightarrow> NetCancel \<notin> set es \<Longrightarrow> fst (await c i want es) = None"
proof (induction es arbitrary: c)
  case (Cons e es)
  then show ?case by (cases e) (subst await.simps, simp add: client_rx_def client_rx_error_def)+
qed (subst await.simps, simp)

text \<open>C40. A request on a connection whose reader has ended waits forever: the reader neither closes
  the client nor the socket when a frame cannot be decoded, so a later request is registered and
  sent, and nothing that can still happen, short of its context ending, returns it.\<close>

theorem dead_reader_hangs:
  assumes "cl_done c" "\<not> cl_closed c" "NetCancel \<notin> set es"
  shows "fst (request True c build want es) = None"
  using assms by (auto simp: request_def request_begin_def request_send_def Let_def intro!: await_dead)

theorem responses_matched_witness:
  "mget (cl_slots (foldl client_step new_client
     [ClBegin, ClBegin, ClRx (RxMsg (SOK \<lparr>ok_req_id = ''c2''\<rparr>)), ClRxError, ClBegin])) ''c1'' = Some SlotClosed"
proof -
  have n: "nat_string 1 = ''1''" "nat_string 2 = ''2''" by code_simp+
  let ?ops1 = "[ClBegin, ClBegin, ClRx (RxMsg (SOK \<lparr>ok_req_id = ''c2''\<rparr>))]"
  have "''c1'' \<in> set (cl_pending (foldl client_step new_client ?ops1))" "\<not> cl_done (foldl client_step new_client ?ops1)"
    using n by (simp_all add: new_client_def request_begin_def client_rx_def settle_def server_req_id_def Let_def numeral_2_eq_2)
  then show ?thesis
    using responses_matched[of "?ops1 @ ClRxError # [ClBegin]", OF refl] by (simp del: foldl_Cons foldl_append) (metis append.simps)
qed

theorem dead_reader_hangs_witness:
  "fst (client_list True (client_rx_error new_client) [NetFrame (RxMsg (SListOK \<lparr>lo_req_id = ''c1'', lo_sessions = []\<rparr>)), NetError]) = None"
proof -
  have "cl_done (client_rx_error new_client)" "\<not> cl_closed (client_rx_error new_client)"
    by (simp_all add: client_rx_error_def fail_all_def new_client_def)
  then have "fst (request True (client_rx_error new_client) (\<lambda>i. CList \<lparr>li_req_id = i\<rparr>) TypeListOK
      [NetFrame (RxMsg (SListOK \<lparr>lo_req_id = ''c1'', lo_sessions = []\<rparr>)), NetError]) = None"
    by (rule dead_reader_hangs) simp
  then show ?thesis by (simp add: client_list_def call_def split_beta)
qed

end
