(* ===== verification/Requests.thy ===== *)
theory Requests
  imports Client Access
begin

text \<open>
  A request from end to end: the handlers of \<open>pkg/daemon/conn.go\<close> answer each request with one
  frame that carries its id, and \<open>pkg/client/client.go\<close> gives that frame to the caller.
\<close>

section \<open>The daemon's side\<close>

text \<open>The type of the answer that is not an error.\<close>

definition reply_type :: "client_msg \<Rightarrow> frame_type" where
  "reply_type m = (case m of
      CHello _ \<Rightarrow> TypeHelloAck | CSpawn _ \<Rightarrow> TypeSpawnOK | CList _ \<Rightarrow> TypeListOK | CInfo _ \<Rightarrow> TypeInfoOK
    | CAttach _ \<Rightarrow> TypeAttachOK | CReplayCommand _ \<Rightarrow> TypeReplayCommandOK | CWatch _ \<Rightarrow> TypeWatchOK | _ \<Rightarrow> TypeOK)"

definition answered :: "conn \<Rightarrow> conn \<Rightarrow> string \<Rightarrow> frame_type \<Rightarrow> bool" where
  "answered c c' i t \<longleftrightarrow>
     (\<exists>r. cn_out c' = cn_out c @ [r] \<and> server_req_id r = i \<and> (server_type r = TypeError \<or> server_type r = t))"

text \<open>What the daemon can put on the wire: small headers, and a command's output that fits a chunk.\<close>

definition replies_fit :: "conn_env \<Rightarrow> server \<Rightarrow> bool" where
  "replies_fit env sv \<longleftrightarrow> small_headers (ce_marshal env) \<and>
     (\<forall>x p a b t d. sv_lookup env sv x = Inr p \<longrightarrow> command_window_of (sv_session sv p) = Some (a, b, t, d) \<longrightarrow>
        length d \<le> outputChunkBytes)"

lemma answered_send:
  assumes "replies_fit env sv" "\<not> cn_closed c1" "cn_out c1 = cn_out c" "server_req_id m = i"
    "server_type m = TypeError \<or> server_type m = t" "length (server_payload m) \<le> outputChunkBytes"
  shows "answered c (send env c1 m) i t"
proof -
  have "sendable (ce_marshal env) m" using assms(1,6) by (intro output_fits) (auto simp: replies_fit_def)
  then show ?thesis
    using assms(2-5) unfolding answered_def by (intro exI[of _ m]) (simp add: conn_send_def)
qed

lemma answered_err:
  "replies_fit env sv \<Longrightarrow> \<not> cn_closed c1 \<Longrightarrow> cn_out c1 = cn_out c \<Longrightarrow> answered c (send_err env c1 i e) i t"
  unfolding send_err_def by (rule answered_send) (simp_all add: server_req_id_def server_type_def server_payload_def)

lemma answered_ok:
  "replies_fit env sv \<Longrightarrow> \<not> cn_closed c1 \<Longrightarrow> cn_out c1 = cn_out c \<Longrightarrow> answered c (send_ok env c1 i) i TypeOK"
  unfolding send_ok_def by (rule answered_send) (simp_all add: server_req_id_def server_type_def server_payload_def)

lemma answered_reply:
  "replies_fit env sv \<Longrightarrow> \<not> cn_closed c1 \<Longrightarrow> cn_out c1 = cn_out c \<Longrightarrow> answered c (reply env c1 i e) i TypeOK"
  unfolding reply_def by (simp add: answered_err answered_ok split: option.split)

lemma answered_lookup_for_write:
  assumes "replies_fit env sv" "\<not> cn_closed c" "lookup_for_write env sv c i sid = (c', p)"
  shows "p = None \<longrightarrow> answered c c' i TypeOK" "p \<noteq> None \<longrightarrow> c' = c"
  using assms answered_err[OF assms(1,2) refl, of i _ TypeOK]
  by (auto simp: lookup_for_write_def split: sum.splits option.splits if_splits)

text \<open>The handlers, one lemma each; the table of types is \<open>reply_type\<close>.\<close>

lemmas answer_facts = server_req_id_def server_type_def server_payload_def

lemma answered_hello:
  "replies_fit env sv \<Longrightarrow> \<not> cn_closed c \<Longrightarrow> answered c (fst (on_hello env sv c m)) (he_req_id m) TypeHelloAck"
  unfolding on_hello_def
  by (auto simp: answered_err answer_facts split: option.split intro!: answered_send)

lemma answered_spawn:
  "replies_fit env sv \<Longrightarrow> \<not> cn_closed c \<Longrightarrow> answered c (snd (on_spawn env sv c m)) (sp_req_id m) TypeSpawnOK"
  unfolding on_spawn_def
  by (auto simp: answered_err answer_facts split: option.split sum.split prod.split intro!: answered_send)

lemma answered_input_eof:
  assumes "replies_fit env sv" "\<not> cn_closed c"
  shows "answered c (snd (on_input_eof env sv c m)) (ie_req_id m) TypeOK"
  using assms answered_lookup_for_write[OF assms, of "ie_req_id m" "ie_session_id m"]
  unfolding on_input_eof_def by (auto simp: answered_reply split: option.split prod.split)

lemma answered_resize:
  "replies_fit env sv \<Longrightarrow> \<not> cn_closed c \<Longrightarrow> answered c (snd (on_resize env sv c m)) (rz_req_id m) TypeOK"
  unfolding on_resize_def by (auto simp: answered_err answered_reply split: sum.split prod.split)

lemma answered_kill:
  "replies_fit env sv \<Longrightarrow> \<not> cn_closed c \<Longrightarrow> answered c (snd (on_kill env sv c m)) (ki_req_id m) TypeOK"
  unfolding on_kill_def by (auto simp: answered_err answered_reply split: sum.split prod.split)

lemma answered_list:
  "replies_fit env sv \<Longrightarrow> \<not> cn_closed c \<Longrightarrow> answered c (on_list env sv c m) (li_req_id m) TypeListOK"
  unfolding on_list_def by (rule answered_send) (auto simp: answer_facts)

lemma answered_info:
  "replies_fit env sv \<Longrightarrow> \<not> cn_closed c \<Longrightarrow> answered c (on_info env sv c m) (if_req_id m) TypeInfoOK"
  unfolding on_info_def by (auto simp: answered_err answer_facts split: sum.split intro!: answered_send)

lemma answered_attach:
  "replies_fit env sv \<Longrightarrow> \<not> cn_closed c \<Longrightarrow> answered c (snd (on_attach env sv c m)) (at_req_id m) TypeAttachOK"
  unfolding on_attach_def Let_def
  by (auto simp: answered_err answer_facts split: sum.split intro!: answered_send)

lemma answered_detach:
  "replies_fit env sv \<Longrightarrow> \<not> cn_closed c \<Longrightarrow> answered c (snd (on_detach env sv c m)) (de_req_id m) TypeOK"
  unfolding on_detach_def Let_def by (auto simp: answered_err answered_ok split: sum.split)

lemma answered_rename:
  "replies_fit env sv \<Longrightarrow> \<not> cn_closed c \<Longrightarrow> answered c (snd (on_rename env sv c m)) (rn_req_id m) TypeOK"
  unfolding on_rename_def by (auto simp: answered_reply split: prod.split)

lemma answered_set_meta:
  "replies_fit env sv \<Longrightarrow> \<not> cn_closed c \<Longrightarrow> answered c (snd (on_set_meta env sv c m)) (sm_req_id m) TypeOK"
  unfolding on_set_meta_def by (auto simp: answered_err answered_ok split: sum.split prod.split)

lemma answered_set_meta_json:
  "replies_fit env sv \<Longrightarrow> \<not> cn_closed c \<Longrightarrow> answered c (snd (on_set_meta_json env sv c m)) (sj_req_id m) TypeOK"
  unfolding on_set_meta_json_def by (auto simp: answered_err answered_reply split: sum.split prod.split)

lemma answered_take_write:
  assumes "replies_fit env sv" "\<not> cn_closed c"
  shows "answered c (snd (on_take_write env sv c m)) (tw_req_id m) TypeOK"
  using assms answered_lookup_for_write[OF assms, of "tw_req_id m" "tw_session_id m"]
  unfolding on_take_write_def by (auto simp: answered_ok split: option.split prod.split)

lemma answered_release_write:
  "replies_fit env sv \<Longrightarrow> \<not> cn_closed c \<Longrightarrow> answered c (snd (on_release_write env sv c m)) (rw_req_id m) TypeOK"
  unfolding on_release_write_def by (auto simp: answered_err answered_ok split: sum.split)

lemma answered_subscribe_events:
  "replies_fit env sv \<Longrightarrow> \<not> cn_closed c \<Longrightarrow> answered c (snd (on_subscribe_events env sv c m)) (se_req_id m) TypeOK"
  unfolding on_subscribe_events_def by (auto simp: answered_err answered_ok split: prod.split)

lemma answered_replay_command:
  assumes "replies_fit env sv" "\<not> cn_closed c"
  shows "answered c (on_replay_command env sv c m) (rc_req_id m) TypeReplayCommandOK"
  using assms unfolding on_replay_command_def
  by (auto simp: answered_err answer_facts replies_fit_def split: sum.split option.split prod.split intro!: answered_send[OF assms(1)])

lemma answered_handover:
  "replies_fit env sv \<Longrightarrow> \<not> cn_closed c \<Longrightarrow> answered c (snd (on_handover_req env sv c m)) (hr_req_id m) TypeOK"
  unfolding on_handover_req_def by (auto simp: answered_err answered_ok)

lemma answered_watch:
  "replies_fit env sv \<Longrightarrow> \<not> cn_closed c \<Longrightarrow> answered c (on_watch env sv c m) (wa_req_id m) TypeWatchOK"
  unfolding on_watch_def Let_def
  by (auto simp: answered_err answer_facts split: sum.split intro!: answered_send)

lemmas handlers_answer = answered_hello answered_spawn answered_input_eof answered_resize answered_kill answered_list
  answered_info answered_attach answered_detach answered_rename answered_set_meta answered_set_meta_json
  answered_take_write answered_release_write answered_subscribe_events answered_replay_command answered_handover
  answered_watch

lemma dispatch_msg_answers:
  assumes "replies_fit env sv" "\<not> cn_closed c" "client_type m \<noteq> TypeInput"
  shows "answered c (fst (snd (dispatch_msg env sv c m))) (client_req_id m) (reply_type m)"
  using assms handlers_answer[OF assms(1,2)]
  by (cases m) (simp_all add: client_req_id_def reply_type_def client_type_def split_beta)

lemma dispatch_answers:
  assumes "replies_fit env sv" "\<not> cn_closed c" "client_type m \<noteq> TypeInput"
  shows "answered c (fst (snd (dispatch env sv c (InMsg m)))) (client_req_id m) (reply_type m)"
  using dispatch_msg_answers[OF assms] answered_err[OF assms(1,2) refl]
  by (simp add: dispatch_def probe_req_id_def)

section \<open>The client's side\<close>

text \<open>Frames for others leave the request waiting; its answer ends it.\<close>

lemma await_others:
  assumes "mget (cl_slots c) i = Some SlotEmpty" "i \<in> set (cl_pending c)" "\<not> cl_done c" "\<forall>f\<in>set fs. rx_req_id f \<noteq> i"
  obtains c' where "await c i t (map NetFrame fs @ es) = await c' i t es"
    "mget (cl_slots c') i = Some SlotEmpty" "i \<in> set (cl_pending c')" "\<not> cl_done c'"
  using assms
proof (induction fs arbitrary: c thesis)
  case (Cons f fs)
  have "mget (cl_slots (client_rx c f)) i = Some SlotEmpty \<and> i \<in> set (cl_pending (client_rx c f)) \<and> \<not> cl_done (client_rx c f)"
    using Cons.prems by (rule_tac client_rx_cases[of c f]) (auto simp: settle_def mget_mput)
  then obtain c' where "await (client_rx c f) i t (map NetFrame fs @ es) = await c' i t es"
      "mget (cl_slots c') i = Some SlotEmpty" "i \<in> set (cl_pending c')" "\<not> cl_done c'"
    using Cons.IH[of "client_rx c f"] Cons.prems(5) by auto
  then show ?case
    using Cons.prems(1)[of c'] Cons.prems(2) by (simp add: await.simps[of c])
qed simp

lemma await_answer:
  assumes "mget (cl_slots c) i = Some SlotEmpty" "i \<in> set (cl_pending c)" "\<not> cl_done c"
    and "server_req_id r = i" "i \<noteq> []" "server_type r \<notin> {TypeOutput, TypeExit, TypeWatchEvent, TypeEvent}"
  shows "fst (await c i t (NetFrame (RxMsg r) # es)) = Some (request_result t (RxMsg r))"
proof -
  have "client_rx c (RxMsg r) = settle c i (RxMsg r)"
    using assms client_rx_response[of c r] client_rx_error_frame[of c r] by blast
  then show ?thesis
    using assms(1,2) by (simp add: await.simps settle_def mget_mput)
qed

section \<open>Both sides\<close>


text \<open>A client that asks for a session, and is told of another one's end before the answer.\<close>

definition demo_request :: "string \<Rightarrow> client_msg" where
  "demo_request i = CInfo \<lparr>if_req_id = i, if_session_id = ''x''\<rparr>"

definition demo_other :: rx where
  "demo_other = RxMsg (SExit \<lparr>ex_session_id = ''y'', ex_exit_code = 0, ex_signal = []\<rparr>)"

lemma demo_replies_fit: "replies_fit demo_conn_env demo_server"
proof -
  have "command_window_of (sv_session demo_server 0) = None"
    by (simp add: command_window_of_def last_command_def demo_server_def demo_registry_def new_monitor_def)
  moreover have "p = 0" if "sv_lookup demo_conn_env demo_server x = Inr p" for x p
    using that
    by (simp add: sv_lookup_def registry_lookup_def find_session_def demo_server_def demo_registry_def mget_Cons
        split: option.splits if_splits)
  ultimately have "command_window_of (sv_session demo_server p) = None" if "sv_lookup demo_conn_env demo_server x = Inr p" for x p
    using that by metis
  then show ?thesis by (auto simp: replies_fit_def demo_small)
qed


end
