(* ===== verification/Follow.thy ===== *)
theory Follow
  imports Client Pump
begin

text \<open>
  The resilient stream, \<open>pkg/client/follow.go\<close>: read, and on a lost connection dial and attach again
  at the last sequence number. The follower is a state machine: the consumer's \<open>Read\<close> is cut at the
  points where the reader goroutine of the connection can run in between.
\<close>

section \<open>State\<close>

record follow_opts =
  fp_read_only :: bool
  fp_initial_backoff :: int
  fp_max_backoff :: int

text \<open>Durations in milliseconds.\<close>

definition follow_defaults :: "follow_opts \<Rightarrow> follow_opts" where
  "follow_defaults fp = fp
     \<lparr>fp_initial_backoff := (if fp_initial_backoff fp \<le> 0 then 100 else fp_initial_backoff fp),
      fp_max_backoff := (if fp_max_backoff fp \<le> 0 then 3000 else fp_max_backoff fp)\<rparr>"

text \<open>
  Where a call of \<open>Read\<close> is: outside, at the stream's \<open>Read\<close>, between it and \<open>LastSeq\<close> with the
  bytes in hand, in the wait of \<open>reconnect\<close>, or between the wait and the answer of the daemon.
\<close>

datatype follow_pc =
    FoIdle | FoReading nat | FoGot "byte list" | FoWaiting nat int | FoDialing nat int

text \<open>\<open>fo_out\<close> is what the calls returned. \<open>fo_log\<close> is for the statements only: what each connection
  brought to the stream, with the sequence number it attached at.\<close>

record follower =
  fo_opts :: follow_opts
  fo_session_id :: string
  fo_last_seq :: u64
  fo_stream :: stream
  fo_exit :: "(int \<times> string) option"
  fo_pc :: follow_pc
  fo_out :: "read_result list"
  fo_log :: "(u64 \<times> server_msg list) list"

definition new_follower :: "follow_opts \<Rightarrow> string \<Rightarrow> follower" where
  "new_follower fp sid =
     \<lparr>fo_opts = follow_defaults fp, fo_session_id = sid, fo_last_seq = 0, fo_stream = new_stream sid None, fo_exit = None,
      fo_pc = FoIdle, fo_out = [], fo_log = [(0, [])]\<rparr>"

text \<open>\<open>Follow\<close>: the first dial and attach, whose errors it returns.\<close>

definition follow :: "follow_opts \<Rightarrow> err option \<Rightarrow> err + string \<Rightarrow> err + follower" where
  "follow fp dialed attached =
     (case dialed of
        Some e \<Rightarrow> Inl e
      | None \<Rightarrow> (case attached of Inl e \<Rightarrow> Inl e | Inr sid \<Rightarrow> Inr (new_follower fp sid)))"

section \<open>Steps\<close>

text \<open>
  The reader goroutine: an OUTPUT frame, an ERROR push, the EXIT frame, the lost connection. The
  consumer: a call with room for \<open>n\<close> bytes, the read of the stream, the read of its sequence number.
  The rest is what \<open>reconnect\<close> meets.
\<close>

datatype follow_op =
    FoDeliver output_header "byte list" | FoPush error_msg | FoExit exit_msg | FoLost
  | FoRead nat | FoTake | FoSeq
  | FoTimer | FoCancel | FoDialErr err | FoAttachErr err | FoAttached

definition log_frame :: "server_msg \<Rightarrow> (u64 \<times> server_msg list) list \<Rightarrow> (u64 \<times> server_msg list) list" where
  "log_frame m lg = butlast lg @ [(fst (last lg), snd (last lg) @ [m])]"

definition follow_frame :: "follower \<Rightarrow> server_msg \<Rightarrow> (stream \<Rightarrow> stream) \<Rightarrow> follower" where
  "follow_frame f m g =
     f\<lparr>fo_stream := g (fo_stream f), fo_log := (if st_closed (fo_stream f) then fo_log f else log_frame m (fo_log f))\<rparr>"

definition follow_return :: "follower \<Rightarrow> read_result \<Rightarrow> follower" where
  "follow_return f r = f\<lparr>fo_pc := FoIdle, fo_out := fo_out f @ [r]\<rparr>"

definition next_backoff :: "follow_opts \<Rightarrow> int \<Rightarrow> int" where
  "next_backoff fp b = (if b * 2 > fp_max_backoff fp then fp_max_backoff fp else b * 2)"

definition follow_take :: "follower \<Rightarrow> nat \<Rightarrow> follower" where
  "follow_take f n =
     (case stream_read n (fo_stream f) of
        (None, st) \<Rightarrow> f
      | (Some (ReadBytes b), st) \<Rightarrow>
          (if b \<noteq> [] then f\<lparr>fo_stream := st, fo_pc := FoGot b\<rparr> else f\<lparr>fo_stream := st\<rparr>)
      | (Some ReadEOF, st) \<Rightarrow>
          follow_return (f\<lparr>fo_exit := (case stream_exit_code st of Some x \<Rightarrow> Some x | None \<Rightarrow> fo_exit f)\<rparr>) ReadEOF
      | (Some (ReadErr e), st) \<Rightarrow>
          (if e \<noteq> Coded DaemonUnreachable then follow_return f (ReadErr e)
           else f\<lparr>fo_pc := FoWaiting n (fp_initial_backoff (fo_opts f))\<rparr>))"

fun follow_step :: "follower \<Rightarrow> follow_op \<Rightarrow> follower" where
  "follow_step f (FoDeliver oh p) = follow_frame f (SOutput oh p) (\<lambda>st. stream_deliver st (oh_seq oh) p)"
| "follow_step f (FoPush em) =
     (if em_code em = RingGone then follow_frame f (SError em) (\<lambda>st. stream_push_err st (Coded (em_code em)))
      else f\<lparr>fo_stream := stream_push_err (fo_stream f) (Coded (em_code em))\<rparr>)"
| "follow_step f (FoExit ex) = f\<lparr>fo_stream := stream_exit (fo_stream f) ex\<rparr>"
| "follow_step f FoLost = f\<lparr>fo_stream := stream_finish (fo_stream f) (Some (Coded DaemonUnreachable))\<rparr>"
| "follow_step f (FoRead n) = (case fo_pc f of FoIdle \<Rightarrow> f\<lparr>fo_pc := FoReading n\<rparr> | _ \<Rightarrow> f)"
| "follow_step f FoTake = (case fo_pc f of FoReading n \<Rightarrow> follow_take f n | _ \<Rightarrow> f)"
| "follow_step f FoSeq =
     (case fo_pc f of FoGot b \<Rightarrow> follow_return (f\<lparr>fo_last_seq := st_seq (fo_stream f)\<rparr>) (ReadBytes b) | _ \<Rightarrow> f)"
| "follow_step f FoTimer = (case fo_pc f of FoWaiting n b \<Rightarrow> f\<lparr>fo_pc := FoDialing n b\<rparr> | _ \<Rightarrow> f)"
| "follow_step f FoCancel =
     (case fo_pc f of FoWaiting n b \<Rightarrow> follow_return f (ReadErr (OtherErr ''context'')) | _ \<Rightarrow> f)"
| "follow_step f (FoDialErr e) =
     (case fo_pc f of FoDialing n b \<Rightarrow> f\<lparr>fo_pc := FoWaiting n (next_backoff (fo_opts f) b)\<rparr> | _ \<Rightarrow> f)"
| "follow_step f (FoAttachErr e) =
     (case fo_pc f of
        FoDialing n b \<Rightarrow>
          (if e \<noteq> Coded DaemonUnreachable then follow_return f (ReadErr e)
           else f\<lparr>fo_pc := FoWaiting n (next_backoff (fo_opts f) b)\<rparr>)
      | _ \<Rightarrow> f)"
| "follow_step f FoAttached =
     (case fo_pc f of
        FoDialing n b \<Rightarrow>
          f\<lparr>fo_stream := new_stream (fo_session_id f) (Some (fo_last_seq f)), fo_pc := FoReading n,
            fo_log := fo_log f @ [(fo_last_seq f, [])]\<rparr>
      | _ \<Rightarrow> f)"

section \<open>One stream out of many connections\<close>

definition in_hand :: "follower \<Rightarrow> byte list" where
  "in_hand f = (case fo_pc f of FoGot b \<Rightarrow> b | _ \<Rightarrow> [])"

definition payloads :: "server_msg list \<Rightarrow> byte list" where
  "payloads ms = concat (map (\<lambda>m. case m of SOutput oh p \<Rightarrow> p | _ \<Rightarrow> []) ms)"

definition log_frames :: "(u64 \<times> server_msg list) list \<Rightarrow> server_msg list" where
  "log_frames lg = concat (map snd lg)"

text \<open>Every connection of the log is a stream of the history \<open>h\<close> from where it attached: what the
  pump of the daemon sends (\<open>pump_exact\<close>), cut where the connection broke.\<close>

definition conn_honest :: "string \<Rightarrow> byte list \<Rightarrow> u64 \<times> server_msg list \<Rightarrow> bool" where
  "conn_honest sid h x = (stream_ok sid h (unat (fst x)) (fst x = 0) (snd x) \<noteq> None)"

lemma payloads_append [simp]: "payloads (xs @ ys) = payloads xs @ payloads ys"
  by (simp add: payloads_def)

lemma log_frames_append [simp]: "log_frames (xs @ ys) = log_frames xs @ log_frames ys"
  by (simp add: log_frames_def)

lemma log_frames_frame [simp]: "lg \<noteq> [] \<Longrightarrow> log_frames (log_frame m lg) = log_frames lg @ [m]"
  by (cases lg rule: rev_cases) (simp_all add: log_frame_def log_frames_def)

lemma log_frame_last [simp]:
  "last (log_frame m lg) = (fst (last lg), snd (last lg) @ [m])" "log_frame m lg \<noteq> []"
  by (simp_all add: log_frame_def)

definition follow_ok :: "string \<Rightarrow> byte list \<Rightarrow> follower \<Rightarrow> bool" where
  "follow_ok sid h f \<longleftrightarrow> fo_log f \<noteq> [] \<and> fo_session_id f = sid \<and>
     (\<exists>pos g k. stream_ok sid h 0 True (log_frames (fo_log f)) = Some (pos, g) \<and> (pos = 0 \<longrightarrow> g) \<and>
        stream_ok sid h (unat (fst (last (fo_log f)))) (fst (last (fo_log f)) = 0) (snd (last (fo_log f))) = Some (pos, k) \<and>
        (k \<longrightarrow> g) \<and> pos \<le> length h \<and> unat (st_seq (fo_stream f)) = pos) \<and>
     bytes_of (fo_out f) @ in_hand f @ st_buf (fo_stream f) = payloads (log_frames (fo_log f)) \<and>
     (st_buf (fo_stream f) = [] \<and> in_hand f = [] \<longrightarrow> fo_last_seq f = st_seq (fo_stream f)) \<and>
     (case fo_pc f of FoWaiting n b \<Rightarrow> st_closed (fo_stream f) \<and> st_buf (fo_stream f) = []
        | FoDialing n b \<Rightarrow> st_closed (fo_stream f) \<and> st_buf (fo_stream f) = [] | FoGot b \<Rightarrow> b \<noteq> [] | _ \<Rightarrow> True)"

text \<open>One frame more, seen from the connection and from the whole.\<close>

lemma stream_ok_one:
  assumes "stream_ok sid h pos k [m] = Some (pos', k')" "k \<longrightarrow> g" "length h < 2 ^ 64" "pos \<le> length h" "pos = 0 \<longrightarrow> g"
  obtains g' where "stream_ok sid h pos g [m] = Some (pos', g')" "k' \<longrightarrow> g'" "pos' \<le> length h" "pos' = 0 \<longrightarrow> g'"
proof -
  have len: "n + length q \<le> length h" if "take (length q) (drop n h) = q" "q \<noteq> []" for q :: "byte list" and n
    using arg_cong[OF that(1), of length] that(2) by (cases "length h \<le> n") auto
  show ?thesis
    using assms that len by (cases m) (auto simp: Let_def split: if_splits)
qed

lemma honest_snoc: "conn_honest sid h (a, ms @ [m]) \<Longrightarrow> conn_honest sid h (a, ms)"
  by (auto simp: conn_honest_def stream_ok_append split: bind_splits)

lemma log_frame_honest:
  assumes "\<forall>x\<in>set (log_frame m lg). conn_honest sid h x" "lg \<noteq> []"
  shows "\<forall>x\<in>set lg. conn_honest sid h x"
  using assms by (cases lg rule: rev_cases) (auto simp: log_frame_def intro: honest_snoc)

lemma follow_take_log [simp]: "fo_log (follow_take f n) = fo_log f" "fo_session_id (follow_take f n) = fo_session_id f"
  by (simp_all add: follow_take_def follow_return_def split: option.split read_result.split prod.split)

lemma follow_frame_log [simp]:
  "fo_log (follow_frame f m g) = fo_log f \<or> fo_log (follow_frame f m g) = log_frame m (fo_log f)"
  by (simp add: follow_frame_def)

lemma follow_step_log:
  "fo_log (follow_step f op) = fo_log f \<or> (\<exists>m. fo_log (follow_step f op) = log_frame m (fo_log f)) \<or>
   fo_log (follow_step f op) = fo_log f @ [(fo_last_seq f, [])]"
proof (cases op)
  case (FoDeliver oh p)
  then show ?thesis using follow_frame_log[of f] by (simp only: follow_step.simps) blast
next
  case (FoPush em)
  show ?thesis
  proof (cases "em_code em = RingGone")
    case True
    then show ?thesis using FoPush follow_frame_log[of f] by (simp only: follow_step.simps simp_thms if_True) blast
  qed (simp add: FoPush)
qed (simp_all add: follow_return_def split: follow_pc.split)

lemma follow_step_honest:
  "\<forall>x\<in>set (fo_log (follow_step f op)). conn_honest sid h x \<Longrightarrow> fo_log f \<noteq> [] \<Longrightarrow> \<forall>x\<in>set (fo_log f). conn_honest sid h x"
  using follow_step_log[of f op] log_frame_honest[of _ "fo_log f"] by (elim disjE exE) auto

lemma follow_log_nonempty: "fo_log f \<noteq> [] \<Longrightarrow> fo_log (follow_step f op) \<noteq> []"
  using follow_step_log[of f op] by auto

text \<open>A frame: the stream and the log move together.\<close>

lemma follow_ok_frame:
  assumes ok: "follow_ok sid h f" and hon: "\<forall>x\<in>set (fo_log (follow_frame f m g)). conn_honest sid h x"
    and len: "length h < 2 ^ 64" and open': "\<not> st_closed (fo_stream f)"
    and g: "(\<exists>oh p. m = SOutput oh p \<and> g = (\<lambda>st. stream_deliver st (oh_seq oh) p)) \<or>
      (\<exists>em. m = SError em \<and> em_code em = RingGone \<and> g = (\<lambda>st. stream_push_err st (Coded RingGone)))"
  shows "follow_ok sid h (follow_frame f m g)"
proof -
  let ?lg = "fo_log f"
  obtain pos gp k where st: "stream_ok sid h 0 True (log_frames ?lg) = Some (pos, gp)" "pos = 0 \<longrightarrow> gp"
      "stream_ok sid h (unat (fst (last ?lg))) (fst (last ?lg) = 0) (snd (last ?lg)) = Some (pos, k)"
      "k \<longrightarrow> gp" "pos \<le> length h" "unat (st_seq (fo_stream f)) = pos" and ne: "?lg \<noteq> []"
    using ok unfolding follow_ok_def by (elim conjE exE) (rule that; assumption)
  have "conn_honest sid h (fst (last ?lg), snd (last ?lg) @ [m])"
    using hon open' by (simp add: follow_frame_def log_frame_def)
  then obtain pos' k' where one: "stream_ok sid h pos k [m] = Some (pos', k')"
    using st(3) by (auto simp: conn_honest_def stream_ok_append)
  obtain g' where g': "stream_ok sid h pos gp [m] = Some (pos', g')" "k' \<longrightarrow> g'" "pos' \<le> length h" "pos' = 0 \<longrightarrow> g'"
    using stream_ok_one[OF one st(4) len st(5,2)] .
  have pos': "unat (st_seq (g (fo_stream f))) = pos'"
    using g
  proof (elim disjE exE conjE)
    fix oh p assume m: "m = SOutput oh p" "g = (\<lambda>st. stream_deliver st (oh_seq oh) p)"
    have "pos' = unat (oh_seq oh) + length p" using one m(1) by (simp add: Let_def split: if_splits)
    then show ?thesis using m(2) open' g'(3) len by (simp add: stream_deliver_def unat_plus_if' unat_u64)
  qed (use one st(6) in \<open>simp add: stream_push_err_def\<close>)
  have buf: "st_buf (g (fo_stream f)) = st_buf (fo_stream f) @ payloads [m]"
    "payloads [m] = [] \<Longrightarrow> st_seq (g (fo_stream f)) = st_seq (fo_stream f)"
    using g one open' by (auto simp: stream_deliver_def stream_push_err_def payloads_def Let_def split: if_splits)
  have ok': "fo_session_id f = sid"
      "bytes_of (fo_out f) @ in_hand f @ st_buf (fo_stream f) = payloads (log_frames ?lg)"
      "st_buf (fo_stream f) = [] \<and> in_hand f = [] \<longrightarrow> fo_last_seq f = st_seq (fo_stream f)"
    and pc: "case fo_pc f of FoWaiting n b \<Rightarrow> False | FoDialing n b \<Rightarrow> False | FoGot b \<Rightarrow> b \<noteq> [] | _ \<Rightarrow> True"
    using ok open' unfolding follow_ok_def by (simp_all split: follow_pc.splits)
  let ?f = "follow_frame f m g"
  have f': "fo_log ?f = log_frame m ?lg" "fo_stream ?f = g (fo_stream f)" "fo_session_id ?f = sid" "fo_out ?f = fo_out f"
    "in_hand ?f = in_hand f" "fo_last_seq ?f = fo_last_seq f" "fo_pc ?f = fo_pc f"
    using open' ok'(1) by (simp_all add: follow_frame_def in_hand_def)
  show ?thesis
    unfolding follow_ok_def f'
  proof (intro conjI exI)
    show "stream_ok sid h 0 True (log_frames (log_frame m ?lg)) = Some (pos', g')"
      using st(1) g'(1) ne by (simp add: stream_ok_append)
    show "stream_ok sid h (unat (fst (last (log_frame m ?lg)))) (fst (last (log_frame m ?lg)) = 0)
      (snd (last (log_frame m ?lg))) = Some (pos', k')"
      using st(3) one by (simp add: stream_ok_append)
    show "bytes_of (fo_out f) @ in_hand f @ st_buf (g (fo_stream f)) = payloads (log_frames (log_frame m ?lg))"
      using ok'(2) buf(1) ne by simp
    show "st_buf (g (fo_stream f)) = [] \<and> in_hand f = [] \<longrightarrow> fo_last_seq f = st_seq (g (fo_stream f))"
      using ok'(3) buf by simp
    show "case fo_pc f of FoIdle \<Rightarrow> True | FoReading n \<Rightarrow> True | FoGot b \<Rightarrow> b \<noteq> []
      | FoWaiting n b \<Rightarrow> st_closed (g (fo_stream f)) \<and> st_buf (g (fo_stream f)) = []
      | FoDialing n b \<Rightarrow> st_closed (g (fo_stream f)) \<and> st_buf (g (fo_stream f)) = []"
      using pc by (simp split: follow_pc.splits)
  qed (use g' pos' in simp_all)
qed

lemma follow_ok_cong:
  assumes "follow_ok sid h f" "fo_log f' = fo_log f" "fo_session_id f' = fo_session_id f"
    "st_seq (fo_stream f') = st_seq (fo_stream f)"
    "bytes_of (fo_out f') @ in_hand f' @ st_buf (fo_stream f') = bytes_of (fo_out f) @ in_hand f @ st_buf (fo_stream f)"
    "st_buf (fo_stream f') = [] \<and> in_hand f' = [] \<longrightarrow> fo_last_seq f' = st_seq (fo_stream f')"
    "case fo_pc f' of FoWaiting n b \<Rightarrow> st_closed (fo_stream f') \<and> st_buf (fo_stream f') = []
        | FoDialing n b \<Rightarrow> st_closed (fo_stream f') \<and> st_buf (fo_stream f') = [] | FoGot b \<Rightarrow> b \<noteq> [] | _ \<Rightarrow> True"
  shows "follow_ok sid h f'"
  using assms unfolding follow_ok_def by presburger

lemma follow_ok_take:
  assumes "follow_ok sid h f" "fo_pc f = FoReading n"
  shows "follow_ok sid h (follow_take f n)"
  by (rule follow_ok_cong[OF assms(1)])
    (use assms in \<open>auto simp: follow_take_def stream_read_def follow_return_def bytes_of_def in_hand_def follow_ok_def
      split: option.splits if_splits\<close>)

lemma follow_ok_attached:
  assumes ok: "follow_ok sid h f" and pc: "fo_pc f = FoDialing n b"
  shows "follow_ok sid h (follow_step f FoAttached)"
proof -
  have "fo_last_seq f = st_seq (fo_stream f)" "st_buf (fo_stream f) = []" "in_hand f = []"
    using ok pc by (auto simp: follow_ok_def in_hand_def)
  then show ?thesis
    using ok pc unfolding follow_ok_def
    by (auto simp: log_frames_def new_stream_def in_hand_def unat_eq_0)
qed

lemma follow_ok_step:
  assumes ok: "follow_ok sid h f" and hon: "\<forall>x\<in>set (fo_log (follow_step f op)). conn_honest sid h x"
    and len: "length h < 2 ^ 64"
  shows "follow_ok sid h (follow_step f op)"
proof (cases op)
  case (FoDeliver oh p)
  show ?thesis
  proof (cases "st_closed (fo_stream f)")
    case True
    then have "follow_step f op = f" by (simp add: FoDeliver follow_frame_def stream_deliver_def)
    then show ?thesis using ok by simp
  next
    case False
    then show ?thesis using follow_ok_frame[OF ok _ len False, of "SOutput oh p"] hon by (simp add: FoDeliver)
  qed
next
  case (FoPush em)
  show ?thesis
  proof (cases "em_code em = RingGone \<and> \<not> st_closed (fo_stream f)")
    case True
    then show ?thesis using follow_ok_frame[OF ok _ len, of "SError em"] hon by (simp add: FoPush)
  next
    case False
    have same: "fo_log (follow_step f op) = fo_log f" "fo_pc (follow_step f op) = fo_pc f"
      "st_buf (fo_stream (follow_step f op)) = st_buf (fo_stream f)" "st_seq (fo_stream (follow_step f op)) = st_seq (fo_stream f)"
      "st_closed (fo_stream (follow_step f op)) = st_closed (fo_stream f)"
      using False by (auto simp: FoPush follow_frame_def stream_push_err_def)
    show ?thesis
      by (rule follow_ok_cong[OF ok same(1)])
        (use ok same in \<open>auto simp: FoPush follow_frame_def in_hand_def follow_ok_def split: follow_pc.splits\<close>)
  qed
next
  case FoTake
  then show ?thesis using ok follow_ok_take by (cases "fo_pc f") auto
next
  case FoSeq
  show ?thesis
    by (rule follow_ok_cong[OF ok])
      (use ok in \<open>auto simp: FoSeq follow_return_def in_hand_def bytes_of_def follow_ok_def split: follow_pc.splits\<close>)
next
  case FoAttached
  then show ?thesis using ok follow_ok_attached by (cases "fo_pc f") auto
qed (rule follow_ok_cong[OF ok];
    use ok in \<open>auto simp: follow_ok_def follow_return_def in_hand_def bytes_of_def stream_exit_def stream_finish_def
      split: follow_pc.splits\<close>)+

lemma new_follower_ok: "follow_ok sid h (new_follower fp sid)"
  by (simp add: follow_ok_def new_follower_def log_frames_def payloads_def in_hand_def bytes_of_def new_stream_def) blast

lemma follow_run:
  assumes "\<forall>x\<in>set (fo_log (foldl follow_step (new_follower fp sid) ops)). conn_honest sid h x" "length h < 2 ^ 64"
  shows "follow_ok sid h (foldl follow_step (new_follower fp sid) ops)"
  using assms
proof (induction ops rule: rev_induct)
  case Nil
  then show ?case by (simp add: new_follower_ok)
next
  case (snoc op ops)
  have ne: "fo_log (foldl follow_step (new_follower fp sid) xs) \<noteq> []" for xs
    by (induction xs rule: rev_induct) (simp_all add: follow_log_nonempty new_follower_def)
  show ?case
    using snoc.prems snoc.IH follow_step_honest[OF _ ne] by (simp add: follow_ok_step)
qed

text \<open>C3. Following is resuming without a gap, as a guarantee: whatever drops, however often the
  dial fails, whatever sizes the consumer reads in, if each connection is a stream of the session
  from the sequence number it attached at, then all of them together are one stream of the session
  from zero, and the consumer has been given exactly its bytes, up to those still buffered.\<close>

theorem follower_zero_gap:
  assumes "foldl follow_step (new_follower fp sid) ops = f"
    and "\<forall>x\<in>set (fo_log f). conn_honest sid h x" "length h < 2 ^ 64"
  shows "\<exists>pos g. stream_ok sid h 0 True (log_frames (fo_log f)) = Some (pos, g) \<and>
    bytes_of (fo_out f) @ in_hand f @ st_buf (fo_stream f) = payloads (log_frames (fo_log f)) \<and>
    unat (st_seq (fo_stream f)) = pos"
  using follow_run[of fp sid ops h] assms unfolding follow_ok_def by blast

lemma follow_step_opts: "fo_opts (follow_step f op) = fo_opts f"
  by (cases op) (simp_all add: follow_frame_def follow_return_def follow_take_def
      split: follow_pc.splits option.splits read_result.splits prod.splits)

definition demo_follow_opts :: follow_opts where
  "demo_follow_opts = \<lparr>fp_read_only = True, fp_initial_backoff = 0, fp_max_backoff = 0\<rparr>"

definition demo_follow_ops :: "follow_op list" where
  "demo_follow_ops =
     [FoDeliver \<lparr>oh_session_id = ''s'', oh_seq = 0\<rparr> [1, 2, 3], FoRead 2, FoTake, FoSeq, FoLost, FoRead 2, FoTake, FoSeq,
      FoRead 2, FoTake, FoTimer, FoDialErr (Coded DaemonUnreachable), FoTimer, FoAttached,
      FoDeliver \<lparr>oh_session_id = ''s'', oh_seq = 3\<rparr> [4], FoTake, FoSeq]"

theorem follower_zero_gap_witness:
  "bytes_of (fo_out (foldl follow_step (new_follower demo_follow_opts ''s'') demo_follow_ops)) = [1, 2, 3, 4]"
proof -
  let ?f = "foldl follow_step (new_follower demo_follow_opts ''s'') demo_follow_ops"
  have log: "fo_log ?f = [(0, [SOutput \<lparr>oh_session_id = ''s'', oh_seq = 0\<rparr> [1, 2, 3]]),
      (3, [SOutput \<lparr>oh_session_id = ''s'', oh_seq = 3\<rparr> [4]])]" "in_hand ?f = []" "st_buf (fo_stream ?f) = []"
    by code_simp+
  have "\<forall>x\<in>set (fo_log ?f). conn_honest ''s'' [1, 2, 3, 4] x"
    unfolding log by (auto simp: conn_honest_def)
  from follower_zero_gap[OF refl this] show ?thesis
    unfolding log by (simp add: log_frames_def payloads_def)
qed

section \<open>Giving up\<close>

text \<open>The backoff is positive, and never above the larger of the two options.\<close>

definition backoff_inv :: "follower \<Rightarrow> bool" where
  "backoff_inv f \<longleftrightarrow> 0 < fp_initial_backoff (fo_opts f) \<and> 0 < fp_max_backoff (fo_opts f) \<and>
     (\<forall>n b. fo_pc f = FoWaiting n b \<or> fo_pc f = FoDialing n b \<longrightarrow>
        0 < b \<and> b \<le> max (fp_initial_backoff (fo_opts f)) (fp_max_backoff (fo_opts f)))"

lemma next_backoff_bounds:
  "0 < b \<Longrightarrow> 0 < fp_max_backoff fp \<Longrightarrow> 0 < next_backoff fp b \<and> next_backoff fp b \<le> fp_max_backoff fp"
  by (simp add: next_backoff_def)

interpretation follow_machine: machine follow_step backoff_inv
proof
  fix f op assume inv: "backoff_inv f"
  show "backoff_inv (follow_step f op)"
    using inv next_backoff_bounds[of _ "fo_opts f"]
    by (cases op) (fastforce simp: backoff_inv_def follow_frame_def follow_return_def follow_take_def
        split: follow_pc.splits option.splits read_result.splits prod.splits)+
qed

lemma client_attach_send_fails:
  "\<not> cl_closed c \<Longrightarrow> \<exists>c'. client_attach False sent c sid since ro es = (Some (Inl (OtherErr ''client: send'')), c', es)"
  by (simp add: client_attach_def client_info_def call_def request_def request_begin_def request_send_def Let_def)

text \<open>What ends a follow, and what does not: when the new connection breaks between the dial and
  the first request, the attach fails with a plain error, and \<open>Read\<close> returns it although the
  connection was lost; every error of the dial is retried, also the answer of a daemon that
  refuses the handshake, with a backoff that stays within the two options.\<close>

theorem follower_gives_up:
  assumes "\<not> cl_closed c" "foldl follow_step (new_follower fp sid) ops = f" "fo_pc f = FoDialing n b"
  shows "(\<exists>e c'. client_attach False sent c sid since ro es = (Some (Inl e), c', es) \<and>
      follow_step f (FoAttachErr e) = follow_return f (ReadErr e)) \<and>
    (\<forall>e. \<exists>b'. fo_pc (follow_step f (FoDialErr e)) = FoWaiting n b' \<and> 0 < b' \<and>
      b' \<le> fp_max_backoff (follow_defaults fp))"
proof -
  have opts: "fo_opts (foldl follow_step g ops) = fo_opts g" for g
    by (induction ops arbitrary: g) (simp_all add: follow_step_opts)
  have "backoff_inv (new_follower fp sid)"
    by (simp add: backoff_inv_def new_follower_def follow_defaults_def)
  then have "backoff_inv f" using follow_machine.inv_run assms(2) by blast
  then have "0 < b" "0 < fp_max_backoff (fo_opts f)" using assms(3) by (simp_all add: backoff_inv_def)
  moreover have "fo_opts f = follow_defaults fp" using opts assms(2) by (auto simp: new_follower_def)
  ultimately show ?thesis
    using client_attach_send_fails[OF assms(1), of sent sid since ro es] next_backoff_bounds[of b "fo_opts f"] assms(3)
    by auto
qed

theorem follower_gives_up_witness:
  "fo_pc (follow_step (foldl follow_step (new_follower demo_follow_opts ''s'') [FoRead 8, FoLost, FoTake, FoTimer])
     (FoAttachErr (OtherErr ''client: send''))) = FoIdle"
proof -
  let ?f = "foldl follow_step (new_follower demo_follow_opts ''s'') [FoRead 8, FoLost, FoTake, FoTimer]"
  have pc: "fo_pc ?f = FoDialing 8 100"
    by (simp add: new_follower_def new_stream_def demo_follow_opts_def follow_defaults_def follow_take_def stream_read_def stream_finish_def)
  have c: "\<not> cl_closed new_client" by (simp add: new_client_def)
  have "\<exists>c'. client_attach False True new_client ''s'' None True [] = (Some (Inl (OtherErr ''client: send'')), c', [])"
    by (rule client_attach_send_fails[OF c])
  then show ?thesis
    using conjunct1[OF follower_gives_up[OF c refl pc, of True None True "[]"]] by (auto simp: follow_return_def)
qed

end
