(* ===== verification/Cli.thy ===== *)
theory Cli
  imports Follow
begin

text \<open>
  The parts of the commands in \<open>cmd/runbaypty\<close> that carry bytes: the two tiers of \<open>tail.go\<close>, the
  keystrokes of \<open>attach.go\<close>, and the cast of \<open>export.go\<close>.
\<close>

section \<open>The end of a session\<close>

text \<open>What \<open>tail\<close> and \<open>attach\<close> report.\<close>

definition exit_line :: "(int \<times> string) option \<Rightarrow> string" where
  "exit_line ex =
     (case ex of
        None \<Rightarrow> []
      | Some (code, sig) \<Rightarrow>
          [char_of (10 :: nat)] @
          (if sig \<noteq> [] then ''session exited: signal '' @ sig else ''session exited: code '' @ int_string code) @
          [char_of (10 :: nat)])"

section \<open>tail\<close>

text \<open>
  The log's records are written out and counted; the attach asks for the next byte. \<open>out_ok\<close> is
  whether the write of each record succeeds. The result: what was printed, and the attach with
  its sequence number, if there is one; \<open>None\<close> is the panic of the log reader.
\<close>

fun tail_history :: "(nat \<Rightarrow> bool) \<Rightarrow> u64 \<Rightarrow> seslog_record list \<Rightarrow> (byte list \<times> u64) option" where
  "tail_history out_ok since [] = Some ([], since)"
| "tail_history out_ok since (rec # recs) =
     (if \<not> out_ok 0 then None
      else map_option (\<lambda>(out, n). (sr_data rec @ out, n))
        (tail_history (\<lambda>k. out_ok (Suc k)) (since + of_nat (length (sr_data rec))) recs))"

definition tail_start :: "string \<Rightarrow> log_read \<Rightarrow> (nat \<Rightarrow> bool) \<Rightarrow> bool
   \<Rightarrow> (err + byte list \<times> u64 option option) option" where
  "tail_start log_path rd out_ok noFollow =
     (if log_path = [] then Some (Inr ([], Some None))
      else (case rd of
          LogPanic \<Rightarrow> None
        | LogError e \<Rightarrow> Some (Inl (Coded LogDisabled))
        | LogRecords recs \<Rightarrow> Some
            (case tail_history out_ok 0 recs of
               None \<Rightarrow> Inl (OtherErr ''tail: write history'')
             | Some (out, since) \<Rightarrow> Inr (out, if noFollow then None else Some (Some since)))))"

lemma tail_history_sum:
  "tail_history out_ok since recs = Some (out, n) \<Longrightarrow>
   out = concat (map sr_data recs) \<and> n = since + of_nat (length out)"
  by (induction out_ok since recs arbitrary: out n rule: tail_history.induct) (auto split: if_splits)

text \<open>A stream without announced gaps is the history, byte by byte.\<close>

lemma stream_no_gap:
  assumes "stream_ok sid h pos False ms = Some (q, g)" "\<forall>m\<in>set ms. \<exists>oh p. m = SOutput oh p" "pos \<le> length h"
  shows "pos \<le> q \<and> q \<le> length h \<and> payloads ms = take (q - pos) (drop pos h)"
  using assms
proof (induction ms arbitrary: pos)
  case (Cons m ms)
  then obtain oh p where m: "m = SOutput oh p" by auto
  from Cons.prems(1) have p: "unat (oh_seq oh) = pos" "p \<noteq> []" "take (length p) (drop pos h) = p"
    and rest: "stream_ok sid h (pos + length p) False ms = Some (q, g)"
    by (auto simp: m Let_def split: if_splits)
  have "pos + length p \<le> length h" using arg_cong[OF p(3), of length] p(2) by (cases "pos \<le> length h") auto
  from Cons.IH[OF rest _ this] Cons.prems(2) have IH: "pos + length p \<le> q" "q \<le> length h"
      "payloads ms = take (q - (pos + length p)) (drop (pos + length p) h)" by auto
  have "take (q - pos) (drop pos h) = take (length p) (drop pos h) @ take (q - pos - length p) (drop (length p) (drop pos h))"
    using IH(1) take_add[of "length p" "q - pos - length p" "drop pos h"] by simp
  then show ?case using IH p(3) by (simp add: m payloads_def add.commute)
qed (simp add: payloads_def)

text \<open>C36. The two tiers of \<open>tail\<close> meet at one byte: when the records of the log hold the first bytes of
  the session, the attach asks for the byte after them, and if the stream that comes back
  announces no gap, what is printed is the session's output from its first byte on, no byte
  missing and none twice.\<close>

theorem tail_stitch:
  assumes "tail_start log_path (LogRecords recs) out_ok False = Some (Inr (out, Some (Some since)))" "log_path \<noteq> []"
    and "concat (map sr_data recs) = take n h" "0 < n" "n \<le> length h" "length h < 2 ^ 64"
    and "stream_ok sid h (unat since) (since = 0) ms = Some (pos, g)" "\<forall>m\<in>set ms. \<exists>oh p. m = SOutput oh p"
  shows "unat since = n \<and> n \<le> pos \<and> out @ payloads ms = take pos h"
proof -
  have out: "out = take n h" "since = of_nat n"
    using assms(1-3,5) tail_history_sum[of out_ok 0 recs] by (auto simp: tail_start_def split: option.splits)
  have since: "unat since = n" using out(2) assms(5,6) by (simp add: unat_u64)
  then have "since \<noteq> 0" using assms(4) by auto
  then have "stream_ok sid h n False ms = Some (pos, g)" using assms(7) since by simp
  from stream_no_gap[OF this assms(8,5)] have m: "n \<le> pos" "payloads ms = take (pos - n) (drop n h)" by auto
  then show ?thesis using since out(1) take_add[of n "pos - n" h] by simp
qed

theorem tail_stitch_witness:
  "\<exists>out since. tail_start ''l'' (LogRecords [\<lparr>sr_at = 0, sr_data = [1, 2]\<rparr>]) (\<lambda>k. True) False = Some (Inr (out, Some (Some since))) \<and>
     out @ payloads [SOutput \<lparr>oh_session_id = ''s'', oh_seq = since\<rparr> [3]] = [1, 2, 3]"
proof -
  have r: "tail_start ''l'' (LogRecords [\<lparr>sr_at = 0, sr_data = [1, 2]\<rparr>]) (\<lambda>k. True) False = Some (Inr ([1, 2], Some (Some 2)))"
    by (simp add: tail_start_def)
  have s: "stream_ok ''s'' [1, 2, 3] (unat (2 :: u64)) ((2 :: u64) = 0) [SOutput \<lparr>oh_session_id = ''s'', oh_seq = 2\<rparr> [3]] = Some (3, False)"
    by simp
  from tail_stitch[OF r _ _ _ _ _ s, of 2] show ?thesis using r by simp
qed

section \<open>Keystrokes\<close>

definition detachKey :: byte where
  "detachKey = 0x1c"

text \<open>One read of the terminal; the result is what is sent, whether the key was met, and whether a
  send failed (\<open>sent\<close> is whether \<open>Input\<close> could).\<close>

datatype stdin_read = StdinRead (rd_bytes: "byte list") (rd_err: "err option")

datatype pump_end = PumpDetached | PumpFailed err | PumpWaiting

definition detach_at :: "byte list \<Rightarrow> nat option" where
  "detach_at chunk = (if detachKey \<in> set chunk then Some (length (takeWhile (\<lambda>b. b \<noteq> detachKey) chunk)) else None)"

fun stdin_pump :: "bool \<Rightarrow> (nat \<Rightarrow> bool) \<Rightarrow> stdin_read list \<Rightarrow> byte list list \<times> pump_end" where
  "stdin_pump readOnly sent [] = ([], PumpWaiting)"
| "stdin_pump readOnly sent (StdinRead chunk e # rs) =
     (case (if chunk = [] then None else detach_at chunk) of
        Some i \<Rightarrow> (if 0 < i \<and> \<not> readOnly \<and> sent 0 then [take i chunk] else [], PumpDetached)
      | None \<Rightarrow>
          if chunk \<noteq> [] \<and> \<not> readOnly \<and> \<not> sent 0 then ([], PumpFailed (OtherErr ''write''))
          else
            let now = (if chunk \<noteq> [] \<and> \<not> readOnly then [chunk] else [])
            in (case e of
                  Some x \<Rightarrow> (now, PumpFailed x)
                | None \<Rightarrow> (case stdin_pump readOnly (\<lambda>k. sent (Suc k)) rs of (ins, r) \<Rightarrow> (now @ ins, r))))"

definition typed :: "stdin_read list \<Rightarrow> byte list" where
  "typed rs = concat (map rd_bytes rs)"

lemma detach_split:
  "detach_at chunk = None \<longleftrightarrow> detachKey \<notin> set chunk"
  "detach_at chunk = Some i \<Longrightarrow> take i chunk = takeWhile (\<lambda>b. b \<noteq> detachKey) chunk"
proof -
  show "detach_at chunk = None \<longleftrightarrow> detachKey \<notin> set chunk" by (simp add: detach_at_def)
  show "take i chunk = takeWhile (\<lambda>b. b \<noteq> detachKey) chunk" if "detach_at chunk = Some i"
    using that takeWhile_eq_take[of "\<lambda>b. b \<noteq> detachKey" chunk] by (simp add: detach_at_def split: if_splits)
qed

text \<open>The detach key stays local and nothing before it is lost: over a live connection an attach
  that may write sends exactly the bytes typed before the first detach key, however the terminal
  cuts them into reads, and it detaches if and only if the key was typed; a read-only attach sends
  nothing, and detaches all the same.\<close>

theorem stdin_pump_forwards:
  assumes "stdin_pump readOnly (\<lambda>k. True) rs = (ins, r)" "\<forall>x\<in>set rs. rd_err x = None"
  shows "concat ins = (if readOnly then [] else takeWhile (\<lambda>b. b \<noteq> detachKey) (typed rs)) \<and>
    (r = (if detachKey \<in> set (typed rs) then PumpDetached else PumpWaiting))"
  using assms
proof (induction rs arbitrary: ins r)
  case (Cons x rs)
  obtain chunk where x: "x = StdinRead chunk None" using Cons.prems(2) by (cases x) auto
  show ?case
  proof (cases "detachKey \<in> set chunk")
    case True
    then obtain i where i: "detach_at chunk = Some i" by (auto simp: detach_at_def)
    then have t: "take i chunk = takeWhile (\<lambda>b. b \<noteq> detachKey) chunk" by (rule detach_split(2))
    have "takeWhile (\<lambda>b. b \<noteq> detachKey) (chunk @ typed rs) = takeWhile (\<lambda>b. b \<noteq> detachKey) chunk"
      by (rule takeWhile_append1[OF True]) simp
    moreover have "chunk \<noteq> []" using True by auto
    ultimately show ?thesis
      using Cons.prems(1) i t True by (auto simp: x typed_def split: if_splits)
  next
    case False
    then have none: "(if chunk = [] then None else detach_at chunk) = None" by (simp add: detach_split(1))
    obtain ins' r' where rest: "stdin_pump readOnly (\<lambda>k. True) rs = (ins', r')" by fastforce
    have "takeWhile (\<lambda>b. b \<noteq> detachKey) (chunk @ typed rs) = chunk @ takeWhile (\<lambda>b. b \<noteq> detachKey) (typed rs)"
      by (rule takeWhile_append2) (use False in blast)
    then show ?thesis
      using Cons.prems none rest False Cons.IH[OF rest] by (auto simp: x typed_def Let_def)
  qed
qed (simp add: typed_def)

theorem stdin_pump_forwards_witness:
  "concat (fst (stdin_pump False (\<lambda>k. True) [StdinRead [1, 2] None, StdinRead [3, 0x1c, 4] None])) = [1, 2, 3]"
proof -
  obtain ins r where p: "stdin_pump False (\<lambda>k. True) [StdinRead [1, 2] None, StdinRead [3, 0x1c, 4] None] = (ins, r)"
    by fastforce
  from conjunct1[OF stdin_pump_forwards[OF p]] show ?thesis unfolding p by (simp add: typed_def detachKey_def)
qed

section \<open>export\<close>

text \<open>
  The lines of a cast. \<open>secs\<close> is how \<open>encoding/json\<close> prints the seconds, a \<open>float64\<close>, of a number
  of milliseconds. An empty log is an error.
\<close>

definition cast_header :: "int \<Rightarrow> int \<Rightarrow> int \<Rightarrow> string \<Rightarrow> string" where
  "cast_header width height startMs title =
     CHR ''{'' # join_comma (map (\<lambda>(k, v). print_string k @ '':'' @ v)
       ([(''version'', int_string 2), (''width'', int_string width), (''height'', int_string height),
         (''timestamp'', int_string (startMs div 1000))] @
        (if title \<noteq> [] then [(''title'', print_string title)] else []))) @ ''}''"

definition cast_line :: "(int \<Rightarrow> string) \<Rightarrow> int \<Rightarrow> seslog_record \<Rightarrow> string" where
  "cast_line secs startMs rec =
     CHR ''['' # join_comma [secs (sr_at rec - startMs), print_string ''o'', print_string (bytes_string (sr_data rec))] @ '']''"

definition write_cast :: "(int \<Rightarrow> string) \<Rightarrow> seslog_record list \<Rightarrow> int \<Rightarrow> int \<Rightarrow> string \<Rightarrow> code + string" where
  "write_cast secs records width height title =
     (case records of
        [] \<Rightarrow> Inl InvalidInput
      | rec # _ \<Rightarrow>
          Inr (concat (map (\<lambda>l. l @ [char_of (10 :: nat)])
            (cast_header width height (sr_at rec) title # map (cast_line secs (sr_at rec)) records))))"

text \<open>A cast is faithful record by record, and only that: a line reads back as its record's bytes if
  and only if they are valid UTF-8 by themselves. A character that two reads of the terminal cut
  in half is lost in the cast, although the log has all its bytes.\<close>

theorem cast_line_faithful:
  assumes "valid_number (secs (sr_at rec - startMs))"
  shows "json_decode (cast_line secs startMs rec) =
      Some (JArr [JNum (secs (sr_at rec - startMs)), JStr ''o'', JStr (bytes_string (sr_data rec))]) \<longleftrightarrow>
    utf8_ok (bytes_string (sr_data rec))"
proof
  let ?v = "JArr [JNum (secs (sr_at rec - startMs)), JStr ''o'', JStr (bytes_string (sr_data rec))]"
  show "utf8_ok (bytes_string (sr_data rec))" if "json_decode (cast_line secs startMs rec) = Some ?v"
    using json_decode_good[OF that] by simp
  have o: "utf8_ok ''o''" by simp
  assume "utf8_ok (bytes_string (sr_data rec))"
  then have good: "json_good maxNestingDepth ?v" using assms o by (simp add: maxNestingDepth_def)
  have "secs (sr_at rec - startMs) \<noteq> []" using valid_number_Cons[OF assms] by auto
  then have "json_encode ?v = Some (cast_line secs startMs rec)"
    using json_good_nums[OF good] by (simp add: json_encode_def cast_line_def number_text_def)
  then show "json_decode (cast_line secs startMs rec) = Some ?v"
    using doc.dec_enc[OF good] by auto
qed

theorem cast_line_faithful_witness:
  "\<not> (\<exists>n. json_decode (cast_line (\<lambda>ms. ''0'') 0 \<lparr>sr_at = 0, sr_data = [0xE2, 0x82]\<rparr>) = Some (JArr [JNum ''0'', JStr n, JStr (bytes_string [0xE2, 0x82])]) \<and> n = ''o'')"
proof -
  have num: "valid_number ''0''" by code_simp
  have "\<not> utf8_ok (bytes_string [0xE2, 0x82])" by code_simp
  then show ?thesis using cast_line_faithful[of "\<lambda>ms. ''0''" "\<lparr>sr_at = 0, sr_data = [0xE2, 0x82]\<rparr>" 0] num by simp
qed

end
