(* ===== verification/MetaArgs.thy ===== *)
theory MetaArgs
  imports MetaJson
begin

text \<open>
  The grammar of \<open>runbaypty meta\<close> and of the filters of \<open>ls\<close>, \<open>cmd/runbaypty/metaargs.go\<close>:
  from the words of a command line to a JSON patch, and from a document to the answer of a filter.
\<close>

section \<open>Keys\<close>

abbreviation backslash :: char where
  "backslash \<equiv> CHR 0x5C"

text \<open>\<open>cur\<close> is the segment being read.\<close>

fun split_escaped_dots :: "string \<Rightarrow> string \<Rightarrow> string list" where
  "split_escaped_dots cur [] = [cur]"
| "split_escaped_dots cur (c # s) =
     (if c = backslash \<and> s \<noteq> [] \<and> hd s = CHR ''.'' then split_escaped_dots (cur @ ''.'') (tl s)
      else if c = CHR ''.'' then cur # split_escaped_dots [] s
      else split_escaped_dots (cur @ [c]) s)"

abbreviation key_parts :: "string \<Rightarrow> string list" where
  "key_parts \<equiv> split_escaped_dots []"

text \<open>\<open>setPath\<close> on the parts of the key: objects on the way are made, and whatever else is there is
  overwritten.\<close>

fun set_parts :: "(string, json) gomap \<Rightarrow> string list \<Rightarrow> json \<Rightarrow> (string, json) gomap" where
  "set_parts m [] v = m"
| "set_parts m [p] v = mput p v m"
| "set_parts m (p # ps) v =
     mput p (JObj (set_parts (case mget m p of Some (JObj child) \<Rightarrow> child | _ \<Rightarrow> []) ps v)) m"

definition set_path :: "(string, json) gomap \<Rightarrow> string \<Rightarrow> json \<Rightarrow> (string, json) gomap" where
  "set_path root key v = set_parts root (key_parts key) v"

fun lookup_path :: "json \<Rightarrow> string list \<Rightarrow> json option" where
  "lookup_path cur [] = Some cur"
| "lookup_path cur (p # ps) =
     (case cur of JObj obj \<Rightarrow> Option.bind (mget obj p) (\<lambda>x. lookup_path x ps) | _ \<Rightarrow> None)"

section \<open>Pairs\<close>

text \<open>\<open>strings.IndexByte\<close>, and the first value that a \<open>json.Decoder\<close> reads from a text.\<close>

definition index_byte :: "string \<Rightarrow> char \<Rightarrow> nat option" where
  "index_byte s c = (if c \<in> set s then Some (length (takeWhile (\<lambda>x. x \<noteq> c) s)) else None)"

definition decode_first :: "string \<Rightarrow> json option" where
  "decode_first s = map_option fst (parse_value (Suc (2 * length s)) maxNestingDepth (skip_ws s))"

definition parse_meta_pair :: "string \<Rightarrow> code + string \<times> json" where
  "parse_meta_pair p =
     (case index_byte p (CHR ''='') of
        None \<Rightarrow> Inl InvalidInput
      | Some eq \<Rightarrow>
          if 0 < eq \<and> p ! (eq - 1) = CHR '':'' then
            (let key = take (eq - 1) p
             in if key = [] then Inl InvalidInput
                else (case decode_first (drop (eq + 1) p) of
                    None \<Rightarrow> Inl InvalidInput
                  | Some v \<Rightarrow> Inr (key, v)))
          else
            (let key = take eq p
             in if key = [] then Inl InvalidInput else Inr (key, JStr (drop (eq + 1) p))))"

text \<open>Decoding into a \<open>json.Number\<close>: \<open>null\<close> leaves it empty, a string must hold a number.\<close>

definition decode_number :: "string \<Rightarrow> string option" where
  "decode_number s =
     (case decode_first s of
        Some (JNum n) \<Rightarrow> Some n
      | Some JNull \<Rightarrow> Some []
      | Some (JStr t) \<Rightarrow> if valid_number t then Some t else None
      | _ \<Rightarrow> None)"

section \<open>Patches\<close>

text \<open>
  Where \<open>--json\<close> comes from: standard input and files, when they can be read. \<open>refloat\<close> is what a
  number becomes on its way through a \<open>float64\<close>, \<open>None\<close> when it is out of range.
\<close>

record source_env =
  so_stdin :: "string option"
  so_file :: "string \<Rightarrow> string option"
  so_refloat :: "string \<Rightarrow> string option"

definition read_json_source :: "source_env \<Rightarrow> string \<Rightarrow> code + string" where
  "read_json_source env src =
     (case (if src = ''-'' then so_stdin env else if take 1 src = ''@'' then so_file env (drop 1 src) else Some src) of
        None \<Rightarrow> Inl InvalidInput
      | Some raw \<Rightarrow> Inr raw)"

fun refloat_all :: "(string \<Rightarrow> string option) \<Rightarrow> json \<Rightarrow> json option" where
  "refloat_all rf (JNum n) = map_option JNum (rf n)"
| "refloat_all rf (JArr xs) = map_option JArr (those (map (refloat_all rf) xs))"
| "refloat_all rf (JObj m) =
     map_option JObj (those (map (\<lambda>kv. map_option (Pair (fst kv)) (refloat_all rf (snd kv))) m))"
| "refloat_all rf v = Some v"

text \<open>\<open>json.Unmarshal\<close> of the whole text into the map: \<open>null\<close> makes the map nil (\<open>Some None\<close>).\<close>

definition unmarshal_root :: "(string \<Rightarrow> string option) \<Rightarrow> string \<Rightarrow> (string, json) gomap option option" where
  "unmarshal_root rf raw =
     (case parse_value (Suc (2 * length raw)) maxNestingDepth (skip_ws raw) of
        None \<Rightarrow> None
      | Some (v, rest) \<Rightarrow>
          if skip_ws rest \<noteq> [] then None
          else (case v of
              JNull \<Rightarrow> Some None
            | JObj m \<Rightarrow> (case refloat_all rf (JObj m) of Some (JObj m') \<Rightarrow> Some (Some m') | _ \<Rightarrow> None)
            | _ \<Rightarrow> None))"

text \<open>A result, or the panic of an assignment to a nil map.\<close>

datatype 'a outcome = Returns 'a | Panics

fun apply_pairs :: "(string, json) gomap option \<Rightarrow> string list \<Rightarrow> (code + (string, json) gomap option) outcome" where
  "apply_pairs root [] = Returns (Inr root)"
| "apply_pairs root (p # ps) =
     (case parse_meta_pair p of
        Inl e \<Rightarrow> Returns (Inl e)
      | Inr (key, v) \<Rightarrow>
          (case root of None \<Rightarrow> Panics | Some m \<Rightarrow> apply_pairs (Some (set_path m key v)) ps))"

definition marshal_root :: "(string, json) gomap option \<Rightarrow> code + string" where
  "marshal_root root =
     (case json_encode (case root of None \<Rightarrow> JNull | Some m \<Rightarrow> JObj m) of
        None \<Rightarrow> Inl InvalidInput
      | Some out \<Rightarrow> Inr out)"

definition build_meta_patch :: "source_env \<Rightarrow> string \<Rightarrow> string list \<Rightarrow> (code + string) outcome" where
  "build_meta_patch env jsonSrc pairs =
     (case (if jsonSrc = [] then Inr (Some [])
            else case read_json_source env jsonSrc of
                Inl e \<Rightarrow> Inl e
              | Inr raw \<Rightarrow> (case unmarshal_root (so_refloat env) raw of None \<Rightarrow> Inl InvalidInput | Some root \<Rightarrow> Inr root)) of
        Inl e \<Rightarrow> Returns (Inl e)
      | Inr root \<Rightarrow>
          (case apply_pairs root pairs of
             Panics \<Rightarrow> Panics
           | Returns (Inl e) \<Rightarrow> Returns (Inl e)
           | Returns (Inr root') \<Rightarrow> Returns (marshal_root root')))"

definition build_unset_patch :: "string list \<Rightarrow> code + string" where
  "build_unset_patch keys = marshal_root (Some (foldl (\<lambda>m k. set_path m k JNull) [] keys))"

fun apply_incrs :: "(string, json) gomap \<Rightarrow> string list \<Rightarrow> code + (string, json) gomap" where
  "apply_incrs root [] = Inr root"
| "apply_incrs root (p # ps) =
     (case index_byte p (CHR ''='') of
        None \<Rightarrow> Inl InvalidInput
      | Some eq \<Rightarrow>
          if eq < 1 then Inl InvalidInput
          else (case decode_number (drop (eq + 1) p) of
              None \<Rightarrow> Inl InvalidInput
            | Some n \<Rightarrow> apply_incrs (set_path root (take eq p) (JNum n)) ps))"

definition build_incr_patch :: "string list \<Rightarrow> code + string" where
  "build_incr_patch pairs = (case apply_incrs [] pairs of Inl e \<Rightarrow> Inl e | Inr m \<Rightarrow> marshal_root (Some m))"

section \<open>Filters\<close>

definition scalar_string :: "json \<Rightarrow> string" where
  "scalar_string v = (case v of
      JStr t \<Rightarrow> t | JNum n \<Rightarrow> n | JBool b \<Rightarrow> if b then ''true'' else ''false'' | _ \<Rightarrow> [])"

fun match_filters :: "json \<Rightarrow> string list \<Rightarrow> code + bool" where
  "match_filters root [] = Inr True"
| "match_filters root (f # fs) =
     (case index_byte f (CHR ''='') of
        None \<Rightarrow> Inl InvalidInput
      | Some eq \<Rightarrow>
          (case lookup_path root (key_parts (take eq f)) of
             None \<Rightarrow> Inr False
           | Some got \<Rightarrow> if scalar_string got \<noteq> drop (eq + 1) f then Inr False else match_filters root fs))"

definition meta_matches :: "string \<Rightarrow> string list \<Rightarrow> code + bool" where
  "meta_matches doc filters =
     (if filters = [] then Inr True
      else match_filters
        (if trim_space doc \<noteq> [] then (case decode_first doc of None \<Rightarrow> JNull | Some v \<Rightarrow> v) else JNull) filters)"

text \<open>The filter loop of \<open>ls\<close>, over the sessions and their documents.\<close>

fun ls_filter :: "('a \<Rightarrow> string) \<Rightarrow> string list \<Rightarrow> 'a list \<Rightarrow> code + 'a list" where
  "ls_filter doc filters [] = Inr []"
| "ls_filter doc filters (s # ss) =
     (case meta_matches (doc s) filters of
        Inl e \<Rightarrow> Inl e
      | Inr ok \<Rightarrow> (case ls_filter doc filters ss of Inl e \<Rightarrow> Inl e | Inr kept \<Rightarrow> Inr (if ok then s # kept else kept)))"

text \<open>\<open>parseKVs\<close> of the flat metadata.\<close>

fun parse_kvs :: "(string, string) gomap \<Rightarrow> string list \<Rightarrow> code + (string, string) gomap" where
  "parse_kvs out [] = Inr out"
| "parse_kvs out (p # ps) =
     (case index_byte p (CHR ''='') of
        None \<Rightarrow> Inl InvalidInput
      | Some eq \<Rightarrow> if eq = 0 then Inl InvalidInput else parse_kvs (mput (take eq p) (drop (eq + 1) p) out) ps)"

section \<open>Setting and looking up\<close>

lemma lookup_set_same: "ps \<noteq> [] \<Longrightarrow> lookup_path (JObj (set_parts m ps v)) ps = Some v"
  by (induction m ps v rule: set_parts.induct) simp_all

lemma lookup_set_other:
  "\<not> prefix ps qs \<Longrightarrow> \<not> prefix qs ps \<Longrightarrow> lookup_path (JObj (set_parts m ps v)) qs = lookup_path (JObj m) qs"
proof (induction m ps v arbitrary: qs rule: set_parts.induct)
  case (2 m p v)
  then show ?case by (cases qs) auto
next
  case (3 m p p2 ps v)
  then obtain q qs' where qs: "qs = q # qs'" by (cases qs) auto
  show ?case
  proof (cases "q = p")
    case True
    let ?child = "case mget m p of Some (JObj child) \<Rightarrow> child | _ \<Rightarrow> []"
    have n: "\<not> prefix (p2 # ps) qs'" "\<not> prefix qs' (p2 # ps)" using "3.prems" qs True by auto
    then have "qs' \<noteq> []" by auto
    then have "lookup_path (JObj ?child) qs' = Option.bind (mget m p) (\<lambda>x. lookup_path x qs')"
      by (cases qs') (auto split: option.split json.split)
    then show ?thesis using "3.IH"[OF n] by (simp add: qs True)
  qed (simp add: qs)
qed simp

lemma key_parts_nonempty [simp]: "split_escaped_dots cur s \<noteq> []"
  by (induction cur s rule: split_escaped_dots.induct) simp_all

text \<open>Setting a dotted key of a document makes that key read as the value, whatever was on its way,
  and leaves every key beside it, neither on its way nor below it, as it was.\<close>

theorem set_path_lookup:
  "lookup_path (JObj (set_path m key v)) (key_parts key) = Some v \<and>
   (\<forall>qs. \<not> prefix (key_parts key) qs \<and> \<not> prefix qs (key_parts key) \<longrightarrow>
      lookup_path (JObj (set_path m key v)) qs = lookup_path (JObj m) qs)"
  by (simp add: set_path_def lookup_set_same lookup_set_other)

definition demo_key :: string where
  "demo_key = ''a.x'' @ [backslash] @ ''.y''"

theorem set_path_lookup_witness:
  "lookup_path (JObj (set_path [(''a'', JObj [(''b'', JNull)]), (''c'', JBool True)] demo_key (JNum ''5''))) [''a'', ''b''] = Some JNull"
proof -
  have k: "key_parts demo_key = [''a'', ''x.y'']" by code_simp
  have "\<not> prefix (key_parts demo_key) [''a'', ''b'']" "\<not> prefix [''a'', ''b''] (key_parts demo_key)"
    unfolding k by simp_all
  then have "lookup_path (JObj (set_path [(''a'', JObj [(''b'', JNull)]), (''c'', JBool True)] demo_key (JNum ''5''))) [''a'', ''b''] =
      lookup_path (JObj [(''a'', JObj [(''b'', JNull)]), (''c'', JBool True)]) [''a'', ''b'']"
    using conjunct2[OF set_path_lookup] by blast
  also have "\<dots> = Some JNull" by (simp add: mget_Cons)
  finally show ?thesis .
qed

section \<open>From the command line to the filter\<close>

lemma index_byte_first:
  assumes "c \<notin> set k"
  shows "index_byte (k @ c # v) c = Some (length k)"
proof -
  have "takeWhile (\<lambda>x. x \<noteq> c) (k @ c # v) = k @ takeWhile (\<lambda>x. x \<noteq> c) (c # v)"
    by (rule takeWhile_append2) (use assms in blast)
  then show ?thesis by (simp add: index_byte_def)
qed

lemma mput_Nil: "mput p x [] = [(p, x)]"
  by (simp add: mput_def)

lemma merge_nested:
  "ps \<noteq> [] \<Longrightarrow> \<not> is_obj x \<Longrightarrow>
   lookup_path (merge_value t (JObj (set_parts [] ps x))) ps = (if x = JNull then None else Some x)"
proof (induction ps arbitrary: t)
  case (Cons p ps)
  show ?case
  proof (cases ps)
    case Nil
    then show ?thesis using Cons.prems merge_value_scalar[of x] by (simp add: mput_Nil)
  next
    case (Cons p2 ps')
    then have "set_parts [] (p # ps) x = [(p, JObj (set_parts [] ps x))]" by (simp add: mput_Nil)
    then show ?thesis using Cons.IH[of "case mget (obj_of t) p of Some y \<Rightarrow> y | None \<Rightarrow> JNull"] Cons Cons.prems by simp
  qed
qed simp

lemma canon_nested: "\<not> is_obj x \<Longrightarrow> canon x = x \<Longrightarrow> canon (JObj (set_parts [] ps x)) = JObj (set_parts [] ps x)"
proof (induction ps)
  case (Cons p ps)
  then show ?case by (cases ps) (simp_all add: mput_Nil)
qed simp

lemma good_nested:
  "list_all utf8_ok ps \<Longrightarrow> length ps \<le> d \<Longrightarrow> ps \<noteq> [] \<Longrightarrow> (\<And>e. json_good e x) \<Longrightarrow> json_good d (JObj (set_parts [] ps x))"
proof (induction ps arbitrary: d)
  case (Cons p ps)
  show ?case
  proof (cases ps)
    case Nil
    then show ?thesis using Cons.prems by (simp add: mput_Nil mwf_def)
  next
    case (Cons p2 ps')
    then have "set_parts [] (p # ps) x = [(p, JObj (set_parts [] ps x))]" by (simp add: mput_Nil)
    moreover have "json_good (d - 1) (JObj (set_parts [] ps x))" using Cons Cons.prems Cons.IH[of "d - 1"] by auto
    ultimately show ?thesis using Cons.prems by (simp add: mwf_def)
  qed
qed simp

lemma lookup_canon: "json_wf v \<Longrightarrow> lookup_path (canon v) ps = map_option canon (lookup_path v ps)"
proof (induction ps arbitrary: v)
  case (Cons p ps)
  show ?case
  proof (cases v)
    case (JObj m)
    have w: "mwf m" using Cons.prems by (simp add: JObj json_wf.simps(2))
    then have "mget (sort_key fst (map (\<lambda>kv. (fst kv, canon (snd kv))) m)) p = map_option canon (mget m p)"
      using mget_sort[of "map (\<lambda>kv. (fst kv, canon (snd kv))) m" p] by (simp add: mget_map_snd)
    then show ?thesis
      using Cons.IH json_wf_get[of m p] Cons.prems by (cases "mget m p") (simp_all add: JObj)
  qed simp_all
qed simp

lemma decode_first_doc: "json_decode s = Some v \<Longrightarrow> decode_first s = Some v"
  by (auto simp: json_decode_def decode_first_def split: option.splits prod.splits list.splits if_splits)

lemma lookup_not_obj: "\<not> is_obj v \<Longrightarrow> ps \<noteq> [] \<Longrightarrow> lookup_path v ps = None"
  by (cases v; cases ps) simp_all

text \<open>A key that can be written before \<open>=\<close>, and whose parts JSON can carry.\<close>

definition plain_key :: "string \<Rightarrow> bool" where
  "plain_key k \<longleftrightarrow> k \<noteq> [] \<and> CHR ''='' \<notin> set k \<and> last k \<noteq> CHR '':'' \<and>
     list_all utf8_ok (key_parts k) \<and> length (key_parts k) \<le> maxNestingDepth"

lemma parse_string_pair: "plain_key k \<Longrightarrow> parse_meta_pair (k @ CHR ''='' # v) = Inr (k, JStr v)"
  by (auto simp: parse_meta_pair_def plain_key_def index_byte_first nth_append last_conv_nth Let_def)

text \<open>One filter against a stored document.\<close>

lemma stored_starts:
  assumes "json_encode v = Some s" "is_obj v"
  shows "trim_space s \<noteq> []"
proof -
  obtain m where v: "v = JObj m" using assms(2) by (cases v) auto
  obtain t where "s = CHR ''{'' # t" using assms(1) by (auto simp: json_encode_def v split: if_splits)
  then show ?thesis by (simp add: trim_space_def trim_left_id space_width_plain)
qed

lemma stored_filter:
  assumes "json_encode v = Some s" "json_decode s = Some (canon v)" "json_wf v" "is_obj v" "plain_key k"
  shows "meta_matches s [k @ CHR ''='' # x] =
    Inr (case lookup_path v (key_parts k) of None \<Rightarrow> False | Some y \<Rightarrow> scalar_string y = x)"
proof -
  have "scalar_string (canon y) = scalar_string y" for y by (cases y) (simp_all add: scalar_string_def)
  then show ?thesis
    using stored_starts[OF assms(1,4)] decode_first_doc[OF assms(2)] lookup_canon[OF assms(3)] assms(5)
    by (auto simp: meta_matches_def plain_key_def index_byte_first split: option.split)
qed

text \<open>What a one-key patch does to a stored document.\<close>

lemma one_key_patch:
  assumes "plain_key k" "\<not> is_obj x" "canon x = x" "\<And>e. json_good e x" "trim_space target = [] \<or> json_decode target \<noteq> None"
  obtains patch stored v where "marshal_root (Some (set_path [] k x)) = Inr patch" "merge_patch target patch = Some stored"
    "json_encode v = Some stored" "json_decode stored = Some (canon v)" "json_wf v" "is_obj v"
    "lookup_path v (key_parts k) = (if x = JNull then None else Some x)"
proof -
  let ?p = "JObj (set_parts [] (key_parts k) x)"
  have good: "json_good maxNestingDepth ?p"
    using assms(1,4) by (intro good_nested) (simp_all add: plain_key_def)
  obtain patch where patch: "json_encode ?p = Some patch" "json_decode patch = Some ?p"
    using doc.dec_enc[OF good] canon_nested[OF assms(2,3)] by auto
  define t where "t = (if trim_space target = [] then JNull else the (json_decode target))"
  have "json_good maxNestingDepth t"
    using assms(5) json_decode_good[of target] by (auto simp: t_def)
  from doc.enc_merge[OF this good] obtain s where s: "json_encode (merge_value t ?p) = Some s"
      "json_decode s = Some (canon (merge_value t ?p))" by blast
  have "merge_patch target patch = Some s"
    using assms(5) s(1) patch(2) by (auto simp: merge_patch_def t_def)
  moreover have "json_wf (merge_value t ?p)"
    using doc.ok_wf[OF doc.ok_merge[OF \<open>json_good maxNestingDepth t\<close> good]] .
  moreover have "lookup_path (merge_value t ?p) (key_parts k) = (if x = JNull then None else Some x)"
    by (rule merge_nested) (use assms(2) in simp_all)
  ultimately show ?thesis
    using that[of patch s "merge_value t ?p"] patch(1) s by (simp add: marshal_root_def set_path_def)
qed

text \<open>C37. The command line and the filter speak the same language: for a key that can be written before
  an equals sign, dots and escaped dots included, \<open>meta merge k=v\<close> applied to any stored document
  gives a document that \<open>ls --filter k=v\<close> lets through and that no other value of \<open>k\<close> lets
  through; and after \<open>meta unset k\<close> no filter on \<open>k\<close> lets it through, whatever the value.\<close>

theorem meta_pair_visible:
  assumes "plain_key k" "utf8_ok v" "trim_space target = [] \<or> json_decode target \<noteq> None"
  shows "(\<exists>patch stored. build_meta_patch env [] [k @ CHR ''='' # v] = Returns (Inr patch) \<and>
      merge_patch target patch = Some stored \<and> (\<forall>w. meta_matches stored [k @ CHR ''='' # w] = Inr (w = v))) \<and>
    (\<exists>patch stored. build_unset_patch [k] = Inr patch \<and> merge_patch target patch = Some stored \<and>
      (\<forall>w. meta_matches stored [k @ CHR ''='' # w] = Inr False))"
proof
  show "\<exists>patch stored. build_meta_patch env [] [k @ CHR ''='' # v] = Returns (Inr patch) \<and>
      merge_patch target patch = Some stored \<and> (\<forall>w. meta_matches stored [k @ CHR ''='' # w] = Inr (w = v))"
  proof (rule one_key_patch[OF assms(1) _ _ _ assms(3), of "JStr v"])
    fix patch stored d
    assume a: "marshal_root (Some (set_path [] k (JStr v))) = Inr patch" "merge_patch target patch = Some stored"
      "json_encode d = Some stored" "json_decode stored = Some (canon d)" "json_wf d" "is_obj d"
      "lookup_path d (key_parts k) = (if JStr v = JNull then None else Some (JStr v))"
    have "build_meta_patch env [] [k @ CHR ''='' # v] = Returns (Inr patch)"
      using a(1) by (simp add: build_meta_patch_def parse_string_pair[OF assms(1)])
    then show ?thesis using a(2) stored_filter[OF a(3-6) assms(1)] a(7) by (auto simp: scalar_string_def)
  qed (use assms(2) in simp_all)
  show "\<exists>patch stored. build_unset_patch [k] = Inr patch \<and> merge_patch target patch = Some stored \<and>
      (\<forall>w. meta_matches stored [k @ CHR ''='' # w] = Inr False)"
  proof (rule one_key_patch[OF assms(1) _ _ _ assms(3), of JNull])
    fix patch stored d
    assume a: "marshal_root (Some (set_path [] k JNull)) = Inr patch" "merge_patch target patch = Some stored"
      "json_encode d = Some stored" "json_decode stored = Some (canon d)" "json_wf d" "is_obj d"
      "lookup_path d (key_parts k) = (if JNull = JNull then None else Some JNull)"
    then show ?thesis using stored_filter[OF a(3-6) assms(1)] by (auto simp: build_unset_patch_def)
  qed simp_all
qed

theorem meta_pair_visible_witness:
  "\<exists>patch stored. build_meta_patch \<lparr>so_stdin = None, so_file = (\<lambda>p. None), so_refloat = Some\<rparr> [] [demo_key @ ''=deploy''] = Returns (Inr patch) \<and>
     merge_patch ''{}'' patch = Some stored \<and> meta_matches stored [demo_key @ ''=deploy''] = Inr True"
proof -
  have k: "plain_key demo_key" "utf8_ok ''deploy''" "json_decode ''{}'' \<noteq> None" by code_simp+
  then show ?thesis using conjunct1[OF meta_pair_visible[OF k(1,2) disjI2[OF k(3)]]] by fastforce
qed

section \<open>A document that is null\<close>

lemma apply_pairs_some: "apply_pairs (Some m) ps \<noteq> Panics"
  by (induction ps arbitrary: m) (auto split: sum.split)

text \<open>When the base document is \<open>null\<close>, the command dies: \<open>Unmarshal\<close> sets the map to nil, and the
  first pair that is well formed is assigned into it, a panic. It is the only way to panic; with
  no pairs \<open>null\<close> is passed on as if it were an object.\<close>

theorem null_base_panics:
  "(build_meta_patch env src pairs = Panics \<longleftrightarrow>
     (\<exists>raw p ps kv. src \<noteq> [] \<and> read_json_source env src = Inr raw \<and> unmarshal_root (so_refloat env) raw = Some None \<and>
        pairs = p # ps \<and> parse_meta_pair p = Inr kv)) \<and>
   build_meta_patch env ''null'' [] = Returns (Inr ''null'')"
proof
  have nil: "apply_pairs None pairs = Panics \<longleftrightarrow> (\<exists>p ps kv. pairs = p # ps \<and> parse_meta_pair p = Inr kv)"
    by (cases pairs) (auto split: sum.split)
  have run: "(case apply_pairs root pairs of Panics \<Rightarrow> Panics | Returns (Inl e) \<Rightarrow> Returns (Inl e)
      | Returns (Inr root') \<Rightarrow> Returns (marshal_root root')) = Panics \<longleftrightarrow> apply_pairs root pairs = Panics" for root
    by (auto split: outcome.split sum.split)
  show "build_meta_patch env src pairs = Panics \<longleftrightarrow>
     (\<exists>raw p ps kv. src \<noteq> [] \<and> read_json_source env src = Inr raw \<and> unmarshal_root (so_refloat env) raw = Some None \<and>
        pairs = p # ps \<and> parse_meta_pair p = Inr kv)"
  proof (cases "src = []")
    case True
    then show ?thesis using run[of "Some []"] apply_pairs_some[of "[]" pairs] by (simp add: build_meta_patch_def)
  next
    case False
    show ?thesis
    proof (cases "read_json_source env src")
      case (Inr raw)
      show ?thesis
      proof (cases "unmarshal_root (so_refloat env) raw")
        case (Some root)
        then have "build_meta_patch env src pairs = Panics \<longleftrightarrow> apply_pairs root pairs = Panics"
          using False Inr run[of root] by (simp add: build_meta_patch_def)
        then show ?thesis using False Inr Some nil apply_pairs_some by (cases root) auto
      qed (use False Inr in \<open>simp add: build_meta_patch_def\<close>)
    qed (use False in \<open>simp add: build_meta_patch_def\<close>)
  qed
  show "build_meta_patch env ''null'' [] = Returns (Inr ''null'')"
  proof -
    have "parse_value 9 10000 ''null'' = Some (JNull, [])" by code_simp
    then show ?thesis
      by (simp add: build_meta_patch_def read_json_source_def unmarshal_root_def is_space_def maxNestingDepth_def
          marshal_root_def json_encode_def)
  qed
qed

end
