(* ===== verification/Commands.thy ===== *)
theory Commands
  imports Requests Cli MetaArgs Paths
begin

text \<open>
  The commands of \<open>cmd/runbaypty/client_cmds.go\<close>, with those of \<open>attach.go\<close> and \<open>export.go\<close> around
  the loops of \<open>Cli\<close>: each checks its arguments, dials, makes its call on the client of \<open>Client\<close>,
  and prints. What happens on the connection meanwhile is the argument \<open>es\<close>. A command returns
  its error, or what it prints; \<open>None\<close> is a command still waiting.
\<close>

section \<open>Dialling\<close>

text \<open>
  The \<open>--sock\<close> flag, the path of the environment, which sockets answer, and whether the writes of
  the handshake and of the request go out.
\<close>

record cli_env =
  cv_sock_flag :: string
  cv_sock_path :: "string option"
  cv_reachable :: "string \<Rightarrow> bool"
  cv_hello_sent :: bool
  cv_sent :: bool

definition dial_cmd :: "cli_env \<Rightarrow> net_event list \<Rightarrow> (err + client) option \<times> net_event list" where
  "dial_cmd env es =
     (case (if cv_sock_flag env = [] then cv_sock_path env else Some (cv_sock_flag env)) of
        None \<Rightarrow> (Some (Inl (Coded Internal)), es)
      | Some sock \<Rightarrow> client_dial (cv_reachable env sock) (cv_hello_sent env) es)"

text \<open>Dial, make one call, close.\<close>

definition with_client ::
  "cli_env \<Rightarrow> net_event list \<Rightarrow> (client \<Rightarrow> net_event list \<Rightarrow> (err + 'a) option \<times> client \<times> net_event list) \<Rightarrow> (err + 'a) option" where
  "with_client env es f =
     (case dial_cmd env es of
        (None, _) \<Rightarrow> None
      | (Some (Inl e), _) \<Rightarrow> Some (Inl e)
      | (Some (Inr c), es') \<Rightarrow> fst (f c es'))"

text \<open>A command that prints what it got, or nothing.\<close>

definition printing :: "('a \<Rightarrow> 'b) \<Rightarrow> (err + 'a) option \<Rightarrow> (err + 'b) option" where
  "printing show r = map_option (\<lambda>x. case x of Inl e \<Rightarrow> Inl e | Inr a \<Rightarrow> Inr (show a)) r"

datatype 'a printed = Plain string | AsJSON 'a

section \<open>Text\<close>

text \<open>The number of characters \<open>fmt\<close> counts for a width: an invalid byte is one.\<close>

function rune_count :: "string \<Rightarrow> nat" where
  "rune_count [] = 0"
| "rune_count (c # s) = Suc (rune_count (case utf8_width (c # s) of Some n \<Rightarrow> drop (n - 1) s | None \<Rightarrow> s))"
  by pat_completeness auto
termination by (relation "measure length") (auto split: option.split)

definition pad :: "nat \<Rightarrow> string \<Rightarrow> string" where
  "pad n s = s @ replicate (n - rune_count s) (CHR '' '')"

definition ellipsis :: string where
  "ellipsis = map char_of [0xE2, 0x80, 0xA6 :: nat]"

definition line_end :: string where
  "line_end = [char_of (10 :: nat)]"

text \<open>Decimal with leading zeros; the date and the time of a Unix time in UTC, as RFC 3339.\<close>

definition zeros :: "nat \<Rightarrow> int \<Rightarrow> string" where
  "zeros n i = replicate (n - length (int_string i)) (CHR ''0'') @ int_string i"

definition civil_date :: "int \<Rightarrow> int \<times> int \<times> int" where
  "civil_date days =
     (let z = days + 719468; era = z div 146097; doe = z mod 146097;
          yoe = (doe - doe div 1460 + doe div 36524 - doe div 146096) div 365;
          doy = doe - (365 * yoe + yoe div 4 - yoe div 100); mp = (5 * doy + 2) div 153;
          m = (if mp < 10 then mp + 3 else mp - 9)
      in (yoe + era * 400 + (if m \<le> 2 then 1 else 0), m, doy - (153 * mp + 2) div 5 + 1))"

definition rfc3339 :: "int \<Rightarrow> string" where
  "rfc3339 ms =
     (let secs = ms div 1000; (y, m, d) = civil_date (secs div 86400); t = secs mod 86400
      in zeros 4 y @ ''-'' @ zeros 2 m @ ''-'' @ zeros 2 d @ ''T'' @
         zeros 2 (t div 3600) @ '':'' @ zeros 2 (t div 60 mod 60) @ '':'' @ zeros 2 (t mod 60) @ ''Z'')"

text \<open>The time of day of a local clock \<open>off\<close> seconds ahead of UTC, with milliseconds.\<close>

definition clock_text :: "int \<Rightarrow> int \<Rightarrow> string" where
  "clock_text off ms =
     (let t = (ms + off * 1000) mod 86400000; s = t div 1000
      in zeros 2 (s div 3600) @ '':'' @ zeros 2 (s div 60 mod 60) @ '':'' @ zeros 2 (s mod 60) @ ''.'' @ zeros 3 (t mod 1000))"

section \<open>run, ls, info\<close>

record run_flags =
  rf_name :: string
  rf_cwd :: string
  rf_env :: "string list"
  rf_meta :: "string list"
  rf_cols :: u16
  rf_rows :: u16
  rf_ring_bytes :: int
  rf_log_path :: string
  rf_no_linger :: bool
  rf_json :: bool

definition run_command ::
  "cli_env \<Rightarrow> run_flags \<Rightarrow> string list \<Rightarrow> net_event list \<Rightarrow> (err + (string \<times> int \<times> string) printed) option" where
  "run_command env fl args es =
     (case parse_kvs [] (rf_meta fl) of
        Inl e \<Rightarrow> Some (Inl (Coded e))
      | Inr meta \<Rightarrow>
          printing (\<lambda>(sid, pid). if rf_json fl then AsJSON (sid, pid, rf_name fl) else Plain (sid @ line_end))
            (with_client env es (\<lambda>c. client_spawn (cv_sent env) c
               \<lparr>op_cmd = hd args, op_args = tl args, op_cwd = rf_cwd fl, op_env = rf_env fl, op_cols = rf_cols fl,
                op_rows = rf_rows fl, op_name = rf_name fl, op_meta = meta, op_annotations = [],
                op_ring_bytes = rf_ring_bytes fl, op_log_path = rf_log_path fl, op_no_linger = rf_no_linger fl\<rparr>)))"

definition ls_cmdline :: "session_info \<Rightarrow> string" where
  "ls_cmdline s =
     (let cmdline = si_cmd s @ (if si_args s \<noteq> [] then '' '' @ join_with '' '' (si_args s) else [])
      in if 40 < length cmdline then take 37 cmdline @ ellipsis else cmdline)"

definition ls_header :: string where
  "ls_header = pad 38 ''ID'' @ '' '' @ pad 16 ''NAME'' @ '' '' @ pad 8 ''STATE'' @ '' '' @ pad 7 ''PID'' @ '' '' @
     pad 8 ''CLIENTS'' @ '' '' @ ''CMD'' @ line_end"

definition ls_row :: "session_info \<Rightarrow> string" where
  "ls_row s = pad 38 (si_id s) @ '' '' @ pad 16 (si_name s) @ '' '' @ pad 8 (session_state_string (si_state s)) @ '' '' @
     pad 7 (int_string (si_pid s)) @ '' '' @ pad 8 (int_string (si_subscribers s)) @ '' '' @ ls_cmdline s @ line_end"

definition ls_print :: "bool \<Rightarrow> session_info list \<Rightarrow> session_info list printed" where
  "ls_print json sessions =
     (if json then AsJSON sessions
      else if sessions = [] then
        Plain (''no sessions '' @ map char_of [0xE2, 0x80, 0x94 :: nat] @ '' start one: runbaypty run -- <command>'' @ line_end)
      else Plain (ls_header @ concat (map ls_row sessions)))"

definition ls_command ::
  "cli_env \<Rightarrow> string list \<Rightarrow> bool \<Rightarrow> net_event list \<Rightarrow> (err + session_info list printed) option" where
  "ls_command env filters json es =
     map_option (\<lambda>r. case r of
          Inl e \<Rightarrow> Inl e
        | Inr sessions \<Rightarrow>
            (case (if filters \<noteq> [] then ls_filter si_annotations filters sessions else Inr sessions) of
               Inl e \<Rightarrow> Inl (Coded e)
             | Inr kept \<Rightarrow> Inr (ls_print json kept)))
       (with_client env es (client_list (cv_sent env)))"

definition info_field :: "string \<Rightarrow> string \<Rightarrow> string" where
  "info_field label v = pad 13 (label @ '':'') @ v @ line_end"

definition info_text :: "session_info \<Rightarrow> string" where
  "info_text i =
     info_field ''id'' (si_id i) @
     (if si_name i \<noteq> [] then info_field ''name'' (si_name i) else []) @
     info_field ''state'' (session_state_string (si_state i)) @
     info_field ''pid'' (int_string (si_pid i)) @
     info_field ''cmd'' (si_cmd i @ '' '' @ join_with '' '' (si_args i)) @
     (if si_cwd i \<noteq> [] then info_field ''cwd'' (si_cwd i) else []) @
     info_field ''size'' (nat_string (unat (si_cols i)) @ ''x'' @ nat_string (unat (si_rows i))) @
     info_field ''started'' (rfc3339 (si_started_at_ms i)) @
     (case si_exit_code i of None \<Rightarrow> [] | Some code \<Rightarrow> info_field ''exit code'' (int_string code)) @
     info_field ''bytes'' (''out '' @ u64_string (si_bytes_out i) @ '' '' @ map char_of [0xC2, 0xB7 :: nat] @ '' in '' @
       u64_string (si_bytes_in i) @ '' (last seq '' @ u64_string (si_last_seq i) @ '')'') @
     info_field ''clients'' (int_string (si_subscribers i)) @
     (if si_write_lock_holder i \<noteq> [] then info_field ''write lock'' (si_write_lock_holder i) else []) @
     concat (map (\<lambda>k. ''meta.'' @ k @ '': '' @ the (mget (si_meta i) k) @ line_end) (sort (map fst (si_meta i))))"

definition info_command :: "cli_env \<Rightarrow> string \<Rightarrow> bool \<Rightarrow> net_event list \<Rightarrow> (err + session_info printed) option" where
  "info_command env idOrName json es =
     printing (\<lambda>i. if json then AsJSON i else Plain (info_text i))
       (with_client env es (\<lambda>c. client_info (cv_sent env) c idOrName))"

section \<open>kill, resize, rename, meta, lastcmd\<close>

text \<open>A command whose call only wants the \<open>OK\<close> prints nothing.\<close>

definition ok_command :: "cli_env \<Rightarrow> net_event list \<Rightarrow> (client \<Rightarrow> net_event list \<Rightarrow> (err + unit) option \<times> client \<times> net_event list)
   \<Rightarrow> (err + string) option" where
  "ok_command env es f = printing (\<lambda>u. []) (with_client env es f)"

definition kill_command :: "cli_env \<Rightarrow> string \<Rightarrow> string \<Rightarrow> net_event list \<Rightarrow> (err + string) option" where
  "kill_command env idOrName sig es = ok_command env es (\<lambda>c. client_kill (cv_sent env) c idOrName sig)"

text \<open>\<open>strconv.ParseUint(s, 10, 16)\<close>.\<close>

definition parse_u16 :: "string \<Rightarrow> u16 option" where
  "parse_u16 s =
     (if s = [] then None
      else case parse_digits 0 s of None \<Rightarrow> None | Some n \<Rightarrow> if n < 2 ^ 16 then Some (of_nat n) else None)"

definition resize_command :: "cli_env \<Rightarrow> string \<Rightarrow> string \<Rightarrow> string \<Rightarrow> net_event list \<Rightarrow> (err + string) option" where
  "resize_command env idOrName colsArg rowsArg es =
     (case parse_u16 colsArg of
        None \<Rightarrow> Some (Inl (Coded InvalidInput))
      | Some cols \<Rightarrow>
          (case parse_u16 rowsArg of
             None \<Rightarrow> Some (Inl (Coded InvalidInput))
           | Some rows \<Rightarrow> ok_command env es (\<lambda>c. client_resize (cv_sent env) c idOrName cols rows)))"

definition rename_command :: "cli_env \<Rightarrow> string \<Rightarrow> string \<Rightarrow> net_event list \<Rightarrow> (err + string) option" where
  "rename_command env idOrName name es = ok_command env es (\<lambda>c. client_rename (cv_sent env) c idOrName name)"

definition meta_get_command :: "cli_env \<Rightarrow> string \<Rightarrow> net_event list \<Rightarrow> (err + string) option" where
  "meta_get_command env idOrName es =
     printing (\<lambda>i. (if si_annotations i = [] then ''{}'' else si_annotations i) @ line_end)
       (with_client env es (\<lambda>c. client_info (cv_sent env) c idOrName))"

definition send_meta_json :: "cli_env \<Rightarrow> string \<Rightarrow> string \<Rightarrow> string \<Rightarrow> int \<Rightarrow> net_event list \<Rightarrow> (err + string) option" where
  "send_meta_json env idOrName patch mode ifVersion es =
     ok_command env es (\<lambda>c. client_set_meta_json (cv_sent env) c idOrName patch mode
       (if 0 \<le> ifVersion then Some (of_int ifVersion) else None))"

text \<open>\<open>merge\<close> and \<open>replace\<close>, which differ in the mode; the panic is that of the patch.\<close>

definition meta_write_command ::
  "cli_env \<Rightarrow> source_env \<Rightarrow> string \<Rightarrow> string \<Rightarrow> string list \<Rightarrow> string \<Rightarrow> int \<Rightarrow> net_event list
   \<Rightarrow> (err + string) option outcome" where
  "meta_write_command env src idOrName jsonSrc pairs mode ifVersion es =
     (case build_meta_patch src jsonSrc pairs of
        Panics \<Rightarrow> Panics
      | Returns (Inl e) \<Rightarrow> Returns (Some (Inl (Coded e)))
      | Returns (Inr patch) \<Rightarrow> Returns (send_meta_json env idOrName patch mode ifVersion es))"

definition meta_unset_command :: "cli_env \<Rightarrow> string \<Rightarrow> string list \<Rightarrow> net_event list \<Rightarrow> (err + string) option" where
  "meta_unset_command env idOrName keys es =
     (case build_unset_patch keys of
        Inl e \<Rightarrow> Some (Inl (Coded e))
      | Inr patch \<Rightarrow> send_meta_json env idOrName patch MetaModeMerge (-1) es)"

definition meta_incr_command :: "cli_env \<Rightarrow> string \<Rightarrow> string list \<Rightarrow> net_event list \<Rightarrow> (err + string) option" where
  "meta_incr_command env idOrName pairs es =
     (case build_incr_patch pairs of
        Inl e \<Rightarrow> Some (Inl (Coded e))
      | Inr patch \<Rightarrow> send_meta_json env idOrName patch MetaModeIncr (-1) es)"

definition meta_set_command :: "cli_env \<Rightarrow> string \<Rightarrow> string list \<Rightarrow> net_event list \<Rightarrow> (err + string) option" where
  "meta_set_command env idOrName pairs es =
     (case parse_kvs [] pairs of
        Inl e \<Rightarrow> Some (Inl (Coded e))
      | Inr kv \<Rightarrow> ok_command env es (\<lambda>c. client_set_meta (cv_sent env) c idOrName kv))"

definition lastcmd_command :: "cli_env \<Rightarrow> string \<Rightarrow> net_event list \<Rightarrow> (err + byte list) option" where
  "lastcmd_command env idOrName es =
     printing fst (with_client env es (\<lambda>c. client_last_command_output (cv_sent env) c idOrName))"

section \<open>events\<close>

definition event_line :: "int \<Rightarrow> event \<Rightarrow> string" where
  "event_line off ev =
     clock_text off (ev_at_ms ev) @ ''  '' @ pad 13 (event_type_string (ev_type ev)) @ '' '' @ ev_session_id ev @
     (if ev_data ev \<noteq> [] then ''  '' @ join_with '' '' (sort (map (\<lambda>(k, v). k @ ''='' @ v) (ev_data ev))) else []) @ line_end"

text \<open>The loop over the subscription: an event, the end of the stream, or the end of the context.\<close>

datatype events_turn = EventIn event | EventsEnd | EventsCancel

fun events_loop :: "(event \<Rightarrow> string) \<Rightarrow> events_turn list \<Rightarrow> string \<times> (err option) option" where
  "events_loop show [] = ([], None)"
| "events_loop show (EventIn ev # ts) = (case events_loop show ts of (out, r) \<Rightarrow> (show ev @ out, r))"
| "events_loop show (EventsEnd # ts) = ([], Some (Some (Coded DaemonUnreachable)))"
| "events_loop show (EventsCancel # ts) = ([], Some None)"

definition events_command ::
  "cli_env \<Rightarrow> string \<Rightarrow> (event \<Rightarrow> string) option \<Rightarrow> int \<Rightarrow> events_turn list \<Rightarrow> net_event list
   \<Rightarrow> (err + string \<times> (err option) option) option" where
  "events_command env session json off turns es =
     printing (\<lambda>ch. events_loop (case json of Some enc \<Rightarrow> enc | None \<Rightarrow> event_line off) turns)
       (with_client env es (\<lambda>c. client_subscribe_events (cv_sent env) c session))"

section \<open>attach\<close>

text \<open>
  What the interactive loop selects on: a change of the window, a signal, the end of the keyboard
  pump, the end of the output. The result: how often the session was resized, and how it ended.
\<close>

datatype attach_event = WindowChanged | SignalArrived | InputEnded pump_end | OutputEnded "err option"

datatype attach_end = AttachDetached | AttachError err | AttachDone

fun attach_select :: "bool \<Rightarrow> attach_event list \<Rightarrow> nat \<times> attach_end option" where
  "attach_select readOnly [] = (0, None)"
| "attach_select readOnly (WindowChanged # es) =
     (case attach_select readOnly es of (n, r) \<Rightarrow> (if readOnly then n else Suc n, r))"
| "attach_select readOnly (SignalArrived # es) = (0, Some AttachDetached)"
| "attach_select readOnly (InputEnded PumpWaiting # es) = attach_select readOnly es"
| "attach_select readOnly (InputEnded PumpDetached # es) = (0, Some AttachDetached)"
| "attach_select readOnly (InputEnded (PumpFailed e) # es) = (0, Some (AttachError e))"
| "attach_select readOnly (OutputEnded None # es) = (0, Some AttachDone)"
| "attach_select readOnly (OutputEnded (Some e) # es) = (0, Some (AttachError e))"

text \<open>The size is set once before the loop.\<close>

definition attach_interactive :: "bool \<Rightarrow> bool \<Rightarrow> attach_event list \<Rightarrow> nat \<times> attach_end option" where
  "attach_interactive raw_ok readOnly es =
     (if \<not> raw_ok then (0, Some (AttachError (Coded Internal)))
      else case attach_select readOnly es of (n, r) \<Rightarrow> (if readOnly then n else Suc n, r))"

text \<open>Without a terminal: what is read is sent until a send or a read fails; the output decides.\<close>

fun piped_pump :: "(nat \<Rightarrow> bool) \<Rightarrow> stdin_read list \<Rightarrow> byte list list" where
  "piped_pump sent [] = []"
| "piped_pump sent (StdinRead chunk e # rs) =
     (if chunk \<noteq> [] \<and> \<not> sent 0 then []
      else (if chunk \<noteq> [] then [chunk] else []) @
        (if e \<noteq> None then [] else piped_pump (if chunk \<noteq> [] then (\<lambda>k. sent (Suc k)) else sent) rs))"

definition attach_piped :: "bool \<Rightarrow> (nat \<Rightarrow> bool) \<Rightarrow> stdin_read list \<Rightarrow> err option \<Rightarrow> byte list list \<times> attach_end" where
  "attach_piped readOnly sent rs copyErr =
     (if readOnly then [] else piped_pump sent rs, case copyErr of None \<Rightarrow> AttachDone | Some e \<Rightarrow> AttachError e)"

definition attach_report :: "string \<Rightarrow> attach_end \<Rightarrow> (int \<times> string) option \<Rightarrow> err option \<times> string" where
  "attach_report sid r ex =
     (case r of
        AttachDetached \<Rightarrow> (None, line_end @ ''detached '' @ map char_of [0xE2, 0x80, 0x94 :: nat] @ '' session '' @ sid @ '' keeps running'' @ line_end)
      | AttachError e \<Rightarrow> (Some e, [])
      | AttachDone \<Rightarrow> (None, exit_line ex))"

text \<open>Up to the loop: the stream, and the write lock for a keyboard that may type. \<open>sent\<close> says of
  each of the three requests whether it could be written.\<close>

definition attach_open ::
  "cli_env \<Rightarrow> (nat \<Rightarrow> bool) \<Rightarrow> string \<Rightarrow> u64 option \<Rightarrow> bool \<Rightarrow> bool \<Rightarrow> net_event list \<Rightarrow> (err + nat \<times> client) option" where
  "attach_open env sent idOrName since readOnly interactive es =
     with_client env es (\<lambda>c es1.
       case client_attach (sent 0) (sent 1) c idOrName since readOnly es1 of
         (None, c1, es2) \<Rightarrow> (None, c1, es2)
       | (Some (Inl e), c1, es2) \<Rightarrow> (Some (Inl e), c1, es2)
       | (Some (Inr i), c1, es2) \<Rightarrow>
           if interactive \<and> \<not> readOnly then
             (case client_take_write (sent 2) c1 (st_session_id (cl_heap c1 ! i)) es2 of
                (None, c2, es3) \<Rightarrow> (None, c2, es3)
              | (Some (Inl e), c2, es3) \<Rightarrow> (Some (Inl e), c2, es3)
              | (Some (Inr _), c2, es3) \<Rightarrow> (Some (Inr (i, c2)), c2, es3))
           else (Some (Inr (i, c1)), c1, es2))"

text \<open>
  The whole command: \<open>raw_ok\<close> is whether the terminal can be made raw, \<open>selects\<close> what its loop
  meets, \<open>psent\<close>, \<open>reads\<close> and \<open>copyErr\<close> the input and the output without a terminal, and \<open>ex\<close> how
  the session ended when the stream did. The result: the error, and what goes to stderr.
\<close>

record attach_flags =
  af_read_only :: bool
  af_since_seq :: u64
  af_from_seq :: bool

definition attach_command ::
  "cli_env \<Rightarrow> (nat \<Rightarrow> bool) \<Rightarrow> attach_flags \<Rightarrow> string \<Rightarrow> bool \<Rightarrow> bool \<Rightarrow> attach_event list \<Rightarrow> (nat \<Rightarrow> bool) \<Rightarrow> stdin_read list
   \<Rightarrow> err option \<Rightarrow> (int \<times> string) option \<Rightarrow> net_event list \<Rightarrow> (err option \<times> string) option" where
  "attach_command env sent fl idOrName interactive raw_ok selects psent reads copyErr ex es =
     (case attach_open env sent idOrName (if af_from_seq fl then Some (af_since_seq fl) else None) (af_read_only fl) interactive es of
        None \<Rightarrow> None
      | Some (Inl e) \<Rightarrow> Some (Some e, [])
      | Some (Inr (i, c)) \<Rightarrow>
          map_option (\<lambda>r. attach_report (st_session_id (cl_heap c ! i)) r ex)
            (if interactive then snd (attach_interactive raw_ok (af_read_only fl) selects)
             else Some (snd (attach_piped (af_read_only fl) psent reads copyErr))))"

section \<open>Listings\<close>

definition version_text :: "string \<Rightarrow> string \<Rightarrow> string \<Rightarrow> string \<Rightarrow> string" where
  "version_text version goVersion os arch =
     ''runbaypty '' @ version @ '' (protocol v'' @ int_string 1 @ '', '' @ goVersion @ '' '' @ os @ ''/'' @ arch @ '')'' @ line_end"

definition errors_list :: string where
  "errors_list = concat (map (\<lambda>c. pad 26 (code_string c) @ '' '' @ code_description c @ line_end) all_codes)"

record skill =
  sl_name :: string
  sl_desc :: string

text \<open>The bodies are embedded files: an argument of \<open>skills get\<close>.\<close>

definition skill_registry :: "skill list" where
  "skill_registry =
     [\<lparr>sl_name = ''core'', sl_desc = ''Read first: the daemon model, env vars, and the spawn to attach to read loop''\<rparr>,
      \<lparr>sl_name = ''sessions'', sl_desc = ''Spawn, drive input, the single-writer lock, kill/rename/resize''\<rparr>,
      \<lparr>sl_name = ''meta'', sl_desc = ''Attach JSON metadata: merge/replace/incr/unset, filter, CAS, the blackboard pattern''\<rparr>,
      \<lparr>sl_name = ''history'', sl_desc = ''Durable --log, reprint with tail, replay with export (asciinema)''\<rparr>,
      \<lparr>sl_name = ''events'', sl_desc = ''Wait-for-silence, wait-for-ready, OSC 133 command blocks, lastcmd''\<rparr>,
      \<lparr>sl_name = ''remote'', sl_desc = ''WebSocket transport, scoped tokens, ssh -L to drive a remote daemon''\<rparr>,
      \<lparr>sl_name = ''sdk'', sl_desc = ''The Go SDK (pkg/client): Spawn, Attach, Follow, Watch''\<rparr>]"

definition find_skill :: "string \<Rightarrow> skill option" where
  "find_skill name = find (\<lambda>s. sl_name s = name) skill_registry"

definition trim_right_newlines :: "string \<Rightarrow> string" where
  "trim_right_newlines s = rev (dropWhile (\<lambda>c. c = char_of (10 :: nat)) (rev s))"

definition skills_get :: "(string \<Rightarrow> string) \<Rightarrow> string \<Rightarrow> code + string" where
  "skills_get body name =
     (case find_skill name of None \<Rightarrow> Inl InvalidInput | Some s \<Rightarrow> Inr (trim_right_newlines (body (sl_name s)) @ line_end))"

definition list_skills :: string where
  "list_skills =
     (let width = foldl (\<lambda>w s. max w (length (sl_name s))) 0 skill_registry
      in concat (map (\<lambda>s. ''  '' @ pad width (sl_name s) @ ''  '' @ sl_desc s @ line_end) skill_registry))"

lemma find_skill_iff: "(\<exists>s. find_skill name = Some s) \<longleftrightarrow> name \<in> sl_name ` set skill_registry"
  unfolding find_skill_def
  by (metis (mono_tags, lifting) find_None_iff find_Some_iff imageE image_eqI not_Some_eq nth_mem)

section \<open>export\<close>

text \<open>
  The log that was read, whether the output file can be opened (for an empty path it is stdout),
  and whether everything could be written to it; what closing it says is dropped. \<open>None\<close> is the
  panic of the reader of the log.
\<close>

definition export_command ::
  "(int \<Rightarrow> string) \<Rightarrow> log_read \<Rightarrow> string \<Rightarrow> int \<Rightarrow> int \<Rightarrow> string \<Rightarrow> bool \<Rightarrow> bool \<Rightarrow> bool \<Rightarrow> (err + string) option" where
  "export_command secs rd out width height title open_ok write_ok close_ok =
     (case rd of
        LogPanic \<Rightarrow> None
      | LogError e \<Rightarrow> Some (Inl (Coded e))
      | LogRecords recs \<Rightarrow>
          if out \<noteq> [] \<and> \<not> open_ok then Some (Inl (Coded InvalidInput))
          else (case write_cast secs recs width height title of
              Inl e \<Rightarrow> Some (Inl (Coded e))
            | Inr cast \<Rightarrow> if \<not> write_ok then Some (Inl (OtherErr ''export: flush'')) else Some (Inr cast)))"

section \<open>From the shell to the daemon and back\<close>

lemma await_answered:
  assumes "mget (cl_slots c) i = Some SlotEmpty" "i \<in> set (cl_pending c)" "\<not> cl_done c"
    and "server_req_id r = i" "i \<noteq> []" "server_type r \<notin> {TypeOutput, TypeExit, TypeWatchEvent, TypeEvent}"
  shows "await c i t (NetFrame (RxMsg r) # es) = (Some (request_result t (RxMsg r)), settle c i (RxMsg r), es)"
proof -
  have "client_rx c (RxMsg r) = settle c i (RxMsg r)"
    using assms client_rx_response[of c r] client_rx_error_frame[of c r] by blast
  then show ?thesis
    using assms(1,2) by (simp add: await.simps settle_def mget_mput)
qed

lemma request_one:
  assumes "\<not> cl_closed c" "\<not> cl_done c" "i = ''c'' @ nat_string (Suc (cl_next_req c))"
    and "server_req_id r = i" "server_type r \<notin> {TypeOutput, TypeExit, TypeWatchEvent, TypeEvent}"
  shows "\<exists>c'. request True c build t (NetFrame (RxMsg r) # es) = (Some (request_result t (RxMsg r)), c', es) \<and>
    \<not> cl_closed c' \<and> \<not> cl_done c' \<and> cl_next_req c' = Suc (cl_next_req c)"
proof -
  let ?c = "(snd (request_begin c))\<lparr>cl_out := cl_out (snd (request_begin c)) @ [build i]\<rparr>"
  have start: "request True c build t (NetFrame (RxMsg r) # es) = await ?c i t (NetFrame (RxMsg r) # es)"
    using assms(1,3) by (simp add: request_def request_begin_def request_send_def Let_def)
  have "mget (cl_slots ?c) i = Some SlotEmpty" "i \<in> set (cl_pending ?c)" "\<not> cl_done ?c" "i \<noteq> []"
    using assms(1-3) by (simp_all add: request_begin_def Let_def mget_mput)
  from await_answered[OF this(1-3) assms(4) this(4) assms(5)] start show ?thesis
    using assms(1,2) by (simp add: settle_def request_begin_def Let_def)
qed

definition dial_hello :: hello where
  "dial_hello = \<lparr>he_req_id = ''c1'', he_protocol_version = ProtocolVersion, he_token = [], he_client_name = sdkClientName\<rparr>"

lemma first_ids: "''c'' @ nat_string (Suc 0) = ''c1''" "''c'' @ nat_string (Suc (Suc 0)) = ''c2''"
  by code_simp+

lemma dial_answered:
  assumes "cv_reachable env sock" "cv_hello_sent env"
    and "(if cv_sock_flag env = [] then cv_sock_path env else Some (cv_sock_flag env)) = Some sock"
    and "ack = SHelloAck h" "ha_req_id h = ''c1''"
  shows "\<exists>c. dial_cmd env (NetFrame (RxMsg ack) # es) = (Some (Inr c), es) \<and> \<not> cl_closed c \<and> \<not> cl_done c \<and> cl_next_req c = 1"
proof -
  let ?build = "\<lambda>i. CHello \<lparr>he_req_id = i, he_protocol_version = ProtocolVersion, he_token = [], he_client_name = sdkClientName\<rparr>"
  have "\<not> cl_closed new_client" "\<not> cl_done new_client" "cl_next_req new_client = 0" by (simp_all add: new_client_def)
  moreover have "server_req_id ack = ''c1''" "server_type ack = TypeHelloAck"
    using assms(4,5) by (simp_all add: server_req_id_def server_type_def)
  ultimately obtain c' where
    "request True new_client ?build TypeHelloAck (NetFrame (RxMsg ack) # es) = (Some (request_result TypeHelloAck (RxMsg ack)), c', es)"
    "\<not> cl_closed c'" "\<not> cl_done c'" "cl_next_req c' = 1"
    using request_one[of new_client "''c1''" ack ?build TypeHelloAck es] first_ids(1) by auto
  then show ?thesis
    using assms by (simp add: dial_cmd_def client_dial_def call_def request_result_def rx_type_def server_type_def)
qed


definition demo_cli :: cli_env where
  "demo_cli = \<lparr>cv_sock_flag = ''/s'', cv_sock_path = None, cv_reachable = (\<lambda>p. p = ''/s''), cv_hello_sent = True, cv_sent = True\<rparr>"


section \<open>Errors before and after the dial\<close>

text \<open>When nothing listens, every command ends with the error that the exit code 3 stands for.\<close>

lemma command_unreachable:
  assumes "(if cv_sock_flag env = [] then cv_sock_path env else Some (cv_sock_flag env)) = Some sock" "\<not> cv_reachable env sock"
  shows "with_client env es f = Some (Inl (Coded DaemonUnreachable))"
  using assms by (simp add: with_client_def dial_cmd_def client_dial_def)

text \<open>Malformed arguments are refused before anything is dialled.\<close>

lemma bad_arguments_local:
  "parse_u16 a = None \<or> parse_u16 b = None \<Longrightarrow> resize_command env sid a b es = Some (Inl (Coded InvalidInput))"
  "parse_kvs [] kvs = Inl k \<Longrightarrow> meta_set_command env sid kvs es = Some (Inl (Coded k))"
  "build_incr_patch ds = Inl k \<Longrightarrow> meta_incr_command env sid ds es = Some (Inl (Coded k))"
  by (auto simp: resize_command_def meta_set_command_def meta_incr_command_def split: option.split)

text \<open>The sizes \<open>resize\<close> accepts are exactly the decimal numbers of 16 bits.\<close>

lemma parse_u16_exact:
  "parse_u16 (nat_string n) = (if n < 2 ^ 16 then Some (of_nat n) else None)"
proof -
  have "nat_string n \<noteq> []" by (subst nat_string.simps) simp
  then show ?thesis by (simp add: parse_u16_def parse_nat_string)
qed

text \<open>Without a terminal everything that is read is sent, up to the read that ends the input.\<close>

lemma piped_pump_all:
  "\<forall>r\<in>set rs. rd_err r = None \<Longrightarrow> \<forall>k. sent k \<Longrightarrow> concat (piped_pump sent rs) = typed rs"
proof (induction sent rs rule: piped_pump.induct)
  case (2 sent chunk e rs)
  then show ?case by (cases "chunk = []") (simp_all add: typed_def)
qed (simp add: typed_def)

text \<open>The command line of \<open>ls\<close> is cut at a byte: a command in valid UTF-8 can print as an invalid one.\<close>

lemma ls_cuts_character:
  "\<exists>cmd. utf8_ok cmd \<and> (\<forall>s. si_cmd s = cmd \<and> si_args s = [] \<longrightarrow> \<not> utf8_ok (ls_cmdline s))"
proof -
  define cmd where "cmd = concat (replicate 21 (map char_of [0xC3, 0xA9 :: nat]))"
  have "utf8_ok cmd" unfolding cmd_def by code_simp
  moreover have "\<not> utf8_ok (take 37 cmd @ ellipsis)" unfolding cmd_def by code_simp
  moreover have "length cmd = 42" unfolding cmd_def by code_simp
  ultimately show ?thesis by (intro exI[of _ cmd]) (simp add: ls_cmdline_def)
qed

text \<open>The times printed are those of the calendar, on both sides of a leap day and of the epoch.\<close>

lemma rfc3339_samples:
  "rfc3339 0 = ''1970-01-01T00:00:00Z''" "rfc3339 1709164799999 = ''2024-02-28T23:59:59Z''"
  "rfc3339 1709164800000 = ''2024-02-29T00:00:00Z''" "rfc3339 (- 1) = ''1969-12-31T23:59:59Z''"
  by code_simp+

end
