(* ===== verification/ProcInfo.thy ===== *)
theory ProcInfo
  imports Session
begin

text \<open>
  What the host can say of a running session's foreground process and directory,
  \<open>pkg/host/procinfo_linux.go\<close> and \<open>procinfo_darwin.go\<close>: the value that \<open>session_info_of\<close> takes for it.
  The arguments are the answers of the system: the process group of the terminal, the \<open>comm\<close> file
  or the \<open>p_comm\<close> field of a process, and the link to its directory.
\<close>

definition fg_process_linux :: "int option \<Rightarrow> (int \<Rightarrow> string option) \<Rightarrow> (int \<times> string) option" where
  "fg_process_linux pgrp comm_file =
     (case pgrp of
        None \<Rightarrow> None
      | Some pgid \<Rightarrow>
          if pgid \<le> 0 then None
          else (case comm_file pgid of None \<Rightarrow> Some (pgid, []) | Some s \<Rightarrow> Some (pgid, trim_space s)))"

definition live_cwd_linux :: "(int \<Rightarrow> string option) \<Rightarrow> int \<Rightarrow> string option" where
  "live_cwd_linux cwd_link pid = cwd_link pid"

text \<open>\<open>unix.ByteSliceToString\<close>: up to the first NUL byte.\<close>

definition c_string :: "byte list \<Rightarrow> string" where
  "c_string bs = bytes_string (takeWhile (\<lambda>b. b \<noteq> 0) bs)"

definition fg_process_darwin :: "int option \<Rightarrow> (int \<Rightarrow> byte list option) \<Rightarrow> (int \<times> string) option" where
  "fg_process_darwin pgrp p_comm =
     (case pgrp of
        None \<Rightarrow> None
      | Some pgid \<Rightarrow>
          if pgid \<le> 0 then None
          else (case p_comm pgid of None \<Rightarrow> Some (pgid, []) | Some bs \<Rightarrow> Some (pgid, trim_space (c_string bs))))"

definition live_cwd_darwin :: "int \<Rightarrow> string option" where
  "live_cwd_darwin pid = None"

text \<open>A process is reported with a positive pid or not at all, and one that has gone between the
  two questions with its pid alone.\<close>

lemma fg_process_cases:
  "fg_process_linux g f = Some (p, c) \<Longrightarrow> 0 < p \<and> g = Some p \<and> (f p = None \<longrightarrow> c = [])"
  "fg_process_darwin g b = Some (p, c) \<Longrightarrow> 0 < p \<and> g = Some p \<and> (b p = None \<longrightarrow> c = [])"
  by (auto simp: fg_process_linux_def fg_process_darwin_def split: option.splits if_splits)

text \<open>The session's information says so only while it runs: after the exit there is no foreground
  process, and the directory is the one it was started in.\<close>

lemma info_of_exited:
  assumes "se_state s \<noteq> StateRunning"
  shows "session_info_of live s = session_info_of (None, None) s"
  using assms by (simp add: session_info_of_def)

end
