(* ===== verification/Spec2Isabelle.thy ===== *)
theory Spec2Isabelle
  imports Service Commands ProcInfo
begin

text \<open>
  The runbaypty verification development.

  runbaypty is a daemon that keeps terminal sessions alive: it spawns a process on a PTY, keeps
  its newest output in a ring buffer, and serves any number of clients that attach, fall
  behind, die and come back, over a framed protocol on a unix socket or a WebSocket. Output
  carries sequence numbers, so a client resumes where it stopped. The daemon can be replaced by
  a newer one while the processes run on.

  The theories follow the packages of the code, each importing what it calls.

  Foundations. \<open>Prelude\<close>: byte lists, 32-bit big-endian fields, association lists read
  with \<open>mget\<close>/\<open>mput\<close>, signed 64-bit wrapping, Go's slice copy. \<open>Machine\<close>: the locale of a
  step function with an invariant, and of one with a counter that never goes back. \<open>Wire\<close>:
  the locale of a self-delimiting code (what is written reads back, a proper prefix does not)
  and readers over fragmented transports. \<open>Paths\<close>: \<open>pkg/constants\<close> and the path functions of
  \<open>filepath\<close> it uses.

  Protocol, \<open>pkg/proto\<close>, \<open>pkg/errcodes\<close>. \<open>Frame\<close> and \<open>Codec\<close>: \<open>frame.go\<close>, \<open>codec.go\<close>. The
  encoder and decoder run on a transport that returns any number of bytes per read and fails
  where it likes. \<open>Messages\<close>: \<open>messages.go\<close>. \<open>Errcodes\<close>: \<open>error.go\<close>, \<open>registry.go\<close>.

  Metadata, \<open>pkg/metajson\<close>, \<open>pkg/host/meta.go\<close>. \<open>Json\<close>: RFC 7386 merging and counters on values.
  \<open>JsonText\<close>: the decoder and encoder of the Go standard library as the code uses them, on byte
  strings, with the nesting limit and the replacement of invalid UTF-8. \<open>MetaJson\<close>: the
  functions of the package on texts, and the rules for keys and sizes.

  Host, \<open>pkg/host\<close>, \<open>pkg/ids\<close>. \<open>Ring\<close>: \<open>ring.go\<close>, on 64-bit words. \<open>Events\<close>: the bus of
  \<open>events.go\<close>. \<open>Monitor\<close>: the escape sequence scanner and the silence edge of \<open>monitor.go\<close>.
  \<open>SesLog\<close>: the durable log of \<open>seslog.go\<close>, on a file that may accept part of a write.
  \<open>Session\<close>: \<open>session.go\<close> and the write path of \<open>meta.go\<close>: spawn, one operation per method, the
  read pump turn by turn, and \<open>session_step\<close>, which is one atomic operation of a session.
  \<open>ProcInfo\<close>: \<open>procinfo_linux.go\<close> and \<open>procinfo_darwin.go\<close>.
  \<open>Handover\<close>: \<open>handover.go\<close>. \<open>Ids\<close>: \<open>ids.go\<close>. \<open>Registry\<close>: \<open>registry.go\<close>. Sessions live in a heap
  and the registry and the connections hold references into it; \<open>registry_step\<close> is the relation
  of everything that happens to a registry, with a spawn in its two halves, since the process
  is started without the lock.

  Daemon, \<open>pkg/daemon\<close>, \<open>pkg/processlock\<close>. \<open>Conn\<close>: every handler of \<open>conn.go\<close>, the dispatch with
  its scope check, the cleanup, the output pump turn by turn, the event pump, the watches of
  \<open>watch.go\<close> and the tokens of \<open>ws.go\<close>. A handler takes the server and the connection and returns
  both; what it sends is appended to \<open>cn_out\<close>. \<open>Pump\<close>, \<open>Replies\<close> and \<open>Access\<close> hold what is proved
  of it: that the output stream is exact, what the replies cannot carry, who may do what.
  \<open>Takeover\<close>: \<open>takeover.go\<close>, the upgrade between two daemons. \<open>ProcessLock\<close>: the lock file and
  the flock behind it, on a machine (\<open>os_state\<close>) of inodes, names, flocks and processes that
  start and die between any two system calls. \<open>Daemon\<close>: \<open>daemon.go\<close> on the same machine: the
  boot, each failure of it, the accept loop, housekeeping, and the two ways to stop. \<open>Upgrade\<close>:
  the request of a new daemon and the command \<open>serve\<close>, joined with the old daemon and the lock.

  Client, \<open>pkg/client\<close>. \<open>AttachStream\<close>: the buffer between the reader goroutine and \<open>Read\<close>.
  \<open>Client\<close>: the table of pending requests, the reader that sorts the daemon's frames, and every
  method as a function of what happens on the connection while it waits. \<open>Follow\<close>: the follower,
  which reconnects. \<open>Requests\<close> joins both ends: the client's request and the daemon's dispatch.

  Command line, \<open>cmd/runbaypty\<close>, \<open>pkg/style\<close>. \<open>MetaArgs\<close>: the grammar of metadata arguments and
  filters. \<open>Cli\<close>: the two tiers of \<open>tail\<close>, the keystrokes of \<open>attach\<close>, the cast of \<open>export\<close>.
  \<open>Commands\<close>: the body of every command over the client, and what it prints. \<open>Service\<close>:
  \<open>daemon install\<close> to \<open>daemon status\<close> on the machine of \<open>ProcessLock\<close>. \<open>Style\<close>: colours, the
  rendering of errors and the exit codes.

  What the groups of lemmas show. The ring refines the list of everything written
  (\<open>ring_rep\<close>, the locale \<open>seq_store\<close>), and from it a subscriber receives every byte from its
  starting point once, in order and at its position (C2), gaps announced, across reads of
  any size, across clients (C1), into the client's own \<open>Read\<close> (C35), across
  the connections of a follower (C3), from a log to the live stream (C36) and across an
  upgrade (C6, C19, C20), which ends with one owner on both sides (C21) and never
  with a second daemon (C22). A request comes back (C4), to its own caller
  (C24), and from a command line (C23). One daemon holds the lock (C10), a boot is whole or leaves nothing (C11), a
  clean stop can be followed by a boot (C25), the status command tells which it was (C26),
  and a stop ends within its deadline (C12). The
  registry's index is an invariant of its step relation (C7, C8). The permissions
  (C9, C13, C16) and the cleanup (C15) hold over all sequences of frames or
  operations. Metadata writes are atomic, compare-and-swap and commute on disjoint fields
  (C17, C18, C27 to C29), and what a user sets is what a filter finds (C37). The
  codec, the log and the JSON text are round trips with their behaviour on torn input (C5,
  C30 to C32, C38). Some theorems state what the code does where that is not what it
  means to do (C40, and the theorems the sections of \<open>SesLog\<close>, \<open>JsonText\<close>, \<open>Handover\<close>,
  \<open>Replies\<close>, \<open>Client\<close>, \<open>MetaArgs\<close>, \<open>Cli\<close>, \<open>Upgrade\<close>, \<open>Style\<close> and \<open>Commands\<close> have).

  Concurrency. Each method that holds a mutex is one atomic step, and what a goroutine does
  between two locks is one turn; any interleaving of goroutines is a sequence of these. A
  channel is a queue. Integers that can wrap are words (\<open>u64\<close> sequence numbers) or are wrapped
  explicitly (\<open>wrap_i64\<close>); times are Go's int64 milliseconds or nanoseconds.

  Fuel. \<open>decode_frames n\<close> stops after \<open>n\<close> reads; the theorem on streams asks for one more than there
  are frames. The decoder of JSON recurses on the text, which every production shortens. \<open>itoa\<close>
  runs down its 20-byte buffer and is shown never to exhaust it. \<open>receive\<close> shortens the channel
  in every turn; \<open>await\<close> and the follower consume one event of the connection per turn.

  Parameters. What the code gets from outside the repository or from the system is an
  argument: marshalling of headers by the JSON package (\<open>ce_marshal\<close>), UUIDs, the PTY and the
  process, the clock, the outcome of each system call, the printing and the sums of non-integer
  numbers, the regular expression engine of a watch, the file descriptors of the upgrade, the parsing of the discovery file, and
  whether launchctl and systemctl succeed.

  Not modelled: the parsing of flags by the command library, the raw mode of the terminal, the
  indented JSON form of the outputs, and the bodies of the embedded guides; the HTTP side of \<open>ws.go\<close>, which belongs to the libraries it
  calls; the lock of the Windows stub; the length of time-outs other than that of the shutdown;
  and the examples, programs over the client library that demonstrate it.
\<close>

end
